(* ===== verification/Prelude.thy ===== *)
theory Prelude
  imports Main "HOL-Library.Word" "HOL-Library.Monad_Syntax"
begin

section \<open>Shared vocabulary of the development\<close>

text \<open>
  What every component theory uses: the machine types, the outcome of a fallible Rust call,
  the \<open>Poll\<close> enum, an unbounded loop as a partial function with its invariant and its
  termination rule, and generic facts on lists, options and arithmetic modulo a capacity.

  \<open>usize\<close> is \<open>nat\<close>: every addition of the modelled code is bounded by a buffer or queue
  size, and every subtraction is either guarded by the source or shown by an invariant not to
  underflow. Counters for which the source itself uses wrapping arithmetic are words.
\<close>

unbundle bit_operations_syntax

named_theorems wf_simps \<open>unfolding the well-formedness predicates\<close>
named_theorems wf_intros \<open>operations preserve well-formedness\<close>
named_theorems op_simps \<open>unfolding the operations of a component\<close>

type_synonym u8 = "8 word"
type_synonym u16 = "16 word"
type_synonym u32 = "32 word"
type_synonym u64 = "64 word"
type_synonym bytes = "u8 list"

subsection \<open>Errors and outcomes\<close>

text \<open>
  \<open>crate::Error\<close> (\<^verbatim>\<open>error.rs\<close>). The payload of \<open>Verbs\<close> is the errno of the
  \<^verbatim>\<open>io::Error\<close>; messages are kept as the strings that tell the branches apart.
\<close>

datatype error =
    Verbs int
  | NoDevices
  | DeviceNotFound string
  | InvalidArg string
  | WorkCompletionErr (wce_status: u32) (wce_vendor_err: u32)
  | WouldBlock
  | ConnectionFault string
  | Timeout string

text \<open>
  The outcome of a call: the two constructors of \<open>Result\<close>, and \<open>Panic\<close> for an
  assertion, an \<open>expect\<close> or an index that fails.
\<close>

datatype ('e, 'a) outcome = is_Ok: Ok (the_Ok: 'a) | Err 'e | Panic

type_synonym 'a res = "(error, 'a) outcome"

datatype 'a poll = Pending | Ready 'a

text \<open>Discarding the value of a result, as \<open>let _ = \<dots>\<close> and \<open>is_err()\<close> do.\<close>

definition is_err :: "('e, 'a) outcome \<Rightarrow> bool" where
  "is_err r \<longleftrightarrow> (case r of Err _ \<Rightarrow> True | _ \<Rightarrow> False)"

lemma is_err_simps [simp]:
  "is_err (Err e)" "\<not> is_err (Ok a)" "\<not> is_err Panic"
  by (simp_all add: is_err_def)

text \<open>
  The \<open>?\<close> operator on a call with state: go on with the value, or return the error (or the
  panic) with the state reached. The second form is for a call that may not return.
\<close>

definition and_then :: "('e, 'a) outcome \<times> 's \<Rightarrow> ('a \<Rightarrow> 's \<Rightarrow> ('e, 'b) outcome \<times> 's) \<Rightarrow> ('e, 'b) outcome \<times> 's" where
  "and_then x f =
     (case x of (Ok a, s) \<Rightarrow> f a s | (Err e, s) \<Rightarrow> (Err e, s) | (Panic, s) \<Rightarrow> (Panic, s))"

definition and_then_opt ::
    "(('e, 'a) outcome \<times> 's) option \<Rightarrow> ('a \<Rightarrow> 's \<Rightarrow> (('e, 'b) outcome \<times> 's) option) \<Rightarrow>
       (('e, 'b) outcome \<times> 's) option" where
  "and_then_opt x f =
     (case x of
        None \<Rightarrow> None
      | Some (Ok a, s) \<Rightarrow> f a s
      | Some (Err e, s) \<Rightarrow> Some (Err e, s)
      | Some (Panic, s) \<Rightarrow> Some (Panic, s))"

lemma and_then_simps [simp]:
  "and_then (Ok a, s) f = f a s" "and_then (Err e, s) f = (Err e, s)"
  "and_then (Panic, s) f = (Panic, s)"
  by (simp_all add: and_then_def)

lemma and_then_opt_simps [simp]:
  "and_then_opt None f = None" "and_then_opt (Some (Ok a, s)) f = f a s"
  "and_then_opt (Some (Err e, s)) f = Some (Err e, s)"
  "and_then_opt (Some (Panic, s)) f = Some (Panic, s)"
  by (simp_all add: and_then_opt_def)

lemma and_then_cases:
  assumes "and_then x f = (r, s')"
  obtains a s where "x = (Ok a, s)" "f a s = (r, s')"
    | e where "x = (Err e, s')" "r = Err e" | "x = (Panic, s')" "r = Panic"
  using assms by (auto simp: and_then_def split: prod.splits outcome.splits)

text \<open>\<open>from_ret\<close>: a C return code, 0 for success and \<open>-errno\<close> otherwise.\<close>

definition from_ret :: "int \<Rightarrow> unit res" where
  "from_ret ret = (if ret = 0 then Ok () else Err (Verbs (- ret)))"

lemma from_ret_cases:
  "from_ret r = Ok () \<or> from_ret r = Err (Verbs (- r))"
  by (simp add: from_ret_def)

lemma from_ret_not_Panic [simp]: "from_ret r \<noteq> Panic"
  by (simp add: from_ret_def)

subsection \<open>Loops that may not end\<close>

text \<open>
  A \<open>loop { \<dots> }\<close> of the source whose exit depends on the environment: the body returns
  \<open>Inl\<close> of the next state to go round again, or \<open>Inr\<close> of the value the loop returns.
  \<open>None\<close> means that the loop (or a loop inside its body) does not return.
\<close>

partial_function (option) loop :: "('s \<Rightarrow> ('s + 'r) option) \<Rightarrow> 's \<Rightarrow> 'r option" where
  [code]: "loop f s =
     Option.bind (f s) (\<lambda>x. case x of Inl s' \<Rightarrow> loop f s' | Inr r \<Rightarrow> Some r)"

lemma loop_exit: "f s = Some (Inr r) \<Longrightarrow> loop f s = Some r"
  by (subst loop.simps) simp

lemma loop_again: "f s = Some (Inl s') \<Longrightarrow> loop f s = loop f s'"
  by (subst loop.simps) simp

text \<open>Partial correctness: an invariant of the body holds of what the loop returns.\<close>

lemma loop_inv:
  assumes ret: "loop f s = Some r" and start: "P s"
    and step: "\<And>s s'. P s \<Longrightarrow> f s = Some (Inl s') \<Longrightarrow> P s'"
    and exit: "\<And>s r. P s \<Longrightarrow> f s = Some (Inr r) \<Longrightarrow> Q r"
  shows "Q r"
proof -
  have "P s \<longrightarrow> Q r"
  proof (rule loop.raw_induct [where P = "\<lambda>f' s r. f' = f \<longrightarrow> P s \<longrightarrow> Q r",
        OF _ ret, THEN mp, OF _ refl])
    fix lp f' s r
    assume IH: "\<And>f' s r. lp f' s = Some r \<Longrightarrow> f' = f \<longrightarrow> P s \<longrightarrow> Q r"
      and eq: "Option.bind (f' s) (\<lambda>x. case x of Inl s' \<Rightarrow> lp f' s' | Inr r \<Rightarrow> Some r) = Some r"
    show "f' = f \<longrightarrow> P s \<longrightarrow> Q r"
    proof (intro impI)
      assume f: "f' = f" and P: "P s"
      from eq obtain x where x: "f s = Some x"
        and rest: "(case x of Inl s' \<Rightarrow> lp f s' | Inr r \<Rightarrow> Some r) = Some r"
        using f by (cases "f s") auto
      show "Q r"
      proof (cases x)
        case (Inl s')
        then show ?thesis using x rest step [OF P] IH by auto
      next
        case (Inr r')
        then show ?thesis using x rest exit [OF P] by auto
      qed
    qed
  qed
  then show ?thesis using start by blast
qed

text \<open>A loop that simulates another one step by step returns what the other returns.\<close>

lemma loop_sim:
  assumes ret: "loop f s = Some r" and start: "S s t"
    and again: "\<And>s t s'. S s t \<Longrightarrow> f s = Some (Inl s') \<Longrightarrow> \<exists>t'. g t = Some (Inl t') \<and> S s' t'"
    and exit: "\<And>s t r. S s t \<Longrightarrow> f s = Some (Inr r) \<Longrightarrow> \<exists>r'. g t = Some (Inr r') \<and> R r r'"
  shows "\<exists>r'. loop g t = Some r' \<and> R r r'"
proof -
  have "\<forall>t. S s t \<longrightarrow> (\<exists>r'. loop g t = Some r' \<and> R r r')"
  proof (rule loop.raw_induct [where P = "\<lambda>f' s r. f' = f \<longrightarrow> (\<forall>t. S s t \<longrightarrow> (\<exists>r'. loop g t = Some r' \<and> R r r'))",
        OF _ ret, THEN mp, OF _ refl])
    fix loop' f' s r
    assume IH: "\<And>f' s r. loop' f' s = Some r \<Longrightarrow> f' = f \<longrightarrow> (\<forall>t. S s t \<longrightarrow> (\<exists>r'. loop g t = Some r' \<and> R r r'))"
      and e: "Option.bind (f' s) (\<lambda>x. case x of Inl s' \<Rightarrow> loop' f' s' | Inr r \<Rightarrow> Some r) = Some r"
    show "f' = f \<longrightarrow> (\<forall>t. S s t \<longrightarrow> (\<exists>r'. loop g t = Some r' \<and> R r r'))"
    proof (intro impI allI)
      fix t assume f': "f' = f" and S: "S s t"
      from e obtain x where x: "f' s = Some x" by (cases "f' s") auto
      show "\<exists>r'. loop g t = Some r' \<and> R r r'"
      proof (cases x)
        case (Inl s')
        with e x have "loop' f' s' = Some r" by simp
        moreover from again [OF S, of s'] x Inl f' obtain t' where "g t = Some (Inl t')" "S s' t'" by auto
        ultimately show ?thesis using IH [of f' s' r] f' by (auto simp: loop_again)
      next
        case (Inr y)
        with e x f' have "f s = Some (Inr r)" by simp
        from exit [OF S this] show ?thesis by (auto intro: loop_exit)
      qed
    qed
  qed
  with start show ?thesis by blast
qed

text \<open>Total correctness: a body that always answers and decreases a measure returns.\<close>

lemma loop_returns:
  fixes m :: "'s \<Rightarrow> nat"
  assumes "P s"
    and body: "\<And>s. P s \<Longrightarrow> \<exists>x. f s = Some x \<and> (\<forall>s'. x = Inl s' \<longrightarrow> P s' \<and> m s' < m s)"
  shows "\<exists>r. loop f s = Some r"
  using assms(1)
proof (induction "m s" arbitrary: s rule: less_induct)
  case less
  from body [OF less.prems] obtain x
    where x: "f s = Some x" "\<And>s'. x = Inl s' \<Longrightarrow> P s' \<and> m s' < m s" by blast
  show ?case
  proof (cases x)
    case (Inl s')
    with x less.hyps [of s'] show ?thesis by (auto simp: loop_again)
  next
    case (Inr r)
    with x show ?thesis by (auto intro: loop_exit)
  qed
qed

subsection \<open>Lists as fixed-size arrays\<close>

definition upd_range :: "'a list \<Rightarrow> nat \<Rightarrow> 'a list \<Rightarrow> 'a list" where
  \<comment> \<open>\<open>dst[i..i + src.len()].copy_from_slice(src)\<close>\<close>
  "upd_range dst i src = take i dst @ src @ drop (i + length src) dst"

definition slice :: "'a list \<Rightarrow> nat \<Rightarrow> nat \<Rightarrow> 'a list" where
  \<comment> \<open>\<open>&xs[a..b]\<close>\<close>
  "slice xs a b = take (b - a) (drop a xs)"

lemma length_upd_range [simp]:
  "i + length src \<le> length dst \<Longrightarrow> length (upd_range dst i src) = length dst"
  by (simp add: upd_range_def)

lemma length_slice [simp]: "b \<le> length xs \<Longrightarrow> length (slice xs a b) = b - a"
  by (simp add: slice_def)

lemma slice_upd_range_same:
  "i + length src \<le> length dst \<Longrightarrow> slice (upd_range dst i src) i (i + length src) = src"
  by (simp add: upd_range_def slice_def)

lemma nth_upd_range:
  assumes "i + length src \<le> length dst" "k < length dst"
  shows "upd_range dst i src ! k =
     (if k < i then dst ! k else if k < i + length src then src ! (k - i) else dst ! k)"
  using assms by (auto simp: upd_range_def nth_append min_def)

lemma slice_upd_range_other:
  assumes "i + length src \<le> length dst" "b \<le> length dst" "b \<le> i \<or> i + length src \<le> a"
  shows "slice (upd_range dst i src) a b = slice dst a b"
  using assms by (intro nth_equalityI) (auto simp: slice_def nth_upd_range)

lemma count_True_pos: "i < length bs \<Longrightarrow> bs ! i \<Longrightarrow> 0 < count_list bs True"
  by (metis (full_types) count_list_0_iff gr0I nth_mem)

lemma count_list_update:
  "i < length xs \<Longrightarrow>
     count_list (xs[i := y]) a + (if xs ! i = a then 1 else 0) = count_list xs a + (if y = a then 1 else 0)"
proof (induction xs arbitrary: i)
  case (Cons x xs)
  show ?case
  proof (cases i)
    case 0
    then show ?thesis by simp
  next
    case (Suc j)
    with Cons.IH [of j] Cons.prems show ?thesis by auto
  qed
qed simp

lemma count_list_replicate_other [simp]: "a \<noteq> b \<Longrightarrow> count_list (replicate n b) a = 0"
  by (induction n) auto

subsection \<open>Positions modulo a capacity\<close>

lemma mod_add_less_two:
  fixes a b n :: nat
  assumes "a < n" "b \<le> n"
  shows "(a + b) mod n = (if a + b < n then a + b else a + b - n)"
  using assms by (auto simp: mod_if)

lemma Suc_mod_cases:
  "i < n \<Longrightarrow> Suc i mod n = (if Suc i = n then 0 else Suc i)"
  by (simp add: mod_Suc)

end
