(* ===== verification/Verbs.thy ===== *)
theory Verbs
  imports Prelude
begin

section \<open>Work requests, work completions and memory regions\<close>

text \<open>
  The data the verbs layer exchanges with the device: \<^verbatim>\<open>wr.rs\<close> (work-request builders,
  queue-pair types and states), \<^verbatim>\<open>wc.rs\<close> (work completions, their typed status and
  opcode) and the part of \<^verbatim>\<open>mr.rs\<close> the transports read. The raw constants are those
  of the checked-in bindings \<^verbatim>\<open>rdma-io-sys/src/rdma/verbs/mod.rs\<close>.
\<close>

subsection \<open>Queue-pair types and states\<close>

datatype qp_type = Rc | Uc | Ud | XrcSend | XrcRecv | RawPacket | QptDriver

fun qp_type_as_raw :: "qp_type \<Rightarrow> u32" where
  "qp_type_as_raw Rc = 2"
| "qp_type_as_raw Uc = 3"
| "qp_type_as_raw Ud = 4"
| "qp_type_as_raw XrcSend = 9"
| "qp_type_as_raw XrcRecv = 10"
| "qp_type_as_raw RawPacket = 8"
| "qp_type_as_raw QptDriver = 255"

definition qp_type_from_raw :: "u32 \<Rightarrow> qp_type option" where
  "qp_type_from_raw v =
     (if v = 2 then Some Rc else if v = 3 then Some Uc else if v = 4 then Some Ud
      else if v = 9 then Some XrcSend else if v = 10 then Some XrcRecv
      else if v = 8 then Some RawPacket else if v = 255 then Some QptDriver else None)"

datatype qp_state = QpsReset | QpsInit | QpsRtr | QpsRts | QpsSqd | QpsSqe | QpsErr | QpsUnknown

fun qp_state_as_raw :: "qp_state \<Rightarrow> u32" where
  "qp_state_as_raw QpsReset = 0"
| "qp_state_as_raw QpsInit = 1"
| "qp_state_as_raw QpsRtr = 2"
| "qp_state_as_raw QpsRts = 3"
| "qp_state_as_raw QpsSqd = 4"
| "qp_state_as_raw QpsSqe = 5"
| "qp_state_as_raw QpsErr = 6"
| "qp_state_as_raw QpsUnknown = 7"

definition qp_state_from_raw :: "u32 \<Rightarrow> qp_state" where
  "qp_state_from_raw v =
     (if v = 0 then QpsReset else if v = 1 then QpsInit else if v = 2 then QpsRtr
      else if v = 3 then QpsRts else if v = 4 then QpsSqd else if v = 5 then QpsSqe
      else if v = 6 then QpsErr else QpsUnknown)"

lemma qp_type_roundtrip [simp]: "qp_type_from_raw (qp_type_as_raw t) = Some t"
  by (cases t) (simp_all add: qp_type_from_raw_def)

lemma qp_type_from_raw_Some: "qp_type_from_raw v = Some t \<Longrightarrow> qp_type_as_raw t = v"
  by (auto simp: qp_type_from_raw_def split: if_splits)

lemma qp_state_roundtrip [simp]: "qp_state_from_raw (qp_state_as_raw s) = s"
  by (cases s) (simp_all add: qp_state_from_raw_def)

subsection \<open>Work completions\<close>

datatype wc_status =
    WcSuccess | LocLenErr | LocQpOpErr | LocEecOpErr | LocProtErr | WrFlushErr | MwBindErr
  | BadRespErr | LocAccessErr | RemInvReqErr | RemAccessErr | RemOpErr | RetryExcErr
  | RnrRetryExcErr | LocRddViolErr | RemAbortErr | InvEecnErr | InvEecStateErr | FatalErr
  | RespTimeoutErr | GeneralErr | TmErr | TmRndvIncomplete | StatusUnknown u32

definition wc_status_table :: "(u32 \<times> wc_status) list" where
  "wc_status_table =
     [(0, WcSuccess), (1, LocLenErr), (2, LocQpOpErr), (3, LocEecOpErr), (4, LocProtErr),
      (5, WrFlushErr), (6, MwBindErr), (7, BadRespErr), (8, LocAccessErr), (9, RemInvReqErr),
      (10, RemAccessErr), (11, RemOpErr), (12, RetryExcErr), (13, RnrRetryExcErr),
      (14, LocRddViolErr), (16, RemAbortErr), (17, InvEecnErr), (18, InvEecStateErr),
      (19, FatalErr), (20, RespTimeoutErr), (21, GeneralErr), (22, TmErr),
      (23, TmRndvIncomplete)]"

definition wc_status_from_raw :: "u32 \<Rightarrow> wc_status" where
  "wc_status_from_raw v =
     (case map_of wc_status_table v of Some s \<Rightarrow> s | None \<Rightarrow> StatusUnknown v)"

datatype wc_opcode =
    WcSend | WcRdmaWrite | WcRdmaRead | WcCompSwap | WcFetchAdd | WcBindMw | WcLocalInv | WcTso
  | WcFlush | WcAtomicWrite | WcRecv | WcRecvRdmaWithImm | WcTmAdd | WcTmDel | WcTmSync
  | WcTmRecv | WcTmNoTag | OpcodeUnknown u32

definition wc_opcode_table :: "(u32 \<times> wc_opcode) list" where
  "wc_opcode_table =
     [(0, WcSend), (1, WcRdmaWrite), (2, WcRdmaRead), (3, WcCompSwap), (4, WcFetchAdd),
      (5, WcBindMw), (6, WcLocalInv), (7, WcTso), (8, WcFlush), (9, WcAtomicWrite),
      (128, WcRecv), (129, WcRecvRdmaWithImm), (130, WcTmAdd), (131, WcTmDel),
      (132, WcTmSync), (133, WcTmRecv), (134, WcTmNoTag)]"

definition wc_opcode_from_raw :: "u32 \<Rightarrow> wc_opcode" where
  "wc_opcode_from_raw v =
     (case map_of wc_opcode_table v of Some s \<Rightarrow> s | None \<Rightarrow> OpcodeUnknown v)"

text \<open>
  \<open>WorkCompletion\<close>: the fields of \<^verbatim>\<open>ibv_wc\<close> the accessors read.
\<close>

record wc =
  wr_id :: u64
  status_raw :: u32
  opcode_raw :: u32
  vendor_err :: u32
  byte_len :: u32
  wc_qp_num :: u32
  wc_flags :: u32
  imm_data :: u32

definition wc_default :: wc where
  "wc_default = \<lparr>wr_id = 0, status_raw = 0, opcode_raw = 0, vendor_err = 0, byte_len = 0,
     wc_qp_num = 0, wc_flags = 0, imm_data = 0\<rparr>"

definition is_success :: "wc \<Rightarrow> bool" where
  "is_success w \<longleftrightarrow> status_raw w = 0"

definition status_of :: "wc \<Rightarrow> wc_status" where
  "status_of w = wc_status_from_raw (status_raw w)"

definition opcode :: "wc \<Rightarrow> wc_opcode" where
  "opcode w = wc_opcode_from_raw (opcode_raw w)"

definition wc_with_imm :: "wc \<Rightarrow> bool" where
  \<comment> \<open>\<open>wc.wc_flags() & IBV_WC_WITH_IMM != 0\<close>\<close>
  "wc_with_imm w \<longleftrightarrow> wc_flags w AND 2 \<noteq> 0"

definition wc_error :: "wc \<Rightarrow> error" where
  "wc_error w = WorkCompletionErr (status_raw w) (vendor_err w)"

text \<open>The typed status agrees with \<open>is_success\<close> on every raw status.\<close>

lemma map_of_Some_WcSuccess: "map_of wc_status_table v = Some WcSuccess \<Longrightarrow> v = 0"
  by (auto simp: wc_status_table_def split: if_splits)

lemma is_success_status: "is_success w \<longleftrightarrow> status_of w = WcSuccess"
proof
  assume "is_success w"
  then show "status_of w = WcSuccess"
    by (simp add: is_success_def status_of_def wc_status_from_raw_def wc_status_table_def)
next
  assume "status_of w = WcSuccess"
  then show "is_success w"
    by (auto simp: is_success_def status_of_def wc_status_from_raw_def
        dest: map_of_Some_WcSuccess split: option.splits)
qed

lemma wc_opcode_from_raw_simps [simp]:
  "wc_opcode_from_raw 128 = WcRecv" "wc_opcode_from_raw 129 = WcRecvRdmaWithImm"
  by (simp_all add: wc_opcode_from_raw_def wc_opcode_table_def)

subsection \<open>Memory regions and work requests\<close>

text \<open>
  An \<open>OwnedMemoryRegion\<close> as the transports see it: the address and keys the device gave
  it and the bytes of the buffer it owns.
\<close>

record mr =
  mr_addr :: u64
  mr_lkey :: u32
  mr_rkey :: u32
  mr_bytes :: bytes

record sge =
  sge_addr :: u64
  sge_length :: u32
  sge_lkey :: u32

datatype wr_opcode =
    WrSend | WrSendWithImm u32 | WrRdmaWrite | WrRdmaWriteWithImm u32 | WrRdmaRead
  | WrAtomicCmpAndSwp | WrAtomicFetchAndAdd | WrBindMw | WrLocalInv

record send_wr =
  swr_id :: u64
  swr_opcode :: wr_opcode
  swr_signaled :: bool
  swr_inline :: bool
  swr_sges :: "sge list"
  swr_remote_addr :: u64
  swr_rkey :: u32
  swr_bind_rkey :: u32
  swr_bind_addr :: u64
  swr_bind_length :: u64
  swr_bind_access :: u32

record recv_wr =
  rwr_id :: u64
  rwr_sges :: "sge list"

text \<open>The builders of \<open>SendWr\<close> and \<open>RecvWr\<close>.\<close>

definition send_wr_new :: "u64 \<Rightarrow> wr_opcode \<Rightarrow> send_wr" where
  "send_wr_new i opc = \<lparr>swr_id = i, swr_opcode = opc, swr_signaled = False, swr_inline = False,
     swr_sges = [], swr_remote_addr = 0, swr_rkey = 0, swr_bind_rkey = 0, swr_bind_addr = 0,
     swr_bind_length = 0, swr_bind_access = 0\<rparr>"

definition wr_signaled :: "send_wr \<Rightarrow> send_wr" where
  "wr_signaled wr = wr\<lparr>swr_signaled := True\<rparr>"

definition wr_signaled_inline :: "send_wr \<Rightarrow> send_wr" where
  "wr_signaled_inline wr = wr\<lparr>swr_signaled := True, swr_inline := True\<rparr>"

definition wr_sg :: "sge \<Rightarrow> send_wr \<Rightarrow> send_wr" where
  "wr_sg s wr = wr\<lparr>swr_sges := swr_sges wr @ [s]\<rparr>"

definition wr_rdma :: "u64 \<Rightarrow> u32 \<Rightarrow> send_wr \<Rightarrow> send_wr" where
  "wr_rdma addr rkey wr = wr\<lparr>swr_remote_addr := addr, swr_rkey := rkey\<rparr>"

definition wr_bind_mw :: "u32 \<Rightarrow> u64 \<Rightarrow> u64 \<Rightarrow> u32 \<Rightarrow> send_wr \<Rightarrow> send_wr" where
  "wr_bind_mw rkey addr len access wr =
     wr\<lparr>swr_bind_rkey := rkey, swr_bind_addr := addr, swr_bind_length := len,
        swr_bind_access := access\<rparr>"

definition recv_wr_new :: "u64 \<Rightarrow> recv_wr" where
  "recv_wr_new i = \<lparr>rwr_id = i, rwr_sges = []\<rparr>"

definition recv_sg :: "sge \<Rightarrow> recv_wr \<Rightarrow> recv_wr" where
  "recv_sg s wr = wr\<lparr>rwr_sges := rwr_sges wr @ [s]\<rparr>"

lemmas wr_defs = send_wr_new_def wr_signaled_def wr_signaled_inline_def wr_sg_def wr_rdma_def
  wr_bind_mw_def recv_wr_new_def recv_sg_def

end
