(* ===== verification/Wire.thy ===== *)
theory Wire
  imports Prelude
begin

section \<open>Bytes on the wire\<close>

text \<open>
  Everything the program serialises: little-endian integers, the frames of the v2 message
  protocol (\<^verbatim>\<open>v2/protocol.rs\<close>), the setup tokens of the two ring transports
  (\<^verbatim>\<open>transport_common.rs\<close>, \<^verbatim>\<open>read_ring_transport.rs\<close>) and the 32-bit RDMA-Write
  immediate that carries a ring message's offset and length.
\<close>

subsection \<open>Little-endian integers\<close>

text \<open>\<open>to_le_bytes\<close> and \<open>from_le_bytes\<close>, on a width that is a multiple of 8.\<close>

fun le_bytes :: "nat \<Rightarrow> 'a::len word \<Rightarrow> bytes" where
  "le_bytes 0 w = []"
| "le_bytes (Suc n) w = ucast w # le_bytes n (drop_bit 8 w)"

fun from_le :: "bytes \<Rightarrow> 'a::len word" where
  "from_le [] = 0"
| "from_le (b # bs) = ucast b OR push_bit 8 (from_le bs)"

lemma length_le_bytes [simp]: "length (le_bytes n w) = n"
  by (induction n arbitrary: w) auto

lemma from_le_le_bytes: "from_le (le_bytes n w) = take_bit (8 * n) w"
proof (induction n arbitrary: w)
  case (Suc n)
  show ?case
    by (rule bit_word_eqI) (auto simp: Suc bit_simps)
qed simp

lemma nth_le_bytes: "i < n \<Longrightarrow> le_bytes n w ! i = ucast (drop_bit (8 * i) w)"
proof (induction n arbitrary: w i)
  case (Suc n)
  then show ?case by (cases i) (auto simp: drop_bit_drop_bit ac_simps)
qed simp

lemma le_bytes_take_bit: "8 * n \<le> m \<Longrightarrow> le_bytes n (take_bit m w) = le_bytes n w"
  by (rule nth_equalityI) (auto simp: nth_le_bytes bit_simps intro!: bit_word_eqI)

lemma le_bytes_from_le:
  "8 * length bs \<le> LENGTH('a::len) \<Longrightarrow> le_bytes (length bs) (from_le bs :: 'a word) = bs"
proof (induction bs)
  case (Cons b bs)
  then have len: "8 + 8 * length bs \<le> LENGTH('a)" by simp
  let ?w = "ucast b OR push_bit 8 (from_le bs :: 'a word)"
  have hd: "ucast ?w = b"
    using len by (intro bit_word_eqI) (auto simp: bit_simps)
  have tl: "drop_bit 8 ?w = take_bit (LENGTH('a) - 8) (from_le bs :: 'a word)"
    using len by (intro bit_word_eqI) (auto simp: bit_simps dest: bit_imp_le_length)
  have "le_bytes (length bs) (drop_bit 8 ?w) = bs"
    using Cons.IH len by (simp only: tl) (simp add: le_bytes_take_bit)
  with hd show ?case by simp
qed simp

lemma from_le_inj:
  assumes "length bs = length cs" "8 * length bs \<le> LENGTH('a::len)"
    and "(from_le bs :: 'a word) = from_le cs"
  shows "bs = cs"
proof -
  have "bs = le_bytes (length bs) (from_le bs :: 'a word)"
    using assms(2) by (simp only: le_bytes_from_le)
  also have "\<dots> = le_bytes (length cs) (from_le cs :: 'a word)"
    by (simp only: assms)
  also have "\<dots> = cs"
    by (rule le_bytes_from_le) (use assms in simp)
  finally show ?thesis .
qed

abbreviation le32 :: "u32 \<Rightarrow> bytes" where "le32 \<equiv> le_bytes 4"
abbreviation le64 :: "u64 \<Rightarrow> bytes" where "le64 \<equiv> le_bytes 8"

lemma from_le_le32 [simp]: "from_le (le32 w) = w"
  by (simp add: from_le_le_bytes take_bit_word_eq_self)

lemma from_le_le64 [simp]: "from_le (le64 w) = w"
  by (simp add: from_le_le_bytes take_bit_word_eq_self)

subsection \<open>The RDMA-Write immediate\<close>

definition encode_ring_imm :: "nat \<Rightarrow> nat \<Rightarrow> u32" where
  "encode_ring_imm offset len = push_bit 16 (word_of_nat offset) OR word_of_nat len"

definition decode_ring_imm :: "u32 \<Rightarrow> nat \<times> nat" where
  "decode_ring_imm imm = (unat (drop_bit 16 imm), unat (imm AND 0xFFFF))"

lemma take_bit_of_nat_small: "n < 2 ^ k \<Longrightarrow> take_bit k (word_of_nat n :: 'a::len word) = word_of_nat n"
  by (metis take_bit_nat_eq_self_iff take_bit_of_nat)

lemma decode_encode_ring_imm:
  assumes "offset < 2 ^ 16" "len < 2 ^ 16"
  shows "decode_ring_imm (encode_ring_imm offset len) = (offset, len)"
proof -
  let ?o = "word_of_nat offset :: u32" and ?l = "word_of_nat len :: u32"
  have o: "take_bit 16 ?o = ?o" and l: "take_bit 16 ?l = ?l"
    using assms by (simp_all add: take_bit_of_nat_small)
  have hi: "drop_bit 16 (push_bit 16 (take_bit 16 ?o) OR take_bit 16 ?l) = take_bit 16 ?o"
    by (rule bit_word_eqI) (auto simp: bit_simps)
  have lo: "take_bit 16 (push_bit 16 ?o OR ?l) = take_bit 16 ?l"
    by (rule bit_word_eqI) (auto simp: bit_simps)
  have m: "(0xFFFF :: u32) = mask 16" by (simp add: mask_eq_exp_minus_1)
  have "unat ?o = offset" "unat ?l = len"
    using assms by (simp_all add: unat_of_nat)
  then show ?thesis
    using hi lo by (simp add: encode_ring_imm_def decode_ring_imm_def o l m flip: take_bit_eq_mask)
qed

text \<open>Whatever the peer sends, the decoded fields are 16-bit values.\<close>

lemma decode_ring_imm_bounds:
  "fst (decode_ring_imm imm) < 2 ^ 16" "snd (decode_ring_imm imm) < 2 ^ 16"
proof -
  have m: "(0xFFFF :: u32) = mask 16" by (simp add: mask_eq_exp_minus_1)
  have "unat (imm AND mask 16) = take_bit 16 (unat imm)"
    by (simp only: unsigned_take_bit_eq flip: take_bit_eq_mask)
  also have "\<dots> < 2 ^ 16" by (rule take_bit_nat_less_exp)
  finally show "snd (decode_ring_imm imm) < 2 ^ 16"
    by (simp only: decode_ring_imm_def m snd_conv)
  have "unat (drop_bit 16 imm) = unat imm div 2 ^ 16"
    by (simp only: unat_drop_bit_eq) (simp only: drop_bit_eq_div)
  also have "\<dots> < 2 ^ 16"
    using unsigned_less [of imm, where 'a = nat] by (simp add: less_mult_imp_div_less)
  finally show "fst (decode_ring_imm imm) < 2 ^ 16"
    by (simp add: decode_ring_imm_def)
qed

subsection \<open>Frames of the v2 message protocol\<close>

definition PROTO_MAGIC :: u32 where "PROTO_MAGIC = 0x52444D41"
definition PROTO_VERSION :: u8 where "PROTO_VERSION = 1"
definition HEADER_SIZE :: nat where "HEADER_SIZE = 12"
definition FRAME_DATA :: u8 where "FRAME_DATA = 0"
definition FRAME_CREDIT :: u8 where "FRAME_CREDIT = 1"
definition FRAME_HELLO :: u8 where "FRAME_HELLO = 2"
definition CREDIT_PAYLOAD_SIZE :: nat where "CREDIT_PAYLOAD_SIZE = 4"
definition HELLO_PAYLOAD_SIZE :: nat where "HELLO_PAYLOAD_SIZE = 12"
definition CREDIT_FRAME_SIZE :: nat where "CREDIT_FRAME_SIZE = HEADER_SIZE + CREDIT_PAYLOAD_SIZE"
definition HELLO_FRAME_SIZE :: nat where "HELLO_FRAME_SIZE = HEADER_SIZE + HELLO_PAYLOAD_SIZE"

lemmas proto_consts = PROTO_MAGIC_def PROTO_VERSION_def HEADER_SIZE_def FRAME_DATA_def
  FRAME_CREDIT_def FRAME_HELLO_def CREDIT_PAYLOAD_SIZE_def HELLO_PAYLOAD_SIZE_def
  CREDIT_FRAME_SIZE_def HELLO_FRAME_SIZE_def

record frame_header =
  frame_type :: u8
  payload_len :: u32

record hello_payload =
  data_recv_capacity :: u32
  max_message_size :: u32

record credit_payload =
  credits :: u32

text \<open>The message of \<open>Error::ProtocolViolation\<close>, one constructor per \<open>format!\<close>.\<close>

datatype violation =
    FrameTooShort nat
  | BadMagic u32
  | UnsupportedVersion u8
  | UnknownFrameType u8
  | FrameLengthOverflow
  | PayloadPastReceived nat nat
  | TrailingBytes nat nat
  | HelloSizeMismatch nat
  | HelloVersionMismatch u32
  | CreditSizeMismatch nat

text \<open>
  The writers mutate the caller's buffer: they return it, or \<open>Panic\<close> when the
  \<open>assert!\<close> on its length fails.
\<close>

definition write_header :: "bytes \<Rightarrow> u8 \<Rightarrow> u32 \<Rightarrow> (violation, bytes) outcome" where
  "write_header buf ft plen =
     (if length buf < HEADER_SIZE then Panic
      else
        let buf = upd_range buf 0 (le32 PROTO_MAGIC);
            buf = buf[4 := PROTO_VERSION];
            buf = buf[5 := ft];
            buf = upd_range buf 6 [0, 0];
            buf = upd_range buf 8 (le32 plen)
        in Ok buf)"

definition write_data_frame :: "bytes \<Rightarrow> bytes \<Rightarrow> (violation, nat \<times> bytes) outcome" where
  "write_data_frame buf data =
     (let total = HEADER_SIZE + length data in
      if length buf < total then Panic
      else case write_header buf FRAME_DATA (word_of_nat (length data)) of
        Ok buf \<Rightarrow> Ok (total, upd_range buf HEADER_SIZE data)
      | Err e \<Rightarrow> Err e
      | Panic \<Rightarrow> Panic)"

definition write_credit_frame :: "bytes \<Rightarrow> u32 \<Rightarrow> (violation, nat \<times> bytes) outcome" where
  "write_credit_frame buf c =
     (if length buf < CREDIT_FRAME_SIZE then Panic
      else case write_header buf FRAME_CREDIT (word_of_nat CREDIT_PAYLOAD_SIZE) of
        Ok buf \<Rightarrow> Ok (CREDIT_FRAME_SIZE, upd_range buf HEADER_SIZE (le32 c))
      | Err e \<Rightarrow> Err e
      | Panic \<Rightarrow> Panic)"

definition write_hello_frame ::
    "bytes \<Rightarrow> u32 \<Rightarrow> u32 \<Rightarrow> (violation, nat \<times> bytes) outcome" where
  "write_hello_frame buf cap mms =
     (if length buf < HELLO_FRAME_SIZE then Panic
      else case write_header buf FRAME_HELLO (word_of_nat HELLO_PAYLOAD_SIZE) of
        Ok buf \<Rightarrow>
          (let p = HEADER_SIZE;
               buf = upd_range buf p (le32 cap);
               buf = upd_range buf (p + 4) (le32 mms);
               buf = upd_range buf (p + 8) (le32 (ucast PROTO_VERSION))
           in Ok (HELLO_FRAME_SIZE, buf))
      | Err e \<Rightarrow> Err e
      | Panic \<Rightarrow> Panic)"

text \<open>
  \<open>parse_header\<close>. The first test is the \<open>debug_assert!\<close>; the reads that follow are in
  range because of it and of the test on \<open>received_len\<close>. \<open>usize\<close> has 64 bits.
\<close>

definition parse_header :: "bytes \<Rightarrow> nat \<Rightarrow> (violation, frame_header) outcome" where
  "parse_header buf received_len =
     (if length buf < received_len then Panic
      else if received_len < HEADER_SIZE then Err (FrameTooShort received_len)
      else
        let magic = from_le [buf ! 0, buf ! 1, buf ! 2, buf ! 3] in
        if magic \<noteq> PROTO_MAGIC then Err (BadMagic magic)
        else if buf ! 4 \<noteq> PROTO_VERSION then Err (UnsupportedVersion (buf ! 4))
        else if buf ! 5 > FRAME_HELLO then Err (UnknownFrameType (buf ! 5))
        else
          let plen = from_le [buf ! 8, buf ! 9, buf ! 10, buf ! 11] :: u32;
              total = HEADER_SIZE + unat plen
          in if total \<ge> 2 ^ 64 then Err FrameLengthOverflow
             else if total > received_len then Err (PayloadPastReceived total received_len)
             else if total < received_len then Err (TrailingBytes total received_len)
             else Ok \<lparr>frame_type = buf ! 5, payload_len = plen\<rparr>)"

definition parse_hello :: "bytes \<Rightarrow> (violation, hello_payload) outcome" where
  "parse_hello payload =
     (if length payload \<noteq> HELLO_PAYLOAD_SIZE then Err (HelloSizeMismatch (length payload))
      else
        let cap = from_le [payload ! 0, payload ! 1, payload ! 2, payload ! 3];
            mms = from_le [payload ! 4, payload ! 5, payload ! 6, payload ! 7];
            ver = from_le [payload ! 8, payload ! 9, payload ! 10, payload ! 11] :: u32
        in if ver \<noteq> ucast PROTO_VERSION then Err (HelloVersionMismatch ver)
           else Ok \<lparr>data_recv_capacity = cap, max_message_size = mms\<rparr>)"

definition parse_credit :: "bytes \<Rightarrow> (violation, credit_payload) outcome" where
  "parse_credit payload =
     (if length payload \<noteq> CREDIT_PAYLOAD_SIZE then Err (CreditSizeMismatch (length payload))
      else Ok \<lparr>credits = from_le [payload ! 0, payload ! 1, payload ! 2, payload ! 3]\<rparr>)"

subsubsection \<open>What the writers produce\<close>

text \<open>The 12 bytes of a header.\<close>

definition header_bytes :: "u8 \<Rightarrow> u32 \<Rightarrow> bytes" where
  "header_bytes ft plen = le32 PROTO_MAGIC @ [PROTO_VERSION, ft, 0, 0] @ le32 plen"

lemma length_header_bytes [simp]: "length (header_bytes ft plen) = 12"
  by (simp add: header_bytes_def)

lemma length4_explode: "length bs = 4 \<Longrightarrow> [bs ! 0, bs ! 1, bs ! 2, bs ! 3] = bs"
  by (rule nth_equalityI) (auto simp: less_Suc_eq numeral_eq_Suc)

lemma le32_explode:
  obtains a b c d where "le32 w = [a, b, c, d]"
proof -
  have "length (le32 w) = 4" by simp
  from length4_explode [OF this] that show ?thesis by metis
qed

lemma write_header_Ok:
  assumes "HEADER_SIZE \<le> length buf"
  shows "write_header buf ft plen = Ok (header_bytes ft plen @ drop HEADER_SIZE buf)"
proof -
  obtain m0 m1 m2 m3 where m: "le32 PROTO_MAGIC = [m0, m1, m2, m3]" by (rule le32_explode)
  obtain p0 p1 p2 p3 where p: "le32 plen = [p0, p1, p2, p3]" by (rule le32_explode)
  from assms have "12 \<le> length buf" by (simp add: HEADER_SIZE_def)
  then obtain b0 b1 b2 b3 b4 b5 b6 b7 b8 b9 b10 b11 rest where
    "buf = b0 # b1 # b2 # b3 # b4 # b5 # b6 # b7 # b8 # b9 # b10 # b11 # rest"
    by (auto simp: numeral_eq_Suc Suc_le_length_iff)
  then show ?thesis
    by (simp add: write_header_def m p header_bytes_def upd_range_def HEADER_SIZE_def Let_def
        numeral_eq_Suc)
qed

lemma write_data_frame_Ok:
  assumes "HEADER_SIZE + length data \<le> length buf"
  shows "write_data_frame buf data =
     Ok (HEADER_SIZE + length data,
         header_bytes FRAME_DATA (word_of_nat (length data)) @ data
           @ drop (HEADER_SIZE + length data) buf)"
  using assms
  by (simp add: write_data_frame_def write_header_Ok upd_range_def Let_def HEADER_SIZE_def ac_simps)

lemma write_credit_frame_Ok:
  assumes "CREDIT_FRAME_SIZE \<le> length buf"
  shows "write_credit_frame buf c =
     Ok (CREDIT_FRAME_SIZE,
         header_bytes FRAME_CREDIT 4 @ le32 c @ drop CREDIT_FRAME_SIZE buf)"
  using assms
  by (simp add: write_credit_frame_def write_header_Ok upd_range_def HEADER_SIZE_def
      CREDIT_FRAME_SIZE_def CREDIT_PAYLOAD_SIZE_def)

lemma write_hello_frame_Ok:
  assumes "HELLO_FRAME_SIZE \<le> length buf"
  shows "write_hello_frame buf cap mms =
     Ok (HELLO_FRAME_SIZE,
         header_bytes FRAME_HELLO 12 @ le32 cap @ le32 mms @ le32 (ucast PROTO_VERSION)
           @ drop HELLO_FRAME_SIZE buf)"
  using assms
  by (simp add: write_hello_frame_def write_header_Ok upd_range_def HEADER_SIZE_def
      HELLO_FRAME_SIZE_def HELLO_PAYLOAD_SIZE_def Let_def)

subsubsection \<open>What the parser accepts\<close>

lemma nth_header_bytes:
  "header_bytes ft plen ! 4 = PROTO_VERSION" "header_bytes ft plen ! 5 = ft"
  by (simp_all add: header_bytes_def nth_append)

lemma header_bytes_magic:
  "[header_bytes ft plen ! 0, header_bytes ft plen ! 1,
    header_bytes ft plen ! 2, header_bytes ft plen ! 3] = le32 PROTO_MAGIC"
  using length4_explode [of "le32 PROTO_MAGIC"] by (simp add: header_bytes_def nth_append)

lemma header_bytes_plen:
  "[header_bytes ft plen ! 8, header_bytes ft plen ! 9,
    header_bytes ft plen ! 10, header_bytes ft plen ! 11] = le32 plen"
  using length4_explode [of "le32 plen"] by (simp add: header_bytes_def nth_append)

lemma u32_total_fits: "HEADER_SIZE + unat (w :: u32) < 2 ^ 64"
proof -
  have "unat w < 2 ^ 32" using unsigned_less [of w] by simp
  then show ?thesis by (simp add: HEADER_SIZE_def)
qed

lemma parse_header_bytes:
  assumes "ft \<le> FRAME_HELLO" "n = HEADER_SIZE + unat plen" "n \<le> length bs + HEADER_SIZE"
  shows "parse_header (header_bytes ft plen @ bs) n = Ok \<lparr>frame_type = ft, payload_len = plen\<rparr>"
  using assms u32_total_fits [of plen]
  by (simp add: parse_header_def header_bytes_magic header_bytes_plen nth_header_bytes
      nth_append HEADER_SIZE_def Let_def del: from_le.simps nth_Cons_0 One_nat_def)

text \<open>
  Whatever bytes the peer sent, the parser does not panic on what the device reported, and
  what it accepts has the magic, the version, a known type and exactly the announced length.
\<close>

lemma parse_header_no_panic: "n \<le> length buf \<Longrightarrow> parse_header buf n \<noteq> Panic"
  by (simp add: parse_header_def Let_def)

lemma parse_header_OkD:
  assumes "parse_header buf n = Ok h"
  shows "n \<le> length buf" "n = HEADER_SIZE + unat (payload_len h)" "frame_type h \<le> FRAME_HELLO"
    "take 4 buf = le32 PROTO_MAGIC" "buf ! 4 = PROTO_VERSION" "buf ! 5 = frame_type h"
    "slice buf 8 12 = le32 (payload_len h)"
proof -
  from assms have n: "n \<le> length buf" "HEADER_SIZE \<le> n"
    and magic: "(from_le [buf ! 0, buf ! 1, buf ! 2, buf ! 3] :: u32) = PROTO_MAGIC"
    and rest: "buf ! 4 = PROTO_VERSION" "buf ! 5 = frame_type h" "frame_type h \<le> FRAME_HELLO"
    and plen: "payload_len h = from_le [buf ! 8, buf ! 9, buf ! 10, buf ! 11]"
    and total: "n = HEADER_SIZE + unat (payload_len h)"
    by (auto simp: parse_header_def Let_def not_less split: if_splits)
  from n have len: "12 \<le> length buf" by (simp add: HEADER_SIZE_def)
  show "n \<le> length buf" "n = HEADER_SIZE + unat (payload_len h)" "frame_type h \<le> FRAME_HELLO"
    "buf ! 4 = PROTO_VERSION" "buf ! 5 = frame_type h"
    using n total rest by simp_all
  have t: "take 4 buf = [buf ! 0, buf ! 1, buf ! 2, buf ! 3]"
    using len length4_explode [of "take 4 buf"] by simp
  have "take 4 buf = le32 (from_le (take 4 buf))"
    using le_bytes_from_le [of "take 4 buf", where 'a = 32] len
    by (simp del: from_le.simps le_bytes.simps)
  then show "take 4 buf = le32 PROTO_MAGIC" by (simp only: t magic)
  have p: "slice buf 8 12 = [buf ! 8, buf ! 9, buf ! 10, buf ! 11]"
    using len length4_explode [of "slice buf 8 12"] by (simp add: slice_def)
  have "slice buf 8 12 = le32 (from_le (slice buf 8 12))"
    using le_bytes_from_le [of "slice buf 8 12", where 'a = 32] len
    by (simp del: from_le.simps le_bytes.simps)
  then show "slice buf 8 12 = le32 (payload_len h)" by (simp only: p plen)
qed

subsection \<open>The setup tokens of the ring transports\<close>

definition RING_TOKEN_VERSION :: u8 where "RING_TOKEN_VERSION = 1"
definition RING_TOKEN_SIZE :: nat where "RING_TOKEN_SIZE = 20"
definition READ_RING_TOKEN_VERSION :: u8 where "READ_RING_TOKEN_VERSION = 2"
definition READ_RING_TOKEN_SIZE :: nat where "READ_RING_TOKEN_SIZE = 32"

record ring_token =
  tok_version :: u8
  tok_reserved :: bytes
  tok_ring_va :: u64
  tok_mw_rkey :: u32
  tok_capacity :: u32

definition token_to_bytes :: "ring_token \<Rightarrow> bytes" where
  "token_to_bytes t =
     (let buf = replicate RING_TOKEN_SIZE 0;
          buf = buf[0 := tok_version t];
          buf = upd_range buf 4 (le64 (tok_ring_va t));
          buf = upd_range buf 12 (le32 (tok_mw_rkey t));
          buf = upd_range buf 16 (le32 (tok_capacity t))
      in buf)"

definition token_from_bytes :: "bytes \<Rightarrow> ring_token" where
  "token_from_bytes buf =
     \<lparr>tok_version = buf ! 0,
      tok_reserved = [buf ! 1, buf ! 2, buf ! 3],
      tok_ring_va = from_le (slice buf 4 12),
      tok_mw_rkey = from_le (slice buf 12 16),
      tok_capacity = from_le (slice buf 16 20)\<rparr>"

record read_ring_token =
  rtok_version :: u8
  rtok_reserved :: bytes
  rtok_ring_va :: u64
  rtok_ring_capacity :: u32
  rtok_ring_rkey :: u32
  rtok_offset_va :: u64
  rtok_offset_rkey :: u32

definition read_token_to_bytes :: "read_ring_token \<Rightarrow> bytes" where
  "read_token_to_bytes t =
     (let buf = replicate READ_RING_TOKEN_SIZE 0;
          buf = buf[0 := rtok_version t];
          buf = upd_range buf 4 (le64 (rtok_ring_va t));
          buf = upd_range buf 12 (le32 (rtok_ring_capacity t));
          buf = upd_range buf 16 (le32 (rtok_ring_rkey t));
          buf = upd_range buf 20 (le64 (rtok_offset_va t));
          buf = upd_range buf 28 (le32 (rtok_offset_rkey t))
      in buf)"

definition read_token_from_bytes :: "bytes \<Rightarrow> read_ring_token" where
  "read_token_from_bytes buf =
     \<lparr>rtok_version = buf ! 0,
      rtok_reserved = [buf ! 1, buf ! 2, buf ! 3],
      rtok_ring_va = from_le (slice buf 4 12),
      rtok_ring_capacity = from_le (slice buf 12 16),
      rtok_ring_rkey = from_le (slice buf 16 20),
      rtok_offset_va = from_le (slice buf 20 28),
      rtok_offset_rkey = from_le (slice buf 28 32)\<rparr>"

text \<open>
  What the setup code relies on: a fixed-size encoding that decodes to what was encoded, for
  the tokens it builds (\<open>tok_ok\<close>). The client is the token exchange, where the bytes of the
  peer's inline Send land at the start of a receive buffer of exactly that size.
\<close>

locale token_codec =
  fixes size :: nat
    and enc :: "'t \<Rightarrow> bytes"
    and dec :: "bytes \<Rightarrow> 't"
    and tok_ok :: "'t \<Rightarrow> bool"
  assumes enc_length: "length (enc t) = size"
    and dec_enc: "tok_ok t \<Longrightarrow> dec (enc t) = t"
begin

lemma landed_token:
  assumes "length buf = size" "tok_ok t"
  shows "dec (upd_range buf 0 (enc t)) = t"
  using assms by (simp add: upd_range_def enc_length dec_enc)

lemma enc_injective: "tok_ok t \<Longrightarrow> tok_ok u \<Longrightarrow> enc t = enc u \<Longrightarrow> t = u"
  by (metis dec_enc)

end

lemma slice_append: "slice (xs @ ys) a b =
   (if b \<le> length xs then slice xs a b
    else slice xs a (length xs) @ slice ys (a - length xs) (b - length xs))"
  by (cases "a \<le> length xs") (auto simp: slice_def)

lemma slice_all [simp]: "length xs = n \<Longrightarrow> slice xs 0 n = xs"
  by (simp add: slice_def)

lemma slice_empty [simp]: "b \<le> a \<Longrightarrow> slice xs a b = []"
  by (simp add: slice_def)

lemma token_to_bytes_eq:
  "token_to_bytes t =
     [tok_version t, 0, 0, 0] @ le64 (tok_ring_va t) @ le32 (tok_mw_rkey t) @ le32 (tok_capacity t)"
proof -
  have "(replicate RING_TOKEN_SIZE 0)[0 := v] = [v, 0, 0, 0 :: u8] @ replicate 16 0" for v
    by (simp add: RING_TOKEN_SIZE_def numeral_eq_Suc)
  then show ?thesis
    by (simp only: token_to_bytes_def Let_def) (simp add: upd_range_def del: le_bytes.simps)
qed

lemma read_token_to_bytes_eq:
  "read_token_to_bytes t =
     [rtok_version t, 0, 0, 0] @ le64 (rtok_ring_va t) @ le32 (rtok_ring_capacity t)
       @ le32 (rtok_ring_rkey t) @ le64 (rtok_offset_va t) @ le32 (rtok_offset_rkey t)"
proof -
  have "(replicate READ_RING_TOKEN_SIZE 0)[0 := v] = [v, 0, 0, 0 :: u8] @ replicate 28 0" for v
    by (simp add: READ_RING_TOKEN_SIZE_def numeral_eq_Suc)
  then show ?thesis
    by (simp only: read_token_to_bytes_def Let_def) (simp add: upd_range_def del: le_bytes.simps)
qed

interpretation ring_codec: token_codec RING_TOKEN_SIZE token_to_bytes token_from_bytes
  "\<lambda>t. tok_reserved t = [0, 0, 0]"
proof unfold_locales
  fix t :: ring_token
  show "length (token_to_bytes t) = RING_TOKEN_SIZE"
    by (simp add: token_to_bytes_eq RING_TOKEN_SIZE_def)
  assume "tok_reserved t = [0, 0, 0]"
  then show "token_from_bytes (token_to_bytes t) = t"
    by (simp add: token_from_bytes_def token_to_bytes_eq slice_append nth_append
        del: append_Cons le_bytes.simps from_le.simps)
qed

interpretation read_ring_codec: token_codec READ_RING_TOKEN_SIZE read_token_to_bytes
  read_token_from_bytes "\<lambda>t. rtok_reserved t = [0, 0, 0]"
proof unfold_locales
  fix t :: read_ring_token
  show "length (read_token_to_bytes t) = READ_RING_TOKEN_SIZE"
    by (simp add: read_token_to_bytes_eq READ_RING_TOKEN_SIZE_def)
  assume "rtok_reserved t = [0, 0, 0]"
  then show "read_token_from_bytes (read_token_to_bytes t) = t"
    by (simp add: read_token_from_bytes_def read_token_to_bytes_eq slice_append nth_append
        del: append_Cons le_bytes.simps from_le.simps)
qed

subsection \<open>Properties\<close>

lemma parse_credit_le32: "parse_credit (le32 c) = Ok \<lparr>credits = c\<rparr>"
  using length4_explode [of "le32 c"]
  by (simp add: parse_credit_def CREDIT_PAYLOAD_SIZE_def del: from_le.simps le_bytes.simps)

lemma parse_hello_le32:
  "parse_hello (le32 cap @ le32 mms @ le32 (ucast PROTO_VERSION)) =
     Ok \<lparr>data_recv_capacity = cap, max_message_size = mms\<rparr>"
  using length4_explode [of "le32 cap"] length4_explode [of "le32 mms"]
    length4_explode [of "le32 (ucast PROTO_VERSION)"]
  by (simp add: parse_hello_def HELLO_PAYLOAD_SIZE_def nth_append
      del: from_le.simps le_bytes.simps)

text \<open>C28: round trip of the three frames. In a buffer that is large enough the writers
  succeed, and what they wrote parses back: the header reads as the type written with the
  payload's length, and the payload that follows it is the data, the credit count or the
  capabilities written. A data frame is limited to a payload length that fits the 32-bit
  length field.\<close>

theorem frame_roundtrip:
  assumes "HEADER_SIZE + length data \<le> length buf" "length data < 2 ^ 32"
    and "HELLO_FRAME_SIZE \<le> length ctrl"
  shows "(\<exists>buf'. write_data_frame buf data = Ok (HEADER_SIZE + length data, buf') \<and>
            length buf' = length buf \<and>
            parse_header buf' (HEADER_SIZE + length data) =
              Ok \<lparr>frame_type = FRAME_DATA, payload_len = word_of_nat (length data)\<rparr> \<and>
            unat (word_of_nat (length data) :: u32) = length data \<and>
            slice buf' HEADER_SIZE (HEADER_SIZE + length data) = data) \<and>
         (\<exists>ctrl'. write_credit_frame ctrl c = Ok (CREDIT_FRAME_SIZE, ctrl') \<and>
            parse_header ctrl' CREDIT_FRAME_SIZE = Ok \<lparr>frame_type = FRAME_CREDIT, payload_len = 4\<rparr> \<and>
            parse_credit (slice ctrl' HEADER_SIZE CREDIT_FRAME_SIZE) = Ok \<lparr>credits = c\<rparr>) \<and>
         (\<exists>ctrl'. write_hello_frame ctrl cap mms = Ok (HELLO_FRAME_SIZE, ctrl') \<and>
            parse_header ctrl' HELLO_FRAME_SIZE = Ok \<lparr>frame_type = FRAME_HELLO, payload_len = 12\<rparr> \<and>
            parse_hello (slice ctrl' HEADER_SIZE HELLO_FRAME_SIZE) =
              Ok \<lparr>data_recv_capacity = cap, max_message_size = mms\<rparr>)"
proof (intro conjI)
  have n: "unat (word_of_nat (length data) :: u32) = length data"
    using assms(2) by (simp add: unat_of_nat)
  have "parse_header (header_bytes FRAME_DATA (word_of_nat (length data)) @ data @ drop (HEADER_SIZE + length data) buf)
      (HEADER_SIZE + length data) = Ok \<lparr>frame_type = FRAME_DATA, payload_len = word_of_nat (length data)\<rparr>"
    by (rule parse_header_bytes) (simp_all add: n FRAME_DATA_def FRAME_HELLO_def)
  then show "\<exists>buf'. write_data_frame buf data = Ok (HEADER_SIZE + length data, buf') \<and>
      length buf' = length buf \<and>
      parse_header buf' (HEADER_SIZE + length data) =
        Ok \<lparr>frame_type = FRAME_DATA, payload_len = word_of_nat (length data)\<rparr> \<and>
      unat (word_of_nat (length data) :: u32) = length data \<and>
      slice buf' HEADER_SIZE (HEADER_SIZE + length data) = data"
    using assms(1) n by (simp add: write_data_frame_Ok slice_def HEADER_SIZE_def)
next
  have "parse_header (header_bytes FRAME_CREDIT 4 @ le32 c @ drop CREDIT_FRAME_SIZE ctrl) CREDIT_FRAME_SIZE =
      Ok \<lparr>frame_type = FRAME_CREDIT, payload_len = 4\<rparr>"
    by (rule parse_header_bytes) (simp_all add: proto_consts)
  then show "\<exists>ctrl'. write_credit_frame ctrl c = Ok (CREDIT_FRAME_SIZE, ctrl') \<and>
      parse_header ctrl' CREDIT_FRAME_SIZE = Ok \<lparr>frame_type = FRAME_CREDIT, payload_len = 4\<rparr> \<and>
      parse_credit (slice ctrl' HEADER_SIZE CREDIT_FRAME_SIZE) = Ok \<lparr>credits = c\<rparr>"
    using assms(3) parse_credit_le32 [of c] write_credit_frame_Ok [of ctrl c]
    by (simp add: slice_def proto_consts del: le_bytes.simps)
next
  have "parse_header (header_bytes FRAME_HELLO 12 @ le32 cap @ le32 mms @ le32 (ucast PROTO_VERSION)
      @ drop HELLO_FRAME_SIZE ctrl) HELLO_FRAME_SIZE = Ok \<lparr>frame_type = FRAME_HELLO, payload_len = 12\<rparr>"
    by (rule parse_header_bytes) (simp_all add: proto_consts)
  then show "\<exists>ctrl'. write_hello_frame ctrl cap mms = Ok (HELLO_FRAME_SIZE, ctrl') \<and>
      parse_header ctrl' HELLO_FRAME_SIZE = Ok \<lparr>frame_type = FRAME_HELLO, payload_len = 12\<rparr> \<and>
      parse_hello (slice ctrl' HEADER_SIZE HELLO_FRAME_SIZE) =
        Ok \<lparr>data_recv_capacity = cap, max_message_size = mms\<rparr>"
    using assms(3) parse_hello_le32 [of cap mms] write_hello_frame_Ok [of ctrl cap mms]
    by (simp add: slice_def HEADER_SIZE_def HELLO_FRAME_SIZE_def HELLO_PAYLOAD_SIZE_def del: le_bytes.simps)
qed

theorem frame_roundtrip_witness:
  "\<exists>buf'. write_data_frame (replicate 15 0) [7, 8, 9] = Ok (15, buf') \<and>
     parse_header buf' 15 = Ok \<lparr>frame_type = FRAME_DATA, payload_len = 3\<rparr> \<and>
     slice buf' 12 15 = [7, 8, 9]"
  using frame_roundtrip [of "[7, 8, 9]" "replicate 15 0" "replicate 24 0" 5 16 1024]
  by (auto simp: HEADER_SIZE_def HELLO_FRAME_SIZE_def HELLO_PAYLOAD_SIZE_def)

text \<open>C29: what the header parser accepts, exactly. Whatever bytes a peer sent, on a buffer
  that holds what the device reported \<open>parse_header\<close> does not panic; it accepts if and only
  if the received bytes are the magic, the version, a known type, two bytes it does not look
  at and a length field that announces exactly the bytes that follow.\<close>

theorem parse_header_exact:
  assumes "n \<le> length buf"
  shows "parse_header buf n \<noteq> Panic \<and>
    (parse_header buf n = Ok h \<longleftrightarrow>
      frame_type h \<le> FRAME_HELLO \<and> n = HEADER_SIZE + unat (payload_len h) \<and>
      (\<exists>r r'. take HEADER_SIZE buf =
         le32 PROTO_MAGIC @ [PROTO_VERSION, frame_type h, r, r'] @ le32 (payload_len h)))"
    (is "_ \<and> (?L \<longleftrightarrow> ?R)")
proof (rule conjI)
  show "parse_header buf n \<noteq> Panic" using assms by (rule parse_header_no_panic)
  show "?L \<longleftrightarrow> ?R"
  proof
    assume ?L
    note D = parse_header_OkD [OF this]
    have len: "12 \<le> length buf" using D(1,2) by (simp add: HEADER_SIZE_def)
    have "take 12 buf = take 4 buf @ [buf ! 4, buf ! 5, buf ! 6, buf ! 7] @ slice buf 8 12"
      using len by (intro nth_equalityI)
        (auto simp: nth_append slice_def less_Suc_eq numeral_eq_Suc)
    then show ?R using D by (auto simp: HEADER_SIZE_def)
  next
    assume ?R
    then obtain r r' where h: "frame_type h \<le> FRAME_HELLO" "n = HEADER_SIZE + unat (payload_len h)"
      and t: "take 12 buf = le32 PROTO_MAGIC @ [PROTO_VERSION, frame_type h, r, r'] @ le32 (payload_len h)"
      by (auto simp: HEADER_SIZE_def)
    let ?b = "le32 PROTO_MAGIC @ [PROTO_VERSION, frame_type h, r, r'] @ le32 (payload_len h)"
    have nth: "buf ! i = ?b ! i" if "i < 12" for i
      using t that by (metis nth_take)
    have "[buf ! 0, buf ! 1, buf ! 2, buf ! 3] = le32 PROTO_MAGIC" "buf ! 4 = PROTO_VERSION"
      "buf ! 5 = frame_type h" "[buf ! 8, buf ! 9, buf ! 10, buf ! 11] = le32 (payload_len h)"
      using length4_explode [of "le32 PROTO_MAGIC"] length4_explode [of "le32 (payload_len h)"]
      by (simp_all add: nth nth_append del: le_bytes.simps)
    then show ?L
      using assms h u32_total_fits [of "payload_len h"]
      by (simp add: parse_header_def Let_def del: from_le.simps)
  qed
qed

theorem parse_header_exact_witness:
  "parse_header (header_bytes FRAME_CREDIT 4 @ [1, 0, 0, 0]) 16 =
     Ok \<lparr>frame_type = FRAME_CREDIT, payload_len = 4\<rparr>"
  using parse_header_exact [of 16 "header_bytes FRAME_CREDIT 4 @ [1, 0, 0, 0]"
      "\<lparr>frame_type = FRAME_CREDIT, payload_len = 4\<rparr>"]
  by (simp add: header_bytes_def proto_consts del: le_bytes.simps)

end
