(* ===== verification/ConnSlot.thy ===== *)
theory ConnSlot
  imports Verbs
begin

section \<open>The per-connection handoff slot\<close>

text \<open>
  \<^verbatim>\<open>conn_slot.rs\<close>: the single-producer single-consumer \<open>Inbox\<close>, the two directions
  of a \<open>ConnSlot\<close>, its work-request accounting and its life cycle. The inbox counters
  are 64-bit words because the source lets them wrap. The \<open>AtomicWaker\<close> belongs to another
  crate: a direction keeps the list of the calls made on it, and nothing is assumed about
  what those calls do. The owner-worker \<open>debug_assert\<close> is a threading check of the caller
  and has no counterpart here.

  The lemmas show that the inbox is a bounded first-in first-out queue, that a run of pushes
  and drains loses and repeats nothing, and that a parked consumer with a non-empty inbox
  always has a wake-up under way.
\<close>

subsection \<open>Inbox\<close>

record inbox =
  cells :: "wc list"
  ib_capacity :: nat
  ib_head :: u64
  ib_tail :: u64

definition inbox_with_capacity :: "nat \<Rightarrow> inbox res" where
  "inbox_with_capacity cap =
     (if cap = 0 then Panic
      else Ok \<lparr>cells = replicate cap wc_default, ib_capacity = cap, ib_head = 0, ib_tail = 0\<rparr>)"

definition inbox_push :: "wc \<Rightarrow> inbox \<Rightarrow> (wc, unit) outcome \<times> inbox" where
  "inbox_push w q =
     (let tail = ib_tail q; head = ib_head q in
      if unat (tail - head) \<ge> ib_capacity q then (Err w, q)
      else
        let idx = unat tail mod ib_capacity q
        in (Ok (), q\<lparr>cells := (cells q)[idx := w], ib_tail := tail + 1\<rparr>))"

text \<open>
  \<open>drain\<close> writes the first \<open>n\<close> entries of \<open>out\<close> and returns \<open>n\<close>: the model
  returns those entries, \<open>room\<close> is \<open>out.len()\<close>.
\<close>

definition inbox_drain :: "nat \<Rightarrow> inbox \<Rightarrow> wc list \<times> inbox" where
  "inbox_drain room q =
     (if room = 0 then ([], q)
      else
        let head = ib_head q; tail = ib_tail q;
            available = unat (tail - head);
            n = min available room;
            out = map (\<lambda>i. cells q ! (unat (head + word_of_nat i) mod ib_capacity q)) [0..<n]
        in (out, if n > 0 then q\<lparr>ib_head := head + word_of_nat n\<rparr> else q))"

definition inbox_len :: "inbox \<Rightarrow> nat" where
  "inbox_len q = unat (ib_tail q - ib_head q)"

definition inbox_is_empty :: "inbox \<Rightarrow> bool" where
  "inbox_is_empty q \<longleftrightarrow> inbox_len q = 0"

subsection \<open>Slot\<close>

datatype dir = Send | Recv

datatype slot_state = Connecting | Established | Closing | Drained

fun slot_state_as_u8 :: "slot_state \<Rightarrow> u8" where
  "slot_state_as_u8 Connecting = 0"
| "slot_state_as_u8 Established = 1"
| "slot_state_as_u8 Closing = 2"
| "slot_state_as_u8 Drained = 3"

definition slot_state_from_u8 :: "u8 \<Rightarrow> slot_state res" where
  "slot_state_from_u8 v =
     (if v = 0 then Ok Connecting else if v = 1 then Ok Established
      else if v = 2 then Ok Closing else if v = 3 then Ok Drained else Panic)"

datatype terminal_fault = InboxOverflow | SharedCqPollFailed

fun fault_as_u8 :: "terminal_fault \<Rightarrow> u8" where
  "fault_as_u8 InboxOverflow = 1"
| "fault_as_u8 SharedCqPollFailed = 2"

definition fault_from_u8 :: "u8 \<Rightarrow> terminal_fault option" where
  "fault_from_u8 v =
     (if v = 1 then Some InboxOverflow else if v = 2 then Some SharedCqPollFailed else None)"

fun fault_as_str :: "terminal_fault \<Rightarrow> string" where
  "fault_as_str InboxOverflow = ''busy-poll inbox overflow (completion undeliverable)''"
| "fault_as_str SharedCqPollFailed = ''busy-poll shared CQ poll failed''"

text \<open>The calls on a direction's \<open>AtomicWaker\<close>; a task is named by a number.\<close>

datatype waker_call = RegisterWaker nat | Wake

record dir_state =
  ds_inbox :: inbox
  ds_waker :: "waker_call list"
  ds_posted :: u32

record conn_slot =
  cs_send :: dir_state
  cs_recv :: dir_state
  cs_state :: u8
  cs_terminal :: u8
  cs_qp_num :: u32
  cs_generation :: u32

definition dir_state_new :: "nat \<Rightarrow> dir_state res" where
  "dir_state_new cap =
     (case inbox_with_capacity cap of
        Ok q \<Rightarrow> Ok \<lparr>ds_inbox = q, ds_waker = [], ds_posted = 0\<rparr>
      | Err e \<Rightarrow> Err e | Panic \<Rightarrow> Panic)"

definition conn_slot_new :: "u32 \<Rightarrow> nat \<Rightarrow> nat \<Rightarrow> conn_slot res" where
  "conn_slot_new qpn send_cap recv_cap =
     (case (dir_state_new send_cap, dir_state_new recv_cap) of
        (Ok s, Ok r) \<Rightarrow>
          Ok \<lparr>cs_send = s, cs_recv = r, cs_state = slot_state_as_u8 Connecting, cs_terminal = 0,
              cs_qp_num = qpn, cs_generation = 0\<rparr>
      | _ \<Rightarrow> Panic)"

fun slot_dir :: "dir \<Rightarrow> conn_slot \<Rightarrow> dir_state" where
  "slot_dir Send s = cs_send s"
| "slot_dir Recv s = cs_recv s"

fun upd_dir :: "dir \<Rightarrow> (dir_state \<Rightarrow> dir_state) \<Rightarrow> conn_slot \<Rightarrow> conn_slot" where
  "upd_dir Send f s = s\<lparr>cs_send := f (cs_send s)\<rparr>"
| "upd_dir Recv f s = s\<lparr>cs_recv := f (cs_recv s)\<rparr>"

definition deliver :: "dir \<Rightarrow> wc \<Rightarrow> conn_slot \<Rightarrow> (wc, unit) outcome \<times> conn_slot" where
  "deliver d w s =
     (let (r, q) = inbox_push w (ds_inbox (slot_dir d s))
      in (r, upd_dir d (\<lambda>ds. ds\<lparr>ds_inbox := q\<rparr>) s))"

definition wake :: "dir \<Rightarrow> conn_slot \<Rightarrow> conn_slot" where
  "wake d s = upd_dir d (\<lambda>ds. ds\<lparr>ds_waker := ds_waker ds @ [Wake]\<rparr>) s"

definition wake_both :: "conn_slot \<Rightarrow> conn_slot" where
  "wake_both s = wake Recv (wake Send s)"

definition inc_posted :: "dir \<Rightarrow> conn_slot \<Rightarrow> conn_slot" where
  "inc_posted d s = upd_dir d (\<lambda>ds. ds\<lparr>ds_posted := ds_posted ds + 1\<rparr>) s"

text \<open>\<open>fetch_sub\<close> wraps first, then the assertion panics.\<close>

definition dec_posted :: "dir \<Rightarrow> conn_slot \<Rightarrow> unit res \<times> conn_slot" where
  "dec_posted d s =
     (let prev = ds_posted (slot_dir d s);
          s' = upd_dir d (\<lambda>ds. ds\<lparr>ds_posted := prev - 1\<rparr>) s
      in (if prev \<noteq> 0 then Ok () else Panic, s'))"

definition posted :: "dir \<Rightarrow> conn_slot \<Rightarrow> u32" where
  "posted d s = ds_posted (slot_dir d s)"

definition slot_state :: "conn_slot \<Rightarrow> slot_state res" where
  "slot_state s = slot_state_from_u8 (cs_state s)"

definition set_state :: "slot_state \<Rightarrow> conn_slot \<Rightarrow> conn_slot" where
  "set_state st s = s\<lparr>cs_state := slot_state_as_u8 st\<rparr>"

definition mark_fatal :: "terminal_fault \<Rightarrow> conn_slot \<Rightarrow> conn_slot" where
  "mark_fatal f s =
     wake_both (if cs_terminal s = 0 then s\<lparr>cs_terminal := fault_as_u8 f\<rparr> else s)"

definition is_fatal :: "conn_slot \<Rightarrow> bool" where
  "is_fatal s \<longleftrightarrow> cs_terminal s \<noteq> 0"

definition terminal_error :: "conn_slot \<Rightarrow> error option" where
  "terminal_error s =
     map_option (\<lambda>f. ConnectionFault (fault_as_str f)) (fault_from_u8 (cs_terminal s))"

definition drain_complete :: "conn_slot \<Rightarrow> bool" where
  "drain_complete s \<longleftrightarrow>
     posted Send s = 0 \<and> posted Recv s = 0
     \<and> inbox_is_empty (ds_inbox (cs_send s)) \<and> inbox_is_empty (ds_inbox (cs_recv s))"

definition retire :: "conn_slot \<Rightarrow> unit res \<times> conn_slot" where
  "retire s =
     (if \<not> drain_complete s then (Panic, s)
      else (Ok (), s\<lparr>cs_generation := cs_generation s + 1\<rparr>))"

definition abandon :: "conn_slot \<Rightarrow> conn_slot" where
  "abandon s = s\<lparr>cs_generation := cs_generation s + 1\<rparr>"

definition drain_inbox :: "dir \<Rightarrow> nat \<Rightarrow> conn_slot \<Rightarrow> wc list \<times> conn_slot" where
  "drain_inbox d room s =
     (let (out, q) = inbox_drain room (ds_inbox (slot_dir d s))
      in (out, upd_dir d (\<lambda>ds. ds\<lparr>ds_inbox := q\<rparr>) s))"

definition poll_inbox ::
    "dir \<Rightarrow> nat \<Rightarrow> nat \<Rightarrow> conn_slot \<Rightarrow> (wc list res) poll \<times> conn_slot" where
  "poll_inbox d task room s =
     (case terminal_error s of
        Some e \<Rightarrow> (Ready (Err e), s)
      | None \<Rightarrow>
          let (out, s) = drain_inbox d room s in
          if length out > 0 then (Ready (Ok out), s)
          else
            let s = upd_dir d (\<lambda>ds. ds\<lparr>ds_waker := ds_waker ds @ [RegisterWaker task]\<rparr>) s;
                (out, s) = drain_inbox d room s
            in if length out > 0 then (Ready (Ok out), s) else (Pending, s))"

subsection \<open>The inbox is a bounded first-in first-out queue\<close>

text \<open>The contents, oldest first.\<close>

definition inbox_items :: "inbox \<Rightarrow> wc list" where
  "inbox_items q =
     map (\<lambda>i. cells q ! (unat (ib_head q + word_of_nat i) mod ib_capacity q)) [0..<inbox_len q]"

text \<open>
  The index \<open>pos % capacity\<close> is stable across the wrap of the counters when the capacity
  divides \<open>2^64\<close>; otherwise the counters must not have wrapped.
\<close>

definition inbox_inv :: "inbox \<Rightarrow> bool" where
  "inbox_inv q \<longleftrightarrow>
     0 < ib_capacity q \<and> ib_capacity q < 2 ^ 64 \<and> length (cells q) = ib_capacity q
     \<and> inbox_len q \<le> ib_capacity q
     \<and> (ib_capacity q dvd 2 ^ 64 \<or> ib_head q \<le> ib_tail q)"

text \<open>At least \<open>k\<close> more pushes before the tail counter wraps, if wrapping matters.\<close>

definition inbox_lives :: "nat \<Rightarrow> inbox \<Rightarrow> bool" where
  "inbox_lives k q \<longleftrightarrow> ib_capacity q dvd 2 ^ 64 \<or> unat (ib_tail q) + k < 2 ^ 64"

text \<open>
  A run of a producer (\<open>Some a\<close>: push \<open>a\<close>) and a consumer (\<open>None\<close>: drain at most
  \<open>n\<close>): what was accepted, what was drained, and the queue at the end.
\<close>

fun fifo_run :: "('a \<Rightarrow> 'q \<Rightarrow> ('a, unit) outcome \<times> 'q) \<Rightarrow> (nat \<Rightarrow> 'q \<Rightarrow> 'a list \<times> 'q) \<Rightarrow>
    nat \<Rightarrow> 'a option list \<Rightarrow> 'q \<Rightarrow> 'a list \<times> 'a list \<times> 'q" where
  "fifo_run push drain n [] q = ([], [], q)"
| "fifo_run push drain n (Some a # ops) q =
     (let (r, q') = push a q; (acc, out, q'') = fifo_run push drain n ops q'
      in (if r = Ok () then a # acc else acc, out, q''))"
| "fifo_run push drain n (None # ops) q =
     (let (xs, q') = drain n q; (acc, out, q'') = fifo_run push drain n ops q'
      in (acc, xs @ out, q''))"

locale bounded_fifo =
  fixes inv :: "'q \<Rightarrow> bool"
    and lives :: "nat \<Rightarrow> 'q \<Rightarrow> bool"
    and items :: "'q \<Rightarrow> 'a list"
    and bound :: "'q \<Rightarrow> nat"
    and push :: "'a \<Rightarrow> 'q \<Rightarrow> ('a, unit) outcome \<times> 'q"
    and drain :: "nat \<Rightarrow> 'q \<Rightarrow> 'a list \<times> 'q"
  assumes within_bound: "inv q \<Longrightarrow> length (items q) \<le> bound q"
    and push_room: "inv q \<Longrightarrow> lives (Suc k) q \<Longrightarrow> length (items q) < bound q \<Longrightarrow>
          push a q = (Ok (), q') \<Longrightarrow>
          inv q' \<and> lives k q' \<and> bound q' = bound q \<and> items q' = items q @ [a]"
    and push_accepts: "inv q \<Longrightarrow> fst (push a q) = Ok () \<longleftrightarrow> length (items q) < bound q"
    and push_full: "inv q \<Longrightarrow> length (items q) = bound q \<Longrightarrow> push a q = (Err a, q)"
    and drain_items: "inv q \<Longrightarrow> drain n q = (out, q') \<Longrightarrow>
          inv q' \<and> bound q' = bound q \<and> out = take n (items q) \<and> items q' = drop n (items q)"
    and drain_lives: "inv q \<Longrightarrow> lives k q \<Longrightarrow> drain n q = (out, q') \<Longrightarrow> lives k q'"
    and lives_mono: "lives (Suc k) q \<Longrightarrow> lives k q"
begin

lemma push_cases:
  assumes "inv q" "lives (Suc k) q"
  obtains q' where "push a q = (Ok (), q')" "length (items q) < bound q" "inv q'" "lives k q'"
      "bound q' = bound q" "items q' = items q @ [a]"
    | "push a q = (Err a, q)" "length (items q) = bound q"
proof (cases "length (items q) < bound q")
  case True
  with assms push_accepts [of q a] obtain q' where "push a q = (Ok (), q')"
    by (cases "push a q") auto
  with push_room [OF assms True] that(1) True show ?thesis by blast
next
  case False
  with within_bound assms have "length (items q) = bound q" by fastforce
  with push_full assms that(2) show ?thesis by blast
qed

lemma run_conserves:
  assumes "inv q" "lives (length ops) q" "fifo_run push drain n ops q = (acc, out, q')"
  shows "items q @ acc = out @ items q' \<and> inv q' \<and> length (items q') \<le> bound q"
  using assms
proof (induction ops arbitrary: q acc out)
  case Nil
  then show ?case using within_bound by simp
next
  case (Cons op ops)
  show ?case
  proof (cases op)
    case None
    obtain xs q1 where d: "drain n q = (xs, q1)" by fastforce
    obtain acc' out' where r: "fifo_run push drain n ops q1 = (acc', out', q')" "acc = acc'" "out = xs @ out'"
      using Cons.prems(3) None d by (auto split: prod.splits)
    have "lives (length ops) q1"
      using drain_lives [OF Cons.prems(1) _ d] Cons.prems(2) lives_mono by simp
    with Cons.IH [OF _ _ r(1)] drain_items [OF Cons.prems(1) d] r
    show ?thesis by auto (metis append_assoc append_take_drop_id)
  next
    case (Some a)
    obtain r q1 where p: "push a q = (r, q1)" by fastforce
    obtain acc' where t: "fifo_run push drain n ops q1 = (acc', out, q')"
      "acc = (if r = Ok () then a # acc' else acc')"
      using Cons.prems(3) Some p by (auto split: prod.splits)
    from Cons.prems(2) have l: "lives (Suc (length ops)) q" by simp
    show ?thesis
    proof (rule push_cases [OF Cons.prems(1) l, of a])
      fix q2 assume "push a q = (Ok (), q2)" "inv q2" "lives (length ops) q2"
        "bound q2 = bound q" "items q2 = items q @ [a]"
      with Cons.IH [OF _ _ t(1)] t p show ?thesis by auto
    next
      assume "push a q = (Err a, q)"
      with Cons.IH [OF _ _ t(1)] t p Cons.prems(1) lives_mono [OF l] show ?thesis by auto
    qed
  qed
qed

end

lemma inbox_index:
  assumes "inbox_inv q" "i \<le> inbox_len q"
  shows "unat (ib_head q + word_of_nat i) mod ib_capacity q = (unat (ib_head q) + i) mod ib_capacity q"
proof -
  have i64: "i < 2 ^ 64"
    using assms(2) unsigned_less [of "ib_tail q - ib_head q", where 'a = nat]
    by (simp add: inbox_len_def)
  have sum: "unat (ib_head q + word_of_nat i) = (unat (ib_head q) + i) mod 2 ^ 64"
    using i64 by (simp add: unat_word_ariths unat_of_nat mod_simps)
  show ?thesis
  proof (cases "ib_capacity q dvd 2 ^ 64")
    case True
    then show ?thesis by (simp only: sum mod_mod_cancel)
  next
    case False
    with assms have le: "ib_head q \<le> ib_tail q" by (simp add: inbox_inv_def)
    then have "inbox_len q = unat (ib_tail q) - unat (ib_head q)"
      by (simp add: inbox_len_def unat_sub)
    with assms(2) le have "unat (ib_head q) + i \<le> unat (ib_tail q)"
      by (simp add: word_le_nat_alt)
    also have "\<dots> < 2 ^ 64"
      using unsigned_less [of "ib_tail q", where 'a = nat] by simp
    finally show ?thesis by (simp add: sum)
  qed
qed

lemma length_inbox_items [simp]: "length (inbox_items q) = inbox_len q"
  by (simp add: inbox_items_def)

lemma inbox_items_eq:
  assumes "inbox_inv q"
  shows "inbox_items q =
     map (\<lambda>i. cells q ! ((unat (ib_head q) + i) mod ib_capacity q)) [0..<inbox_len q]"
  using assms by (simp add: inbox_items_def inbox_index)

lemma mod_shift_inj:
  fixes a i j n :: nat
  assumes "i < j" "j < n"
  shows "(a + i) mod n \<noteq> (a + j) mod n"
proof
  assume "(a + i) mod n = (a + j) mod n"
  with assms have "n dvd (a + j) - (a + i)"
    using mod_eq_dvd_iff_nat [of "a + i" "a + j" n] by simp
  then have "n dvd j - i" by simp
  with assms show False by (simp add: nat_dvd_not_less)
qed

lemma inbox_push_room:
  assumes inv: "inbox_inv q" and live: "inbox_lives (Suc k) q"
    and room: "inbox_len q < ib_capacity q" and eq: "inbox_push a q = (Ok (), q')"
  shows "inbox_inv q' \<and> inbox_lives k q' \<and> ib_capacity q' = ib_capacity q
     \<and> inbox_items q' = inbox_items q @ [a]"
proof -
  let ?cap = "ib_capacity q" and ?h = "unat (ib_head q)" and ?n = "inbox_len q"
  from eq room have q': "q' = q\<lparr>cells := (cells q)[unat (ib_tail q) mod ?cap := a], ib_tail := ib_tail q + 1\<rparr>"
    by (auto simp: inbox_push_def inbox_len_def Let_def split: if_splits)
  have tail: "unat (ib_tail q) mod ?cap = (?h + ?n) mod ?cap"
    using inbox_index [OF inv, of ?n] by (simp add: inbox_len_def)
  have "?n + 1 < 2 ^ 64" using room inv by (simp add: inbox_inv_def)
  then have "unat ((ib_tail q - ib_head q) + 1) = ?n + 1"
    by (simp add: inbox_len_def unat_word_ariths)
  then have len: "inbox_len q' = Suc ?n"
    by (simp add: inbox_len_def q' algebra_simps)
  have mono: "?cap dvd 2 ^ 64 \<or> unat (ib_tail q + 1) = unat (ib_tail q) + 1"
    using live by (auto simp: inbox_lives_def unat_word_ariths)
  then have inv': "inbox_inv q'"
    using inv len room by (auto simp: inbox_inv_def q' word_le_nat_alt)
  have live': "inbox_lives k q'"
    using live mono by (auto simp: inbox_lives_def q')
  have "inbox_items q' = inbox_items q @ [a]"
  proof (rule nth_equalityI)
    show "length (inbox_items q') = length (inbox_items q @ [a])" by (simp add: len)
    fix i assume "i < length (inbox_items q')"
    then have i: "i \<le> ?n" by (simp add: len)
    have "inbox_items q' ! i = (cells q)[(?h + ?n) mod ?cap := a] ! ((?h + i) mod ?cap)"
      using i by (simp only: inbox_items_eq [OF inv'] len) (simp add: tail q' del: upt_Suc)
    also have "\<dots> = (inbox_items q @ [a]) ! i"
      using i inv mod_shift_inj [of i ?n ?cap ?h] room
      by (cases "i = ?n") (simp_all add: nth_append inbox_items_eq inbox_inv_def)
    finally show "inbox_items q' ! i = (inbox_items q @ [a]) ! i" .
  qed
  with inv' live' show ?thesis by (simp add: q')
qed

lemma inbox_drain_items:
  assumes inv: "inbox_inv q" and eq: "inbox_drain n q = (out, q')"
  shows "inbox_inv q' \<and> ib_capacity q' = ib_capacity q \<and> out = take n (inbox_items q)
     \<and> inbox_items q' = drop n (inbox_items q)"
proof (cases "n = 0 \<or> inbox_len q = 0")
  case True
  with eq have q': "q' = q" "out = []"
    by (auto simp: inbox_drain_def inbox_len_def Let_def split: if_splits)
  from True have "n = 0 \<or> inbox_items q = []" by (metis length_0_conv length_inbox_items)
  with inv show ?thesis by (auto simp: q')
next
  case False
  let ?m = "min (inbox_len q) n"
  from eq False have q': "q' = q\<lparr>ib_head := ib_head q + word_of_nat ?m\<rparr>"
    and out: "out = map (\<lambda>i. cells q ! (unat (ib_head q + word_of_nat i) mod ib_capacity q)) [0..<?m]"
    by (simp_all add: inbox_drain_def inbox_len_def Let_def split: if_splits)
  have lt: "inbox_len q < 2 ^ 64"
    using unsigned_less [of "ib_tail q - ib_head q", where 'a = nat] by (simp add: inbox_len_def)
  then have m: "unat (word_of_nat ?m :: u64) = ?m" by (simp add: unat_of_nat)
  have "unat ((ib_tail q - ib_head q) - word_of_nat ?m) = inbox_len q - ?m"
    by (subst unat_sub) (simp_all add: word_le_nat_alt m flip: inbox_len_def)
  then have len: "inbox_len q' = inbox_len q - ?m"
    by (simp add: inbox_len_def q' algebra_simps)
  have "ib_capacity q dvd 2 ^ 64 \<or> ib_head q' \<le> ib_tail q'"
  proof (cases "ib_head q \<le> ib_tail q")
    case True
    then have "inbox_len q = unat (ib_tail q) - unat (ib_head q)"
      by (simp add: inbox_len_def unat_sub)
    moreover have "unat (ib_tail q) < 2 ^ 64"
      using unsigned_less [of "ib_tail q", where 'a = nat] by simp
    ultimately have "unat (ib_head q + word_of_nat ?m) = unat (ib_head q) + ?m"
      using True m by (simp add: unat_word_ariths word_le_nat_alt)
    moreover have "unat (ib_head q) + ?m \<le> unat (ib_tail q)"
      using True \<open>inbox_len q = _\<close> unfolding word_le_nat_alt by linarith
    ultimately show ?thesis by (simp add: q' word_le_nat_alt)
  next
    case False
    with inv show ?thesis by (simp add: inbox_inv_def)
  qed
  then have inv': "inbox_inv q'"
    using inv len diff_le_self [of "inbox_len q" ?m] by (auto simp: inbox_inv_def q')
  have "inbox_items q' = drop n (inbox_items q)"
  proof (rule nth_equalityI)
    show "length (inbox_items q') = length (drop n (inbox_items q))"
      by (simp add: len min_def)
    fix i assume "i < length (inbox_items q')"
    then have i: "i + n < inbox_len q" "?m = n" by (simp_all add: len min_def split: if_splits)
    have "inbox_items q' ! i = cells q ! (unat (ib_head q + word_of_nat n + word_of_nat i) mod ib_capacity q)"
      using i by (simp add: inbox_items_def len) (simp add: q')
    also have "\<dots> = drop n (inbox_items q) ! i"
      using i by (simp add: inbox_items_def ac_simps)
    finally show "inbox_items q' ! i = drop n (inbox_items q) ! i" .
  qed
  moreover have "out = take n (inbox_items q)"
    by (rule nth_equalityI) (auto simp: out inbox_items_def)
  ultimately show ?thesis using inv' by (simp add: q')
qed

lemma inbox_drain_tail: "inbox_drain n q = (out, q') \<Longrightarrow> ib_tail q' = ib_tail q"
  by (auto simp: inbox_drain_def Let_def split: if_splits)

interpretation ib: bounded_fifo inbox_inv inbox_lives inbox_items ib_capacity inbox_push inbox_drain
proof unfold_locales
  fix q q' :: inbox and a :: wc and k n :: nat and out :: "wc list"
  show "inbox_inv q \<Longrightarrow> length (inbox_items q) \<le> ib_capacity q"
    by (simp add: inbox_inv_def)
  show "inbox_inv q \<Longrightarrow> (fst (inbox_push a q) = Ok ()) = (length (inbox_items q) < ib_capacity q)"
    by (auto simp: inbox_push_def inbox_len_def Let_def)
  show "inbox_inv q \<Longrightarrow> length (inbox_items q) = ib_capacity q \<Longrightarrow> inbox_push a q = (Err a, q)"
    by (simp add: inbox_push_def inbox_len_def Let_def)
  show "inbox_inv q \<Longrightarrow> inbox_drain n q = (out, q') \<Longrightarrow>
      inbox_inv q' \<and> ib_capacity q' = ib_capacity q \<and> out = take n (inbox_items q)
      \<and> inbox_items q' = drop n (inbox_items q)"
    by (rule inbox_drain_items)
  show "inbox_inv q \<Longrightarrow> inbox_lives k q \<Longrightarrow> inbox_drain n q = (out, q') \<Longrightarrow> inbox_lives k q'"
    using inbox_drain_items [of q n out q'] inbox_drain_tail [of n q out q']
    by (simp add: inbox_lives_def)
  show "inbox_lives (Suc k) q \<Longrightarrow> inbox_lives k q"
    by (auto simp: inbox_lives_def)
  show "inbox_inv q \<Longrightarrow> inbox_lives (Suc k) q \<Longrightarrow> length (inbox_items q) < ib_capacity q \<Longrightarrow>
      inbox_push a q = (Ok (), q') \<Longrightarrow>
      inbox_inv q' \<and> inbox_lives k q' \<and> ib_capacity q' = ib_capacity q
      \<and> inbox_items q' = inbox_items q @ [a]"
    by (rule inbox_push_room) simp_all
qed

lemma inbox_with_capacity_Ok:
  assumes "0 < cap" "cap < 2 ^ 64" "k < 2 ^ 64"
  shows "\<exists>q. inbox_with_capacity cap = Ok q \<and> inbox_inv q \<and> inbox_items q = []
     \<and> ib_capacity q = cap \<and> inbox_lives k q"
  using assms
  by (simp add: inbox_with_capacity_def inbox_inv_def inbox_items_def inbox_len_def inbox_lives_def)

subsection \<open>Well-formed slots\<close>

definition slot_wf :: "conn_slot \<Rightarrow> bool" where
  "slot_wf s \<longleftrightarrow> inbox_inv (ds_inbox (cs_send s)) \<and> inbox_inv (ds_inbox (cs_recv s)) \<and> cs_state s \<le> 3"

lemma slot_state_roundtrip [simp]: "slot_state_from_u8 (slot_state_as_u8 st) = Ok st"
  by (cases st) (simp_all add: slot_state_from_u8_def)

lemma u8_le_3: "(v :: u8) \<le> 3 \<longleftrightarrow> v = 0 \<or> v = 1 \<or> v = 2 \<or> v = 3"
  by (auto simp: word_unat_eq_iff word_le_nat_alt)

lemma slot_state_total: "slot_wf s \<Longrightarrow> \<exists>st. slot_state s = Ok st"
  by (auto simp: slot_wf_def slot_state_def slot_state_from_u8_def u8_le_3)

lemma slot_state_set [simp]: "slot_state (set_state st s) = Ok st"
  by (simp add: slot_state_def set_state_def)

lemma fault_roundtrip [simp]: "fault_from_u8 (fault_as_u8 f) = Some f"
  by (cases f) (simp_all add: fault_from_u8_def)

lemma slot_dir_upd [simp]:
  "slot_dir d (upd_dir e f s) = (if d = e then f (slot_dir d s) else slot_dir d s)"
  by (cases d; cases e) auto

lemma upd_dir_frame [simp]:
  "cs_state (upd_dir d f s) = cs_state s" "cs_terminal (upd_dir d f s) = cs_terminal s"
  "cs_qp_num (upd_dir d f s) = cs_qp_num s" "cs_generation (upd_dir d f s) = cs_generation s"
  by (cases d; simp)+

lemma slot_wf_dir:
  "slot_wf s \<longleftrightarrow> (\<forall>d. inbox_inv (ds_inbox (slot_dir d s))) \<and> cs_state s \<le> 3"
  by (auto simp: slot_wf_def) (metis dir.exhaust slot_dir.simps)+

lemma slot_wf_upd_dir:
  assumes "slot_wf s" "inbox_inv (ds_inbox (f (slot_dir d s)))"
  shows "slot_wf (upd_dir d f s)"
  using assms by (simp add: slot_wf_dir)

lemma drain_inbox_eq:
  assumes "slot_wf s" "drain_inbox d n s = (out, s')"
  shows "slot_wf s' \<and> out = take n (inbox_items (ds_inbox (slot_dir d s)))
     \<and> inbox_items (ds_inbox (slot_dir d s')) = drop n (inbox_items (ds_inbox (slot_dir d s)))
     \<and> (\<forall>e. e \<noteq> d \<longrightarrow> slot_dir e s' = slot_dir e s) \<and> posted e s' = posted e s
     \<and> cs_state s' = cs_state s \<and> cs_terminal s' = cs_terminal s \<and> cs_qp_num s' = cs_qp_num s
     \<and> cs_generation s' = cs_generation s"
proof -
  obtain q where q: "inbox_drain n (ds_inbox (slot_dir d s)) = (out, q)"
    and s': "s' = upd_dir d (\<lambda>ds. ds\<lparr>ds_inbox := q\<rparr>) s"
    using assms(2) by (auto simp: drain_inbox_def split: prod.splits)
  from assms(1) have "inbox_inv (ds_inbox (slot_dir d s))" by (simp add: slot_wf_dir)
  from ib.drain_items [OF this q] assms(1) show ?thesis
    by (auto simp: s' posted_def intro: slot_wf_upd_dir)
qed

subsection \<open>No lost wake-up\<close>

text \<open>
  The consumer (\<open>poll_inbox\<close>) and the producer (\<open>route_into\<close>: a batch of \<open>deliver\<close>
  calls, then \<open>wake\<close>) as interleaved steps on one direction. \<open>CParked\<close> is a task that
  returned \<open>Pending\<close>; it may be polled again at any time.
\<close>

datatype consumer_pc = CIdle | CRegister | CRecheck | CParked

datatype producer_pc = PIdle | PWake

type_synonym handoff = "dir_state \<times> consumer_pc \<times> producer_pc"

inductive handoff_step :: "nat \<Rightarrow> nat \<Rightarrow> handoff \<Rightarrow> handoff \<Rightarrow> bool" for task room where
  produce: "inbox_push w (ds_inbox ds) = (Ok (), q) \<Longrightarrow>
    handoff_step task room (ds, c, p) (ds\<lparr>ds_inbox := q\<rparr>, c, PWake)"
| wake: "handoff_step task room (ds, c, PWake) (ds\<lparr>ds_waker := ds_waker ds @ [Wake]\<rparr>, c, PIdle)"
| first_take: "inbox_drain room (ds_inbox ds) = (out, q) \<Longrightarrow> out \<noteq> [] \<Longrightarrow>
    handoff_step task room (ds, CIdle, p) (ds\<lparr>ds_inbox := q\<rparr>, CIdle, p)"
| first_empty: "inbox_drain room (ds_inbox ds) = ([], q) \<Longrightarrow>
    handoff_step task room (ds, CIdle, p) (ds\<lparr>ds_inbox := q\<rparr>, CRegister, p)"
| register: "handoff_step task room (ds, CRegister, p)
    (ds\<lparr>ds_waker := ds_waker ds @ [RegisterWaker task]\<rparr>, CRecheck, p)"
| recheck_take: "inbox_drain room (ds_inbox ds) = (out, q) \<Longrightarrow> out \<noteq> [] \<Longrightarrow>
    handoff_step task room (ds, CRecheck, p) (ds\<lparr>ds_inbox := q\<rparr>, CIdle, p)"
| recheck_empty: "inbox_drain room (ds_inbox ds) = ([], q) \<Longrightarrow>
    handoff_step task room (ds, CRecheck, p) (ds\<lparr>ds_inbox := q\<rparr>, CParked, p)"
| poll_again: "handoff_step task room (ds, CParked, p) (ds, CIdle, p)"

inductive_cases handoff_stepE: "handoff_step task room h h'"

text \<open>A \<open>Wake\<close> after the last registration: the registered task is scheduled.\<close>

definition woken :: "waker_call list \<Rightarrow> bool" where
  "woken cs \<longleftrightarrow> Wake \<in> set (takeWhile (\<lambda>c. c = Wake) (rev cs))"

lemma woken_snoc [simp]: "woken (cs @ [Wake])" "\<not> woken (cs @ [RegisterWaker t])"
  by (simp_all add: woken_def)

definition handoff_inv :: "handoff \<Rightarrow> bool" where
  "handoff_inv h \<longleftrightarrow>
     (case h of (ds, c, p) \<Rightarrow>
        c = CParked \<longrightarrow> inbox_is_empty (ds_inbox ds) \<or> p = PWake \<or> woken (ds_waker ds))"

lemma inbox_drain_empty:
  "0 < room \<Longrightarrow> inbox_drain room q = ([], q') \<Longrightarrow> inbox_is_empty q' \<and> q' = q"
  by (auto simp: inbox_drain_def inbox_is_empty_def inbox_len_def Let_def min_def split: if_splits)

lemma handoff_inv_step:
  "handoff_step task room h h' \<Longrightarrow> 0 < room \<Longrightarrow> handoff_inv h \<Longrightarrow> handoff_inv h'"
  by (erule handoff_stepE) (auto simp: handoff_inv_def dest: inbox_drain_empty)

lemma handoff_inv_steps:
  "(handoff_step task room)\<^sup>*\<^sup>* h h' \<Longrightarrow> 0 < room \<Longrightarrow> handoff_inv h \<Longrightarrow> handoff_inv h'"
  by (induction rule: rtranclp_induct) (auto intro: handoff_inv_step)

text \<open>An uninterrupted run of the consumer's steps is \<open>poll_inbox\<close>.\<close>

lemma upd_dir_upd_dir: "upd_dir d f (upd_dir d g s) = upd_dir d (\<lambda>ds. f (g ds)) s"
  by (cases d) simp_all

lemma poll_inbox_steps:
  assumes "terminal_error s = None" "poll_inbox d task room s = (r, s')"
  shows "(handoff_step task room)\<^sup>*\<^sup>* (slot_dir d s, CIdle, p)
     (slot_dir d s', if r = Pending then CParked else CIdle, p)"
proof -
  obtain out q where d1: "inbox_drain room (ds_inbox (slot_dir d s)) = (out, q)" by fastforce
  show ?thesis
  proof (cases "out = []")
    case False
    with assms d1 have "r \<noteq> Pending" "slot_dir d s' = (slot_dir d s)\<lparr>ds_inbox := q\<rparr>"
      by (auto simp: poll_inbox_def drain_inbox_def)
    with handoff_step.first_take [OF d1 False, of task p] show ?thesis by auto
  next
    case True
    let ?ds1 = "(slot_dir d s)\<lparr>ds_inbox := q\<rparr>"
    let ?ds2 = "?ds1\<lparr>ds_waker := ds_waker ?ds1 @ [RegisterWaker task]\<rparr>"
    obtain out' q' where d2: "inbox_drain room (ds_inbox ?ds2) = (out', q')" by fastforce
    have s': "slot_dir d s' = ?ds2\<lparr>ds_inbox := q'\<rparr>" "r = Pending \<longleftrightarrow> out' = []"
      using assms d1 d2 True by (auto simp: poll_inbox_def drain_inbox_def Let_def split: if_splits)
    have s1: "handoff_step task room (slot_dir d s, CIdle, p) (?ds1, CRegister, p)"
      by (rule handoff_step.first_empty) (use d1 True in simp)
    have s2: "handoff_step task room (?ds1, CRegister, p) (?ds2, CRecheck, p)"
      by (rule handoff_step.register)
    have s3: "handoff_step task room (?ds2, CRecheck, p)
        (slot_dir d s', if r = Pending then CParked else CIdle, p)"
    proof (cases "out' = []")
      case True
      with d2 have "inbox_drain room (ds_inbox ?ds2) = ([], q')" by simp
      from handoff_step.recheck_empty [OF this] True s' show ?thesis by simp
    next
      case False
      from handoff_step.recheck_take [OF d2 False] False s' show ?thesis by simp
    qed
    show ?thesis
      by (rule converse_rtranclp_into_rtranclp [OF s1 converse_rtranclp_into_rtranclp [OF s2
            r_into_rtranclp [of "handoff_step task room", OF s3]]])
  qed
qed

subsection \<open>Properties\<close>

text \<open>C6: Inbox FIFO. From a fresh inbox, under every interleaving of fewer than \<open>2^64\<close>
  pushes and drains, the completions accepted are exactly those drained followed by those
  still queued, in order: none is lost, repeated or reordered; and the queue never holds more
  than its capacity.\<close>

theorem inbox_fifo:
  assumes "inbox_with_capacity cap = Ok q" "cap < 2 ^ 64" "length ops < 2 ^ 64"
    and "fifo_run inbox_push inbox_drain n ops q = (acc, out, q')"
  shows "acc = out @ inbox_items q' \<and> inbox_len q' \<le> cap"
proof -
  from assms(1) have "0 < cap" by (auto simp: inbox_with_capacity_def split: if_splits)
  from inbox_with_capacity_Ok [OF this assms(2,3)] assms(1)
  have q: "inbox_inv q" "inbox_items q = []" "ib_capacity q = cap" "inbox_lives (length ops) q"
    by simp_all
  from ib.run_conserves [OF q(1,4) assms(4)] q
  show ?thesis by simp
qed

definition wc_n :: "nat \<Rightarrow> wc" where "wc_n i = wc_default\<lparr>wr_id := word_of_nat i\<rparr>"

theorem inbox_fifo_witness:
  "\<exists>q q'. fifo_run inbox_push inbox_drain 1 [Some (wc_n 1), Some (wc_n 2), Some (wc_n 3), None, Some (wc_n 4)] q
       = ([wc_n 1, wc_n 2, wc_n 4], [wc_n 1], q')
     \<and> [wc_n 1, wc_n 2, wc_n 4] = [wc_n 1] @ inbox_items q'"
proof -
  let ?ops = "[Some (wc_n 1), Some (wc_n 2), Some (wc_n 3), None, Some (wc_n 4)]"
  obtain q where q: "inbox_with_capacity 2 = Ok q"
    and qd: "q = \<lparr>cells = [wc_default, wc_default], ib_capacity = 2, ib_head = 0, ib_tail = 0\<rparr>"
    by (simp add: inbox_with_capacity_def numeral_2_eq_2)
  obtain q' where r: "fifo_run inbox_push inbox_drain 1 ?ops q = ([wc_n 1, wc_n 2, wc_n 4], [wc_n 1], q')"
    by (simp add: qd inbox_push_def inbox_drain_def Let_def)
  from inbox_fifo [OF q _ _ r] r show ?thesis by auto
qed

text \<open>C7: No lost wake-up. Under every interleaving of the driver's pushes and wakes with the
  steps of \<open>poll_inbox\<close>, a task that has parked while a completion is queued has been woken
  since it registered, or the driver is about to wake it.\<close>

theorem no_lost_wakeup:
  assumes "(handoff_step task room)\<^sup>*\<^sup>* (ds0, CIdle, p0) (ds, CParked, p)" "0 < room"
    and "\<not> inbox_is_empty (ds_inbox ds)"
  shows "p = PWake \<or> woken (ds_waker ds)"
  using handoff_inv_steps [OF assms(1,2)] assms(3) by (simp add: handoff_inv_def)

theorem no_lost_wakeup_witness:
  "\<exists>ds. (handoff_step 7 4)\<^sup>*\<^sup>*
        (\<lparr>ds_inbox = \<lparr>cells = [wc_default], ib_capacity = 1, ib_head = 0, ib_tail = 0\<rparr>,
          ds_waker = [], ds_posted = 0\<rparr>, CIdle, PIdle) (ds, CParked, PIdle)
     \<and> \<not> inbox_is_empty (ds_inbox ds) \<and> woken (ds_waker ds)"
proof -
  let ?q0 = "\<lparr>cells = [wc_default], ib_capacity = 1, ib_head = 0, ib_tail = 0\<rparr>"
  let ?q1 = "\<lparr>cells = [wc_n 1], ib_capacity = 1, ib_head = 0, ib_tail = 1\<rparr>"
  let ?ds0 = "\<lparr>ds_inbox = ?q0, ds_waker = [], ds_posted = 0\<rparr>"
  let ?ds1 = "?ds0\<lparr>ds_waker := [RegisterWaker 7]\<rparr>"
  let ?ds2 = "?ds1\<lparr>ds_inbox := ?q1\<rparr>"
  let ?ds3 = "?ds2\<lparr>ds_waker := [RegisterWaker 7, Wake]\<rparr>"
  let ?R = "handoff_step 7 4"
  have e: "inbox_drain 4 ?q0 = ([], ?q0)" by (simp add: inbox_drain_def)
  have push: "inbox_push (wc_n 1) ?q0 = (Ok (), ?q1)" by (simp add: inbox_push_def)
  have s1: "?R (?ds0, CIdle, PIdle) (?ds0, CRegister, PIdle)"
    using handoff_step.first_empty [of 4 ?ds0 ?q0] e by simp
  have s2: "?R (?ds0, CRegister, PIdle) (?ds1, CRecheck, PIdle)"
    using handoff_step.register [of 7 4 ?ds0] by simp
  have s3: "?R (?ds1, CRecheck, PIdle) (?ds1, CParked, PIdle)"
    using handoff_step.recheck_empty [of 4 ?ds1 ?q0] e by simp
  have s4: "?R (?ds1, CParked, PIdle) (?ds2, CParked, PWake)"
    using handoff_step.produce [of "wc_n 1" ?ds1 ?q1] push by simp
  have s5: "?R (?ds2, CParked, PWake) (?ds3, CParked, PIdle)"
    using handoff_step.wake [of 7 4 ?ds2] by simp
  have steps: "?R\<^sup>*\<^sup>* (?ds0, CIdle, PIdle) (?ds3, CParked, PIdle)"
    by (rule converse_rtranclp_into_rtranclp [OF s1 converse_rtranclp_into_rtranclp [OF s2
          converse_rtranclp_into_rtranclp [OF s3 converse_rtranclp_into_rtranclp [OF s4
          r_into_rtranclp [of ?R, OF s5]]]]])
  have "\<not> inbox_is_empty (ds_inbox ?ds3)"
    by (simp add: inbox_is_empty_def inbox_len_def)
  with no_lost_wakeup [OF steps _ this] steps show ?thesis by auto
qed

end
