(* ===== verification/Device.thy ===== *)
theory Device
  imports ConnSlot
begin

section \<open>The device, the posting side and the completion sources\<close>

text \<open>
  What the transports call below them: \<^verbatim>\<open>async_qp.rs\<close> (posting with work-request
  accounting), \<^verbatim>\<open>cq.rs\<close>, \<^verbatim>\<open>comp_channel.rs\<close> and \<^verbatim>\<open>async_cq.rs\<close> (the arm, drain,
  wait loop) and \<^verbatim>\<open>completion_source.rs\<close> (the two ways a transport gets its
  completions).

  The verbs library, the connection manager and the runtime's reactor are not part of the
  repository: they are the record \<open>nic\<close> of functions on an abstract device state \<open>'n\<close>,
  an argument of every definition that calls them. Nothing is assumed about them except
  where a lemma says so. Handles (completion queues, channels, queue pairs) are numbers.
\<close>

subsection \<open>Parameter: the device and the reactor\<close>

text \<open>
  A call that returns a C status returns that status; \<open>ibv_poll_cq\<close> returns an errno or
  the entries it wrote, of which the caller's buffer takes at most its length.
  \<open>rdma_get_cm_event\<close> returns an errno or the type of the event. The \<open>fd_*\<close> functions
  are the reactor's readiness calls; \<open>fd_wait\<close> and \<open>task_wait\<close> are an \<open>.await\<close> under a
  deadline, \<open>None\<close> (resp. \<open>False\<close>) when the deadline passes first.
  \<open>ibv_reg_mr\<close> returns an errno or the address and the two keys; \<open>ibv_query_device\<close> the
  three attributes the code reads (\<open>max_mw\<close>, \<open>max_qp_wr\<close>, \<open>max_cqe\<close>). Memory the
  device may write is read through \<open>host_memory\<close>.
\<close>

record 'n world =
  hw :: 'n
  slots :: "nat \<Rightarrow> conn_slot"

record 'n nic =
  ibv_post_send :: "u32 \<Rightarrow> send_wr \<Rightarrow> 'n \<Rightarrow> int \<times> 'n"
  ibv_post_recv :: "u32 \<Rightarrow> recv_wr \<Rightarrow> 'n \<Rightarrow> int \<times> 'n"
  ibv_poll_cq :: "nat \<Rightarrow> nat \<Rightarrow> 'n \<Rightarrow> (int + wc list) \<times> 'n"
  ibv_req_notify_cq :: "nat \<Rightarrow> 'n \<Rightarrow> int \<times> 'n"
  ibv_get_cq_event :: "nat \<Rightarrow> 'n \<Rightarrow> int \<times> 'n"
  ibv_ack_cq_events :: "nat \<Rightarrow> u32 \<Rightarrow> 'n \<Rightarrow> 'n"
  fd_poll_readable :: "nat \<Rightarrow> 'n \<Rightarrow> (int + unit) poll \<times> 'n"
  fd_wait :: "nat \<Rightarrow> 'n \<Rightarrow> (int + unit) option \<times> 'n"
  task_wait :: "'n world \<Rightarrow> bool \<times> 'n world"
  rdma_get_cm_event :: "nat \<Rightarrow> 'n \<Rightarrow> (int + u32) \<times> 'n"
  rdma_ack_cm_event :: "nat \<Rightarrow> 'n \<Rightarrow> 'n"
  rdma_disconnect :: "u32 \<Rightarrow> 'n \<Rightarrow> int \<times> 'n"
  qp_cached_state :: "u32 \<Rightarrow> 'n \<Rightarrow> u32"
  modify_qp_error :: "u32 \<Rightarrow> 'n \<Rightarrow> int \<times> 'n"
  ibv_reg_mr :: "bytes \<Rightarrow> u32 \<Rightarrow> 'n \<Rightarrow> (int + u64 \<times> u32 \<times> u32) \<times> 'n"
  ibv_alloc_mw :: "'n \<Rightarrow> (int + u32) \<times> 'n"
  ibv_query_device :: "'n \<Rightarrow> (u32 \<times> nat \<times> nat) option"
  supports_mw_type2 :: "'n \<Rightarrow> bool"
  host_memory :: "mr \<Rightarrow> 'n \<Rightarrow> bytes"

definition upd_slot :: "nat \<Rightarrow> (conn_slot \<Rightarrow> conn_slot) \<Rightarrow> 'n world \<Rightarrow> 'n world" where
  "upd_slot i f w = w\<lparr>slots := (slots w)(i := f (slots w i))\<rparr>"

definition on_hw :: "('n \<Rightarrow> 'a \<times> 'n) \<Rightarrow> 'n world \<Rightarrow> 'a \<times> 'n world" where
  "on_hw f w = (let (a, n) = f (hw w) in (a, w\<lparr>hw := n\<rparr>))"

text \<open>\<open>EAGAIN\<close>, the errno whose \<open>io::ErrorKind\<close> is \<open>WouldBlock\<close>.\<close>

definition EAGAIN :: int where "EAGAIN = 11"

subsection \<open>Posting\<close>

record async_qp =
  aq_qpn :: u32
  aq_accounting :: "nat option"

definition new_poster :: "u32 \<Rightarrow> async_qp" where
  "new_poster qpn = \<lparr>aq_qpn = qpn, aq_accounting = None\<rparr>"

definition set_accounting :: "nat \<Rightarrow> async_qp \<Rightarrow> async_qp" where
  "set_accounting slot qp = qp\<lparr>aq_accounting := Some slot\<rparr>"

definition account :: "async_qp \<Rightarrow> dir \<Rightarrow> 'n world \<Rightarrow> 'n world" where
  "account qp d w =
     (case aq_accounting qp of Some i \<Rightarrow> upd_slot i (inc_posted d) w | None \<Rightarrow> w)"

definition post_send_wr :: "'n nic \<Rightarrow> async_qp \<Rightarrow> send_wr \<Rightarrow> 'n world \<Rightarrow> unit res \<times> 'n world" where
  "post_send_wr nic qp wr w =
     (let (ret, w) = on_hw (ibv_post_send nic (aq_qpn qp) wr) w in
      case from_ret ret of
        Ok _ \<Rightarrow> (Ok (), account qp Send w)
      | Err e \<Rightarrow> (Err e, w)
      | Panic \<Rightarrow> (Panic, w))"

definition post_recv_wr :: "'n nic \<Rightarrow> async_qp \<Rightarrow> recv_wr \<Rightarrow> 'n world \<Rightarrow> unit res \<times> 'n world" where
  "post_recv_wr nic qp wr w =
     (let (ret, w) = on_hw (ibv_post_recv nic (aq_qpn qp) wr) w in
      case from_ret ret of
        Ok _ \<Rightarrow> (Ok (), account qp Recv w)
      | Err e \<Rightarrow> (Err e, w)
      | Panic \<Rightarrow> (Panic, w))"

definition post_send_signaled ::
    "'n nic \<Rightarrow> async_qp \<Rightarrow> mr \<Rightarrow> nat \<Rightarrow> nat \<Rightarrow> u64 \<Rightarrow> 'n world \<Rightarrow> unit res \<times> 'n world" where
  "post_send_signaled nic qp m offset len i w =
     (let sg = \<lparr>sge_addr = mr_addr m + word_of_nat offset, sge_length = word_of_nat len,
                sge_lkey = mr_lkey m\<rparr>
      in post_send_wr nic qp (wr_sg sg (wr_signaled (send_wr_new i WrSend))) w)"

definition post_recv_buffer :: "'n nic \<Rightarrow> async_qp \<Rightarrow> mr \<Rightarrow> u64 \<Rightarrow> 'n world \<Rightarrow> unit res \<times> 'n world" where
  "post_recv_buffer nic qp m i w =
     (let sg = \<lparr>sge_addr = mr_addr m, sge_length = word_of_nat (length (mr_bytes m)),
                sge_lkey = mr_lkey m\<rparr>
      in post_recv_wr nic qp (recv_sg sg (recv_wr_new i)) w)"

definition to_error :: "'n nic \<Rightarrow> async_qp \<Rightarrow> 'n world \<Rightarrow> unit res \<times> 'n world" where
  "to_error nic qp w =
     (if qp_cached_state nic (aq_qpn qp) (hw w) = qp_state_as_raw QpsErr then (Ok (), w)
      else let (ret, w) = on_hw (modify_qp_error nic (aq_qpn qp)) w in (from_ret ret, w))"

text \<open>\<open>reg_mr_owned\<close>, and the access flags the transports ask for.\<close>

definition LOCAL_WRITE :: u32 where "LOCAL_WRITE = 1"
definition REMOTE_WRITE :: u32 where "REMOTE_WRITE = 2"
definition REMOTE_READ :: u32 where "REMOTE_READ = 4"
definition MW_BIND :: u32 where "MW_BIND = 16"

definition reg_mr_owned :: "'n nic \<Rightarrow> bytes \<Rightarrow> u32 \<Rightarrow> 'n world \<Rightarrow> mr res \<times> 'n world" where
  "reg_mr_owned nic buf access w =
     (case on_hw (ibv_reg_mr nic buf access) w of
        (Inl e, w) \<Rightarrow> (Err (Verbs e), w)
      | (Inr (a, lk, rk), w) \<Rightarrow> (Ok \<lparr>mr_addr = a, mr_lkey = lk, mr_rkey = rk, mr_bytes = buf\<rparr>, w))"

subsection \<open>Connection-manager events\<close>

datatype cm_event_type =
    AddrResolved | AddrError | RouteResolved | RouteError | ConnectRequest | ConnectResponse
  | ConnectError | Unreachable | Rejected | CmEstablished | Disconnected | DeviceRemoval
  | MulticastJoin | MulticastError | AddrChange | TimewaitExit | CmUnknown u32

definition cm_event_table :: "(u32 \<times> cm_event_type) list" where
  "cm_event_table =
     [(0, AddrResolved), (1, AddrError), (2, RouteResolved), (3, RouteError),
      (4, ConnectRequest), (5, ConnectResponse), (6, ConnectError), (7, Unreachable),
      (8, Rejected), (9, CmEstablished), (10, Disconnected), (11, DeviceRemoval),
      (12, MulticastJoin), (13, MulticastError), (14, AddrChange), (15, TimewaitExit)]"

definition cm_event_from_raw :: "u32 \<Rightarrow> cm_event_type" where
  "cm_event_from_raw v = (case map_of cm_event_table v of Some t \<Rightarrow> t | None \<Rightarrow> CmUnknown v)"

definition try_get_event :: "'n nic \<Rightarrow> nat \<Rightarrow> 'n world \<Rightarrow> cm_event_type res \<times> 'n world" where
  "try_get_event nic ch w =
     (case on_hw (rdma_get_cm_event nic ch) w of
        (Inl e, w) \<Rightarrow> (if e = EAGAIN then Err WouldBlock else Err (Verbs e), w)
      | (Inr v, w) \<Rightarrow> (Ok (cm_event_from_raw v), w))"

definition cm_disconnect :: "'n nic \<Rightarrow> u32 \<Rightarrow> 'n world \<Rightarrow> unit res \<times> 'n world" where
  \<comment> \<open>\<open>from_ret_errno\<close>: the status is the errno, 0 for success\<close>
  "cm_disconnect nic cmid w =
     (let (e, w) = on_hw (rdma_disconnect nic cmid) w in (if e = 0 then Ok () else Err (Verbs e), w))"

subsection \<open>Completion queues\<close>

text \<open>\<open>CompletionQueue::poll\<close> into a buffer of length \<open>room\<close>, and \<open>req_notify\<close>.\<close>

definition cq_poll :: "'n nic \<Rightarrow> nat \<Rightarrow> nat \<Rightarrow> 'n world \<Rightarrow> wc list res \<times> 'n world" where
  "cq_poll nic cq room w =
     (let (r, w) = on_hw (ibv_poll_cq nic cq room) w in
      case r of Inl e \<Rightarrow> (Err (Verbs e), w) | Inr wcs \<Rightarrow> (Ok (take room wcs), w))"

definition cq_req_notify :: "'n nic \<Rightarrow> nat \<Rightarrow> 'n world \<Rightarrow> unit res \<times> 'n world" where
  "cq_req_notify nic cq w = (let (ret, w) = on_hw (ibv_req_notify_cq nic cq) w in (from_ret ret, w))"

definition get_cq_event :: "'n nic \<Rightarrow> nat \<Rightarrow> 'n world \<Rightarrow> unit res \<times> 'n world" where
  "get_cq_event nic ch w =
     (let (ret, w) = on_hw (ibv_get_cq_event nic ch) w in
      (if ret \<noteq> 0 then Err (Verbs ret) else Ok (), w))"

datatype cq_poll_state = CqIdle | WaitingFd

record async_cq =
  ac_cq :: nat
  ac_channel :: nat
  ac_unacked :: u32

definition ACK_BATCH_SIZE :: u32 where "ACK_BATCH_SIZE = 16"

definition ack_event :: "'n nic \<Rightarrow> async_cq \<Rightarrow> 'n world \<Rightarrow> async_cq \<times> 'n world" where
  "ack_event nic c w =
     (let prev = ac_unacked c; c = c\<lparr>ac_unacked := prev + 1\<rparr> in
      if prev + 1 \<ge> ACK_BATCH_SIZE then
        let unacked = ac_unacked c; c = c\<lparr>ac_unacked := 0\<rparr> in
        if unacked > 0 then (c, w\<lparr>hw := ibv_ack_cq_events nic (ac_cq c) unacked (hw w)\<rparr>) else (c, w)
      else (c, w))"

text \<open>\<open>drain_channel_events\<close>: until the channel reports \<open>WouldBlock\<close>.\<close>

definition drain_channel_body ::
    "'n nic \<Rightarrow> async_cq \<times> 'n world \<Rightarrow> ((async_cq \<times> 'n world) + (unit res \<times> async_cq \<times> 'n world)) option" where
  "drain_channel_body nic cw =
     (let (c, w) = cw; (r, w) = get_cq_event nic (ac_channel c) w in
      Some (case r of
        Ok _ \<Rightarrow> Inl (ack_event nic c w)
      | Err e \<Rightarrow> if e = Verbs EAGAIN then Inr (Ok (), c, w) else Inr (Err e, c, w)
      | Panic \<Rightarrow> Inr (Panic, c, w)))"

definition drain_channel_events ::
    "'n nic \<Rightarrow> async_cq \<Rightarrow> 'n world \<Rightarrow> (unit res \<times> async_cq \<times> 'n world) option" where
  "drain_channel_events nic c w = loop (drain_channel_body nic) (c, w)"

text \<open>\<open>AsyncCq::poll_completions\<close>: one turn of its loop.\<close>

definition acq_arm_and_drain ::
    "'n nic \<Rightarrow> nat \<Rightarrow> async_cq \<Rightarrow> 'n world \<Rightarrow>
       ((async_cq \<times> cq_poll_state \<times> 'n world)
        + ((wc list res) poll \<times> async_cq \<times> cq_poll_state \<times> 'n world)) option" where
  "acq_arm_and_drain nic room c w =
     (case cq_req_notify nic (ac_cq c) w of
        (Err e, w) \<Rightarrow> Some (Inr (Ready (Err e), c, CqIdle, w))
      | (Panic, w) \<Rightarrow> Some (Inr (Ready Panic, c, CqIdle, w))
      | (Ok _, w) \<Rightarrow>
          (case cq_poll nic (ac_cq c) room w of
             (Err e, w) \<Rightarrow> Some (Inr (Ready (Err e), c, CqIdle, w))
           | (Panic, w) \<Rightarrow> Some (Inr (Ready Panic, c, CqIdle, w))
           | (Ok wcs, w) \<Rightarrow>
               if length wcs > 0 then Some (Inr (Ready (Ok wcs), c, CqIdle, w))
               else
                 (case on_hw (fd_poll_readable nic (ac_channel c)) w of
                    (Pending, w) \<Rightarrow> Some (Inr (Pending, c, WaitingFd, w))
                  | (Ready (Inl e), w) \<Rightarrow> Some (Inr (Ready (Err (Verbs e)), c, CqIdle, w))
                  | (Ready (Inr _), w) \<Rightarrow>
                      (case drain_channel_events nic c w of
                         None \<Rightarrow> None
                       | Some (Ok _, c, w) \<Rightarrow> Some (Inl (c, CqIdle, w))
                       | Some (Err e, c, w) \<Rightarrow> Some (Inr (Ready (Err e), c, CqIdle, w))
                       | Some (Panic, c, w) \<Rightarrow> Some (Inr (Ready Panic, c, CqIdle, w))))))"

definition acq_poll_body ::
    "'n nic \<Rightarrow> nat \<Rightarrow> async_cq \<times> cq_poll_state \<times> 'n world \<Rightarrow>
       ((async_cq \<times> cq_poll_state \<times> 'n world)
        + ((wc list res) poll \<times> async_cq \<times> cq_poll_state \<times> 'n world)) option" where
  "acq_poll_body nic room cst =
     (case cst of
        (c, WaitingFd, w) \<Rightarrow>
          (case on_hw (fd_poll_readable nic (ac_channel c)) w of
             (Pending, w) \<Rightarrow> Some (Inr (Pending, c, WaitingFd, w))
           | (Ready (Inl e), w) \<Rightarrow> Some (Inr (Ready (Err (Verbs e)), c, WaitingFd, w))
           | (Ready (Inr _), w) \<Rightarrow>
               (case drain_channel_events nic c w of
                  None \<Rightarrow> None
                | Some (Ok _, c, w) \<Rightarrow> acq_arm_and_drain nic room c w
                | Some (Err e, c, w) \<Rightarrow> Some (Inr (Ready (Err e), c, WaitingFd, w))
                | Some (Panic, c, w) \<Rightarrow> Some (Inr (Ready Panic, c, WaitingFd, w))))
      | (c, CqIdle, w) \<Rightarrow> acq_arm_and_drain nic room c w)"

definition acq_poll_completions ::
    "'n nic \<Rightarrow> nat \<Rightarrow> async_cq \<Rightarrow> cq_poll_state \<Rightarrow> 'n world \<Rightarrow>
       ((wc list res) poll \<times> async_cq \<times> cq_poll_state \<times> 'n world) option" where
  "acq_poll_completions nic room c st w = loop (acq_poll_body nic room) (c, st, w)"

text \<open>\<open>AsyncCq::poll\<close> awaited under a deadline: \<open>Err (Timeout label)\<close> when it passes.\<close>

definition acq_poll_async_body ::
    "'n nic \<Rightarrow> string \<Rightarrow> nat \<Rightarrow> async_cq \<times> 'n world \<Rightarrow>
       ((async_cq \<times> 'n world) + (wc list res \<times> async_cq \<times> 'n world)) option" where
  "acq_poll_async_body nic label room cw =
     (let (c, w) = cw in
      case cq_req_notify nic (ac_cq c) w of
        (Err e, w) \<Rightarrow> Some (Inr (Err e, c, w))
      | (Panic, w) \<Rightarrow> Some (Inr (Panic, c, w))
      | (Ok _, w) \<Rightarrow>
          (case cq_poll nic (ac_cq c) room w of
             (Err e, w) \<Rightarrow> Some (Inr (Err e, c, w))
           | (Panic, w) \<Rightarrow> Some (Inr (Panic, c, w))
           | (Ok wcs, w) \<Rightarrow>
               if length wcs > 0 then Some (Inr (Ok wcs, c, w))
               else
                 (case on_hw (fd_wait nic (ac_channel c)) w of
                    (None, w) \<Rightarrow> Some (Inr (Err (Timeout label), c, w))
                  | (Some (Inl e), w) \<Rightarrow> Some (Inr (Err (Verbs e), c, w))
                  | (Some (Inr _), w) \<Rightarrow>
                      (case drain_channel_events nic c w of
                         None \<Rightarrow> None
                       | Some (Ok _, c, w) \<Rightarrow> Some (Inl (c, w))
                       | Some (Err e, c, w) \<Rightarrow> Some (Inr (Err e, c, w))
                       | Some (Panic, c, w) \<Rightarrow> Some (Inr (Panic, c, w))))))"

subsection \<open>Completion sources\<close>

datatype source =
    ArmPark async_cq cq_poll_state
  | Driver nat dir

definition SETUP_DRAIN_POLLS :: nat where "SETUP_DRAIN_POLLS = 100"

definition poll_completions ::
    "'n nic \<Rightarrow> nat \<Rightarrow> nat \<Rightarrow> source \<Rightarrow> 'n world \<Rightarrow>
       ((wc list res) poll \<times> source \<times> 'n world) option" where
  "poll_completions nic task room src w =
     (case src of
        ArmPark c st \<Rightarrow>
          map_option (\<lambda>(p, c, st, w). (p, ArmPark c st, w)) (acq_poll_completions nic room c st w)
      | Driver i d \<Rightarrow>
          let (p, s) = poll_inbox d task room (slots w i)
          in Some (p, Driver i d, upd_slot i (\<lambda>_. s) w))"

text \<open>\<open>acquire\<close> of a driver-fed source: poll the inbox, and let the other tasks run.\<close>

definition acquire_inbox_body ::
    "'n nic \<Rightarrow> string \<Rightarrow> nat \<Rightarrow> nat \<Rightarrow> nat \<Rightarrow> dir \<Rightarrow> 'n world \<Rightarrow>
       ('n world + (wc list res \<times> 'n world)) option" where
  "acquire_inbox_body nic label task room i d w =
     (let (p, s) = poll_inbox d task room (slots w i); w = upd_slot i (\<lambda>_. s) w in
      case p of
        Ready r \<Rightarrow> Some (Inr (r, w))
      | Pending \<Rightarrow>
          let (again, w) = task_wait nic w in
          Some (if again then Inl w else Inr (Err (Timeout label), w)))"

definition acquire ::
    "'n nic \<Rightarrow> string \<Rightarrow> nat \<Rightarrow> nat \<Rightarrow> source \<Rightarrow> 'n world \<Rightarrow>
       (wc list res \<times> source \<times> 'n world) option" where
  "acquire nic label task room src w =
     (case src of
        ArmPark c st \<Rightarrow>
          map_option (\<lambda>(r, c, w). (r, ArmPark c st, w)) (loop (acq_poll_async_body nic label room) (c, w))
      | Driver i d \<Rightarrow>
          map_option (\<lambda>(r, w). (r, Driver i d, w)) (loop (acquire_inbox_body nic label task room i d) w))"

definition try_drain :: "'n nic \<Rightarrow> nat \<Rightarrow> source \<Rightarrow> 'n world \<Rightarrow> wc list res \<times> 'n world" where
  "try_drain nic room src w =
     (case src of
        ArmPark c st \<Rightarrow> cq_poll nic (ac_cq c) room w
      | Driver i d \<Rightarrow> (Ok [], w))"

definition drain_once :: "'n nic \<Rightarrow> nat \<Rightarrow> source \<Rightarrow> 'n world \<Rightarrow> wc list res \<times> 'n world" where
  "drain_once nic room src w =
     (case src of
        ArmPark c st \<Rightarrow>
          let (r, w) = cq_req_notify nic (ac_cq c) w in
          (case r of
             Ok _ \<Rightarrow> cq_poll nic (ac_cq c) room w
           | Err e \<Rightarrow> (Err e, w)
           | Panic \<Rightarrow> (Panic, w))
      | Driver i d \<Rightarrow>
          let (out, s) = drain_inbox d room (slots w i) in (Ok out, upd_slot i (\<lambda>_. s) w))"

text \<open>The bounded spin of \<open>drain_setup\<close>, \<open>k\<close> turns left.\<close>

fun drain_setup_loop :: "'n nic \<Rightarrow> nat \<Rightarrow> nat \<Rightarrow> nat \<Rightarrow> 'n world \<Rightarrow> nat res \<times> 'n world" where
  "drain_setup_loop nic cq 0 tot w = (Ok tot, w)"
| "drain_setup_loop nic cq (Suc k) tot w =
     (let (r, w) = cq_req_notify nic cq w in
      case r of
        Err e \<Rightarrow> (Err e, w)
      | Panic \<Rightarrow> (Panic, w)
      | Ok _ \<Rightarrow>
          let (r, w) = cq_poll nic cq 16 w in
          (case r of
            Ok wcs \<Rightarrow>
              if length wcs = 0 then
                (if tot > 0 then (Ok tot, w) else drain_setup_loop nic cq k tot w)
              else drain_setup_loop nic cq k (tot + length wcs) w
          | Err e \<Rightarrow> (Err e, w)
          | Panic \<Rightarrow> (Panic, w)))"

definition drain_setup :: "'n nic \<Rightarrow> source \<Rightarrow> 'n world \<Rightarrow> nat res \<times> 'n world" where
  "drain_setup nic src w =
     (case src of
        ArmPark c st \<Rightarrow> drain_setup_loop nic (ac_cq c) SETUP_DRAIN_POLLS 0 w
      | Driver i d \<Rightarrow> (Ok 0, w))"

subsection \<open>What the callers rely on\<close>

lemma on_hw_slots [simp]: "slots (snd (on_hw f w)) = slots w"
  by (simp add: on_hw_def split: prod.splits)

lemma on_hwD: "on_hw f w = (a, w') \<Longrightarrow> f (hw w) = (a, hw w') \<and> slots w' = slots w"
  by (auto simp: on_hw_def split: prod.splits)

lemma cq_poll_Ok: "cq_poll nic cq room w = (Ok wcs, w') \<Longrightarrow> length wcs \<le> room \<and> slots w' = slots w"
  by (auto simp: cq_poll_def dest!: on_hwD split: prod.splits sum.splits)

lemma cq_poll_not_Panic: "cq_poll nic cq room w \<noteq> (Panic, w')"
  by (auto simp: cq_poll_def split: prod.splits sum.splits)

lemma cq_req_notify_not_Panic: "cq_req_notify nic cq w \<noteq> (Panic, w')"
  by (auto simp: cq_req_notify_def split: prod.splits)

lemmas source_splits = prod.splits outcome.splits poll.splits sum.splits option.splits if_splits
  cq_poll_state.splits

lemma acq_arm_and_drain_batch:
  "acq_arm_and_drain nic room c w = Some (Inr (Ready (Ok wcs), c', st', w')) \<Longrightarrow>
     wcs \<noteq> [] \<and> length wcs \<le> room"
  by (auto simp: acq_arm_and_drain_def dest: cq_poll_Ok split: source_splits)

lemma acq_poll_body_batch:
  "acq_poll_body nic room s = Some (Inr (Ready (Ok wcs), c', st', w')) \<Longrightarrow>
     wcs \<noteq> [] \<and> length wcs \<le> room"
  by (auto simp: acq_poll_body_def dest: acq_arm_and_drain_batch split: source_splits)

lemma poll_inbox_batch:
  "poll_inbox d task room s = (Ready (Ok wcs), s') \<Longrightarrow> wcs \<noteq> [] \<and> length wcs \<le> room"
  by (auto simp: poll_inbox_def drain_inbox_def inbox_drain_def Let_def split: source_splits)

text \<open>A \<open>Ready(Ok(n))\<close> carries at least one completion and no more than the buffer holds.\<close>

lemma poll_completions_batch:
  assumes "poll_completions nic task room src w = Some (Ready (Ok wcs), src', w')"
  shows "wcs \<noteq> [] \<and> length wcs \<le> room"
proof (cases src)
  case (ArmPark c st)
  from assms ArmPark obtain c' st' where
    "loop (acq_poll_body nic room) (c, st, w) = Some (Ready (Ok wcs), c', st', w')"
    by (auto simp: poll_completions_def acq_poll_completions_def)
  then have "case (Ready (Ok wcs) :: wc list res poll, c', st', w') of (p, _) \<Rightarrow>
      \<forall>ws. p = Ready (Ok ws) \<longrightarrow> ws \<noteq> [] \<and> length ws \<le> room"
    by (rule loop_inv [where P = "\<lambda>_. True" and Q = "\<lambda>(p, _).
          \<forall>ws. p = Ready (Ok ws) \<longrightarrow> ws \<noteq> [] \<and> length ws \<le> room"])
      (auto dest: acq_poll_body_batch)
  then show ?thesis by simp
next
  case (Driver i d)
  with assms show ?thesis
    by (auto simp: poll_completions_def split: prod.splits dest: poll_inbox_batch)
qed

text \<open>
  The kind of a source, and the direction it delivers, never change.
\<close>

lemma poll_completions_Driver:
  "poll_completions nic task room (Driver i d) w = Some (p, src', w') \<Longrightarrow> src' = Driver i d"
  by (auto simp: poll_completions_def split: prod.splits)

text \<open>
  Drain after arm: what the device documents is that a completion queue that was armed and
  then polled empty notifies its channel on the next completion. \<open>armed\<close> names that
  condition; the device keeps it while the reactor answers \<open>Pending\<close>.
\<close>

definition arm_contract :: "'n nic \<Rightarrow> nat \<Rightarrow> nat \<Rightarrow> ('n \<Rightarrow> bool) \<Rightarrow> bool" where
  "arm_contract nic cq ch armed \<longleftrightarrow>
     (\<forall>n n1 n2 room. ibv_req_notify_cq nic cq n = (0, n1) \<longrightarrow> ibv_poll_cq nic cq room n1 = (Inr [], n2)
        \<longrightarrow> armed n2)
     \<and> (\<forall>n n'. armed n \<longrightarrow> fd_poll_readable nic ch n = (Pending, n') \<longrightarrow> armed n')"

lemma acq_arm_and_drain_Pending:
  assumes "arm_contract nic (ac_cq c) (ac_channel c) armed" "0 < room"
    and "acq_arm_and_drain nic room c w = Some (Inr (Pending, c', st', w'))"
  shows "st' = WaitingFd \<and> armed (hw w')"
proof -
  from assms(3) obtain w1 w2 where
    n: "cq_req_notify nic (ac_cq c) w = (Ok (), w1)"
    and p: "cq_poll nic (ac_cq c) room w1 = (Ok [], w2)"
    and f: "on_hw (fd_poll_readable nic (ac_channel c)) w2 = (Pending, w')"
    and st: "st' = WaitingFd"
    by (auto simp: acq_arm_and_drain_def split: source_splits)
  from n have "ibv_req_notify_cq nic (ac_cq c) (hw w) = (0, hw w1)"
    by (auto simp: cq_req_notify_def from_ret_def dest!: on_hwD split: prod.splits if_splits)
  moreover from p \<open>0 < room\<close> have "ibv_poll_cq nic (ac_cq c) room (hw w1) = (Inr [], hw w2)"
    by (auto simp: cq_poll_def dest!: on_hwD split: prod.splits sum.splits)
  moreover from f have "fd_poll_readable nic (ac_channel c) (hw w2) = (Pending, hw w')"
    by (simp add: on_hwD)
  ultimately show ?thesis using assms(1) st unfolding arm_contract_def by blast
qed

lemma drain_channel_events_handles:
  assumes "drain_channel_events nic c w = Some (r, c', w')"
  shows "ac_cq c' = ac_cq c \<and> ac_channel c' = ac_channel c \<and> slots w' = slots w"
proof -
  have "case (r, c', w') of (_, c1, w1) \<Rightarrow>
      ac_cq c1 = ac_cq c \<and> ac_channel c1 = ac_channel c \<and> slots w1 = slots w"
    using assms unfolding drain_channel_events_def
    by (rule loop_inv [where P = "\<lambda>(c1, w1).
          ac_cq c1 = ac_cq c \<and> ac_channel c1 = ac_channel c \<and> slots w1 = slots w"])
      (auto simp: drain_channel_body_def get_cq_event_def ack_event_def Let_def dest!: on_hwD
        split: source_splits)
  then show ?thesis by simp
qed

lemma acq_arm_and_drain_handles:
  "acq_arm_and_drain nic room c w = Some (Inl (c', st', w')) \<Longrightarrow>
     ac_cq c' = ac_cq c \<and> ac_channel c' = ac_channel c \<and> st' = CqIdle"
  by (auto simp: acq_arm_and_drain_def dest: drain_channel_events_handles split: source_splits)

lemma acq_poll_body_handles:
  assumes "acq_poll_body nic room (c, st, w) = Some (Inl (c', st', w'))"
  shows "ac_cq c' = ac_cq c \<and> ac_channel c' = ac_channel c \<and> st' = CqIdle"
proof (cases st)
  case CqIdle
  with assms show ?thesis by (auto simp: acq_poll_body_def dest: acq_arm_and_drain_handles)
next
  case WaitingFd
  with assms obtain w1 c2 w2 where "drain_channel_events nic c w1 = Some (Ok (), c2, w2)"
    "acq_arm_and_drain nic room c2 w2 = Some (Inl (c', st', w'))"
    by (auto simp: acq_poll_body_def split: source_splits)
  then show ?thesis using acq_arm_and_drain_handles drain_channel_events_handles by metis
qed

lemma acq_arm_and_drain_exit_handles:
  "acq_arm_and_drain nic room c w = Some (Inr (p, c', st', w')) \<Longrightarrow> ac_cq c' = ac_cq c"
  by (auto simp: acq_arm_and_drain_def dest: drain_channel_events_handles split: source_splits)

lemma acq_poll_body_exit_handles:
  assumes "acq_poll_body nic room (c, st, w) = Some (Inr (p, c', st', w'))"
  shows "ac_cq c' = ac_cq c"
proof (cases st)
  case CqIdle
  with assms show ?thesis by (auto simp: acq_poll_body_def dest: acq_arm_and_drain_exit_handles)
next
  case WaitingFd
  with assms consider "c' = c"
    | w1 r2 w2 where "drain_channel_events nic c w1 = Some (r2, c', w2)"
    | w1 r2 c2 w2 where "drain_channel_events nic c w1 = Some (r2, c2, w2)"
        "acq_arm_and_drain nic room c2 w2 = Some (Inr (p, c', st', w'))"
    by (auto simp: acq_poll_body_def split: source_splits)
  then show ?thesis
    by cases (simp, metis drain_channel_events_handles,
        metis drain_channel_events_handles acq_arm_and_drain_exit_handles)
qed

lemma acq_poll_body_Pending:
  assumes "arm_contract nic (ac_cq c) (ac_channel c) armed" "0 < room"
    and "st = WaitingFd \<longrightarrow> armed (hw w)"
    and "acq_poll_body nic room (c, st, w) = Some (Inr (Pending, c', st', w'))"
  shows "st' = WaitingFd \<and> armed (hw w')"
proof (cases st)
  case CqIdle
  with assms show ?thesis by (auto simp: acq_poll_body_def dest: acq_arm_and_drain_Pending)
next
  case WaitingFd
  with assms(4) consider
      "on_hw (fd_poll_readable nic (ac_channel c)) w = (Pending, w')" "st' = WaitingFd"
    | w1 c2 w2 where "drain_channel_events nic c w1 = Some (Ok (), c2, w2)"
        "acq_arm_and_drain nic room c2 w2 = Some (Inr (Pending, c', st', w'))"
    by (auto simp: acq_poll_body_def split: source_splits)
  then show ?thesis
  proof cases
    case 1
    with assms(1,3) WaitingFd show ?thesis by (auto simp: arm_contract_def dest!: on_hwD)
  next
    case 2
    then show ?thesis
      using assms(1,2) drain_channel_events_handles [OF 2(1)] acq_arm_and_drain_Pending by metis
  qed
qed

lemma acq_poll_Pending:
  assumes "arm_contract nic (ac_cq c) (ac_channel c) armed" "0 < room"
    and "st = WaitingFd \<longrightarrow> armed (hw w)"
    and "acq_poll_completions nic room c st w = Some (Pending, c', st', w')"
  shows "st' = WaitingFd \<and> armed (hw w')"
proof -
  let ?P = "\<lambda>(c1, st1, w1). ac_cq c1 = ac_cq c \<and> ac_channel c1 = ac_channel c
     \<and> (st1 = WaitingFd \<longrightarrow> armed (hw w1))"
  let ?Q = "\<lambda>(p :: wc list res poll, c1 :: async_cq, st1, w1).
     p = Pending \<longrightarrow> st1 = WaitingFd \<and> armed (hw w1)"
  have "?Q (Pending, c', st', w')"
  proof (rule loop_inv [where P = ?P and Q = ?Q])
    show "loop (acq_poll_body nic room) (c, st, w) = Some (Pending, c', st', w')"
      using assms(4) by (simp add: acq_poll_completions_def)
    show "?P (c, st, w)" using assms(3) by simp
  next
    fix s s' assume "?P s" "acq_poll_body nic room s = Some (Inl s')"
    then show "?P s'" by (cases s; cases s') (auto dest: acq_poll_body_handles)
  next
    fix s r assume "?P s" "acq_poll_body nic room s = Some (Inr r)"
    then show "?Q r"
      using assms(1,2) by (cases s; cases r) (auto dest: acq_poll_body_Pending [of nic _ armed, rotated -1])
  qed
  then show ?thesis by simp
qed

subsection \<open>Which work requests the device still owns\<close>

text \<open>
  The documented life of a send work request: a successful post hands it to the device and
  a completion for it hands it back; no other call changes what the device owns. \<open>out n\<close>
  is the set of ids the device owns in state \<open>n\<close>.
\<close>

definition quiet :: "'n nic \<Rightarrow> ('n \<Rightarrow> 'x) \<Rightarrow> bool" where
  "quiet nic out \<longleftrightarrow>
     (\<forall>q wr n. out (snd (ibv_post_recv nic q wr n)) = out n)
     \<and> (\<forall>c n. out (snd (ibv_req_notify_cq nic c n)) = out n)
     \<and> (\<forall>c n. out (snd (ibv_get_cq_event nic c n)) = out n)
     \<and> (\<forall>c k n. out (ibv_ack_cq_events nic c k n) = out n)
     \<and> (\<forall>c n. out (snd (fd_poll_readable nic c n)) = out n)
     \<and> (\<forall>c n. out (snd (rdma_get_cm_event nic c n)) = out n)
     \<and> (\<forall>c n. out (rdma_ack_cm_event nic c n) = out n)
     \<and> (\<forall>c n. out (snd (rdma_disconnect nic c n)) = out n)"

definition sq_contract :: "'n nic \<Rightarrow> u32 \<Rightarrow> nat \<Rightarrow> ('n \<Rightarrow> u64 set) \<Rightarrow> bool" where
  "sq_contract nic qpn cq out \<longleftrightarrow>
     quiet nic out
     \<and> (\<forall>wr n r n'. ibv_post_send nic qpn wr n = (r, n') \<longrightarrow>
          out n' = (if r = 0 then insert (swr_id wr) (out n) else out n))
     \<and> (\<forall>c room n r n'. ibv_poll_cq nic c room n = (r, n') \<longrightarrow>
          (case r of
             Inl _ \<Rightarrow> out n' = out n
           | Inr wcs \<Rightarrow> length wcs \<le> room \<and> out n' = (if c = cq then out n - wr_id ` set wcs else out n)))"

lemma quietD:
  assumes "quiet nic out"
  shows "ibv_post_recv nic q rwr n = (r, n') \<Longrightarrow> out n' = out n"
    "ibv_req_notify_cq nic c n = (r, n') \<Longrightarrow> out n' = out n"
    "ibv_get_cq_event nic c n = (r, n') \<Longrightarrow> out n' = out n"
    "out (ibv_ack_cq_events nic c k n) = out n"
    "fd_poll_readable nic c n = (p, n') \<Longrightarrow> out n' = out n"
    "rdma_get_cm_event nic c n = (e, n') \<Longrightarrow> out n' = out n"
    "out (rdma_ack_cm_event nic c n) = out n"
    "rdma_disconnect nic i n = (r, n') \<Longrightarrow> out n' = out n"
  using assms unfolding quiet_def by (metis snd_conv)+

lemma sq_quiet: "sq_contract nic qpn cq out \<Longrightarrow> quiet nic out"
  by (simp add: sq_contract_def)

lemma hw_account [simp]: "hw (account qp d w) = hw w"
  by (simp add: account_def upd_slot_def split: option.splits)

lemma post_recv_wrD:
  assumes "post_recv_wr nic qp wr w = (r, w')"
  shows "\<exists>ret. ibv_post_recv nic (aq_qpn qp) wr (hw w) = (ret, hw w') \<and> r = from_ret ret"
proof -
  obtain ret w1 where p: "on_hw (ibv_post_recv nic (aq_qpn qp) wr) w = (ret, w1)" by (rule prod.exhaust)
  from on_hwD [OF p] have call: "ibv_post_recv nic (aq_qpn qp) wr (hw w) = (ret, hw w1)" by blast
  show ?thesis
  proof (cases "ret = 0")
    case True
    with assms p have "r = Ok ()" "w' = account qp Recv w1"
      by (simp_all add: post_recv_wr_def from_ret_def)
    with call True show ?thesis by (simp add: from_ret_def)
  next
    case False
    with assms p have "r = Err (Verbs (- ret))" "w' = w1"
      by (simp_all add: post_recv_wr_def from_ret_def)
    with call False show ?thesis by (simp add: from_ret_def)
  qed
qed

lemma post_send_wrD:
  assumes "post_send_wr nic qp wr w = (r, w')"
  shows "\<exists>ret. ibv_post_send nic (aq_qpn qp) wr (hw w) = (ret, hw w') \<and> r = from_ret ret"
proof -
  obtain ret w1 where p: "on_hw (ibv_post_send nic (aq_qpn qp) wr) w = (ret, w1)" by (rule prod.exhaust)
  from on_hwD [OF p] have call: "ibv_post_send nic (aq_qpn qp) wr (hw w) = (ret, hw w1)" by blast
  show ?thesis
  proof (cases "ret = 0")
    case True
    with assms p have "r = Ok ()" "w' = account qp Send w1"
      by (simp_all add: post_send_wr_def from_ret_def)
    with call True show ?thesis by (simp add: from_ret_def)
  next
    case False
    with assms p have "r = Err (Verbs (- ret))" "w' = w1"
      by (simp_all add: post_send_wr_def from_ret_def)
    with call False show ?thesis by (simp add: from_ret_def)
  qed
qed

lemma from_ret_Ok [simp]: "from_ret r = Ok u \<longleftrightarrow> r = 0"
  by (simp add: from_ret_def)

lemma post_recv_wr_out:
  assumes "quiet nic out" "post_recv_wr nic qp wr w = (r, w')"
  shows "out (hw w') = out (hw w)"
  using post_recv_wrD [OF assms(2)] quietD(1) [OF assms(1)] by blast

lemma post_send_wr_out:
  assumes "sq_contract nic (aq_qpn qp) cq out" "post_send_wr nic qp wr w = (r, w')"
  shows "out (hw w') = (if r = Ok () then insert (swr_id wr) (out (hw w)) else out (hw w))"
proof -
  from post_send_wrD [OF assms(2)] obtain ret
    where "ibv_post_send nic (aq_qpn qp) wr (hw w) = (ret, hw w')" "r = from_ret ret" by blast
  with assms(1) show ?thesis by (simp add: sq_contract_def)
qed

text \<open>
  What polling does to the device's account \<open>out\<close>: only polling queue \<open>cq\<close> changes it, by
  the relation \<open>R\<close> to what was reaped. Sets of owned requests and queues of them are the
  two instances.
\<close>

definition poll_law :: "'n nic \<Rightarrow> nat \<Rightarrow> ('n \<Rightarrow> 'x) \<Rightarrow> ('x \<Rightarrow> wc list \<Rightarrow> 'x \<Rightarrow> bool) \<Rightarrow> bool" where
  "poll_law nic cq out R \<longleftrightarrow>
     quiet nic out \<and> (\<forall>x y. R x [] y \<longleftrightarrow> y = x)
     \<and> (\<forall>c room n r n'. ibv_poll_cq nic c room n = (r, n') \<longrightarrow>
          (case r of
             Inl _ \<Rightarrow> out n' = out n
           | Inr wcs \<Rightarrow> length wcs \<le> room
               \<and> (if c = cq then R (out n) wcs (out n') else out n' = out n)))"

lemma poll_law_sq:
  assumes "sq_contract nic qpn cq out"
  shows "poll_law nic cq out (\<lambda>x wcs y. y = x - wr_id ` set wcs)"
proof -
  have "case r of Inl _ \<Rightarrow> out n' = out n | Inr wcs \<Rightarrow> length wcs \<le> room
      \<and> (if c = cq then out n' = out n - wr_id ` set wcs else out n' = out n)"
    if "ibv_poll_cq nic c room n = (r, n')" for c room n r n'
  proof -
    from assms that have "case r of Inl _ \<Rightarrow> out n' = out n
       | Inr wcs \<Rightarrow> length wcs \<le> room \<and> out n' = (if c = cq then out n - wr_id ` set wcs else out n)"
      unfolding sq_contract_def by blast
    then show ?thesis by (cases r) auto
  qed
  with sq_quiet [OF assms] show ?thesis by (simp add: poll_law_def)
qed

lemma poll_lawD:
  assumes "poll_law nic cq out R"
  shows "quiet nic out" "R x [] y \<longleftrightarrow> y = x"
  using assms by (simp_all add: poll_law_def)

definition reaped :: "(wc list res) poll \<Rightarrow> wc list" where
  "reaped p = (case p of Ready (Ok wcs) \<Rightarrow> wcs | _ \<Rightarrow> [])"

lemma reaped_simps [simp]:
  "reaped Pending = []" "reaped (Ready (Ok wcs)) = wcs" "reaped (Ready (Err e)) = []"
  "reaped (Ready Panic) = []"
  by (simp_all add: reaped_def)

text \<open>What one poll of an arm-and-park source on queue \<open>c\<close> takes from the device.\<close>

definition took ::
    "('x \<Rightarrow> wc list \<Rightarrow> 'x \<Rightarrow> bool) \<Rightarrow> nat \<Rightarrow> nat \<Rightarrow> ('n \<Rightarrow> 'x) \<Rightarrow> 'n world \<Rightarrow> wc list \<Rightarrow> 'n world \<Rightarrow> bool" where
  "took R c cq out w wcs w' \<longleftrightarrow>
     (if c = cq then R (out (hw w)) wcs (out (hw w')) else out (hw w') = out (hw w))"

lemma cq_poll_out:
  assumes "poll_law nic cq out R" "cq_poll nic c room w = (r, w')"
  shows "took R c cq out w (case r of Ok wcs \<Rightarrow> wcs | _ \<Rightarrow> []) w'"
proof -
  obtain x w1 where p: "on_hw (ibv_poll_cq nic c room) w = (x, w1)" by (rule prod.exhaust)
  then have "ibv_poll_cq nic c room (hw w) = (x, hw w1)" by (simp add: on_hwD)
  with assms(1) have x: "case x of Inl _ \<Rightarrow> out (hw w1) = out (hw w)
     | Inr wcs \<Rightarrow> length wcs \<le> room
         \<and> (if c = cq then R (out (hw w)) wcs (out (hw w1)) else out (hw w1) = out (hw w))"
    unfolding poll_law_def by blast
  show ?thesis
  proof (cases x)
    case (Inl e)
    with p assms(2) have "r = Err (Verbs e)" "w' = w1" by (simp_all add: cq_poll_def)
    with x Inl show ?thesis by (simp add: took_def poll_lawD(2) [OF assms(1)])
  next
    case (Inr wcs)
    with p assms(2) have "r = Ok (take room wcs)" "w' = w1" by (simp_all add: cq_poll_def)
    with x Inr show ?thesis by (simp add: took_def)
  qed
qed

lemma drain_channel_body_out:
  assumes "quiet nic out" "drain_channel_body nic (c, w) = Some x"
  shows "case x of Inl (c', w') \<Rightarrow> out (hw w') = out (hw w) | Inr (r, c', w') \<Rightarrow> out (hw w') = out (hw w)"
proof -
  obtain ret w1 where g: "on_hw (ibv_get_cq_event nic (ac_channel c)) w = (ret, w1)" by (rule prod.exhaust)
  then have "out (hw w1) = out (hw w)" using quietD(3) [OF assms(1)] on_hwD [OF g] by blast
  then show ?thesis
    using assms(2) g
    by (auto simp: drain_channel_body_def get_cq_event_def ack_event_def Let_def quietD(4) [OF assms(1)]
        split: if_splits)
qed

lemma drain_channel_events_out:
  assumes "quiet nic out" "drain_channel_events nic c w = Some (r, c', w')"
  shows "out (hw w') = out (hw w)"
proof -
  let ?P = "\<lambda>(c1 :: async_cq, w1). out (hw w1) = out (hw w)"
  let ?Q = "\<lambda>(r1 :: unit res, c1 :: async_cq, w1). out (hw w1) = out (hw w)"
  have "?Q (r, c', w')"
  proof (rule loop_inv [where P = ?P and Q = ?Q])
    show "loop (drain_channel_body nic) (c, w) = Some (r, c', w')"
      using assms(2) by (simp add: drain_channel_events_def)
  next
    fix s s' assume "?P s" "drain_channel_body nic s = Some (Inl s')"
    then show "?P s'" using drain_channel_body_out [OF assms(1)] by (cases s; cases s') fastforce
  next
    fix s q assume "?P s" "drain_channel_body nic s = Some (Inr q)"
    then show "?Q q" using drain_channel_body_out [OF assms(1)] by (cases s; cases q) fastforce
  qed simp
  then show ?thesis by simp
qed

lemma arm_out:
  assumes "quiet nic out" "cq_req_notify nic c w = (r, w')"
  shows "out (hw w') = out (hw w)"
proof -
  obtain ret w1 where g: "on_hw (ibv_req_notify_cq nic c) w = (ret, w1)" by (rule prod.exhaust)
  with assms(2) have "w' = w1" by (simp add: cq_req_notify_def)
  with on_hwD [OF g] quietD(2) [OF assms(1)] show ?thesis by blast
qed

lemma fd_out:
  assumes "quiet nic out" "on_hw (fd_poll_readable nic c) w = (p, w')"
  shows "out (hw w') = out (hw w)"
  using on_hwD [OF assms(2)] quietD(5) [OF assms(1)] by blast

lemma acq_arm_and_drain_out:
  assumes "poll_law nic cq out R" "acq_arm_and_drain nic room c w = Some x"
  shows "case x of
      Inl (c', st', w') \<Rightarrow> out (hw w') = out (hw w)
    | Inr (p, c', st', w') \<Rightarrow> took R (ac_cq c) cq out w (reaped p) w'"
proof -
  note q = poll_lawD(1) [OF assms(1)]
  obtain r1 w1 where n: "cq_req_notify nic (ac_cq c) w = (r1, w1)" by (rule prod.exhaust)
  obtain r2 w2 where p: "cq_poll nic (ac_cq c) room w1 = (r2, w2)" by (rule prod.exhaust)
  obtain r3 w3 where f: "on_hw (fd_poll_readable nic (ac_channel c)) w2 = (r3, w3)" by (rule prod.exhaust)
  note outs = arm_out [OF q n] cq_poll_out [OF assms(1) p] fd_out [OF q f]
  show ?thesis
    using assms(2) outs
    by (auto simp: acq_arm_and_drain_def n p f took_def poll_lawD(2) [OF assms(1)]
        dest: drain_channel_events_out [OF q] split: source_splits)
qed

lemma acq_poll_body_out:
  assumes "poll_law nic cq out R" "acq_poll_body nic room (c, st, w) = Some x"
  shows "case x of
      Inl (c', st', w') \<Rightarrow> out (hw w') = out (hw w)
    | Inr (p, c', st', w') \<Rightarrow> took R (ac_cq c) cq out w (reaped p) w'"
proof (cases st)
  case CqIdle
  with assms show ?thesis by (simp add: acq_poll_body_def acq_arm_and_drain_out)
next
  case WaitingFd
  note q = poll_lawD(1) [OF assms(1)] and e = poll_lawD(2) [OF assms(1)]
  obtain r1 w1 where f: "on_hw (fd_poll_readable nic (ac_channel c)) w = (r1, w1)" by (rule prod.exhaust)
  note f1 = fd_out [OF q f]
  show ?thesis
  proof (cases r1)
    case Pending
    with WaitingFd f f1 assms(2) show ?thesis by (auto simp: acq_poll_body_def took_def e)
  next
    case (Ready y)
    show ?thesis
    proof (cases y)
      case (Inl err)
      with WaitingFd Ready f f1 assms(2) show ?thesis by (auto simp: acq_poll_body_def took_def e)
    next
      case (Inr u)
      with WaitingFd Ready f assms(2) obtain r2 c2 w2
        where d: "drain_channel_events nic c w1 = Some (r2, c2, w2)"
        by (cases "drain_channel_events nic c w1") (auto simp: acq_poll_body_def)
      note d1 = drain_channel_events_out [OF q d] drain_channel_events_handles [OF d]
      show ?thesis
      proof (cases r2)
        case (Ok u')
        with WaitingFd Ready Inr f d assms(2) have "acq_arm_and_drain nic room c2 w2 = Some x"
          by (simp add: acq_poll_body_def)
        from acq_arm_and_drain_out [OF assms(1) this] d1 f1 show ?thesis
          by (auto simp: took_def split: sum.splits)
      qed (use WaitingFd Ready Inr f d assms(2) d1 f1 in \<open>auto simp: acq_poll_body_def took_def e\<close>)
    qed
  qed
qed

lemma poll_completions_ArmPark:
  assumes "poll_law nic cq out R"
    and "poll_completions nic task room (ArmPark c st) w = Some (p, src', w')"
  shows "(\<exists>c' st'. src' = ArmPark c' st' \<and> ac_cq c' = ac_cq c) \<and> took R (ac_cq c) cq out w (reaped p) w'"
proof -
  from assms(2) obtain c' st' where l: "loop (acq_poll_body nic room) (c, st, w) = Some (p, c', st', w')"
    and src: "src' = ArmPark c' st'"
    by (auto simp: poll_completions_def acq_poll_completions_def)
  let ?P = "\<lambda>(c1, st1 :: cq_poll_state, w1). ac_cq c1 = ac_cq c \<and> out (hw w1) = out (hw w)"
  let ?Q = "\<lambda>(p, c1, st1 :: cq_poll_state, w1). ac_cq c1 = ac_cq c \<and> took R (ac_cq c) cq out w (reaped p) w1"
  have "?Q (p, c', st', w')"
  proof (rule loop_inv [OF l, where P = ?P and Q = ?Q])
    fix s s' assume P: "?P s" and b: "acq_poll_body nic room s = Some (Inl s')"
    obtain c1 st1 w1 where s: "s = (c1, st1, w1)" by (cases s)
    obtain c2 st2 w2 where s': "s' = (c2, st2, w2)" by (cases s')
    show "?P s'" using P acq_poll_body_out [OF assms(1) b [unfolded s s']]
        acq_poll_body_handles [OF b [unfolded s s']] by (simp add: s s')
  next
    fix s r assume P: "?P s" and b: "acq_poll_body nic room s = Some (Inr r)"
    obtain c1 st1 w1 where s: "s = (c1, st1, w1)" by (cases s)
    obtain p2 c2 st2 w2 where r: "r = (p2, c2, st2, w2)" by (cases r)
    show "?Q r" using P acq_poll_body_out [OF assms(1) b [unfolded s r]]
        acq_poll_body_exit_handles [OF b [unfolded s r]] by (auto simp: s r took_def)
  qed simp
  with src show ?thesis by auto
qed

subsection \<open>A device to run the model on\<close>

text \<open>
  A device whose state is the list of send work requests it owns: posts always succeed,
  polling queue 0 completes what was posted, in order, and nothing else ever happens. The
  witnesses run the model on it.
\<close>

definition sim_wc :: "u64 \<Rightarrow> wc" where "sim_wc i = wc_default\<lparr>wr_id := i\<rparr>"

definition sim_nic :: "u64 list nic" where
  "sim_nic =
     \<lparr>ibv_post_send = (\<lambda>q wr n. (0, n @ [swr_id wr])),
      ibv_post_recv = (\<lambda>q wr n. (0, n)),
      ibv_poll_cq = (\<lambda>c room n.
        if c = 0 then (Inr (map sim_wc (take room n)), filter (\<lambda>i. i \<notin> set (take room n)) n)
        else (Inr [], n)),
      ibv_req_notify_cq = (\<lambda>c n. (0, n)),
      ibv_get_cq_event = (\<lambda>c n. (EAGAIN, n)),
      ibv_ack_cq_events = (\<lambda>c k n. n),
      fd_poll_readable = (\<lambda>c n. (Pending, n)),
      fd_wait = (\<lambda>c n. (None, n)),
      task_wait = (\<lambda>w. (False, w)),
      rdma_get_cm_event = (\<lambda>c n. (Inl EAGAIN, n)),
      rdma_ack_cm_event = (\<lambda>c n. n),
      rdma_disconnect = (\<lambda>c n. (0, n)),
      qp_cached_state = (\<lambda>q n. 3),
      modify_qp_error = (\<lambda>q n. (0, n)),
      ibv_reg_mr = (\<lambda>b a n. (Inr (4096, 1, 2), n)),
      ibv_alloc_mw = (\<lambda>n. (Inr 5, n)),
      ibv_query_device = (\<lambda>n. None),
      supports_mw_type2 = (\<lambda>n. True),
      host_memory = (\<lambda>m n. mr_bytes m)\<rparr>"

lemma sim_contract: "sq_contract sim_nic q 0 set"
  by (auto simp: sq_contract_def quiet_def sim_nic_def sim_wc_def image_image split: if_splits)

definition slot0 :: conn_slot where
  "slot0 = the_Ok (conn_slot_new 7 4 4)"

definition sim_world :: "'n \<Rightarrow> 'n world" where
  "sim_world n = \<lparr>hw = n, slots = (\<lambda>_. slot0)\<rparr>"

end
