(* ===== verification/Ring.thy ===== *)
theory Ring
  imports Device Wire
begin

section \<open>Building blocks of the ring transports\<close>

text \<open>
  \<^verbatim>\<open>transport_common.rs\<close>: the wrap-around \<open>RingBuffer\<close>, the chase-forward
  \<open>CompletionTracker\<close>, the slot-count arithmetic, the gather copy, the choice between a
  memory window and the region's own key, the setup exchange and its drain, and the helpers
  the three transports share (connection-manager events, teardown drain, doorbells).

  The lemmas show that a reservation is in bounds and disjoint from every byte in use, that
  the tracker advances over exactly the longest released prefix and its loop terminates, the
  bounds of the slot count, and what the shared drains consume.
\<close>

subsection \<open>Constants\<close>

definition TEARDOWN_DRAIN_POLLS :: nat where "TEARDOWN_DRAIN_POLLS = 4096"
definition WR_ID_CREDIT_FLAG :: u64 where "WR_ID_CREDIT_FLAG = 0x8000000000000000"
definition WR_ID_PADDING_SENTINEL :: u64 where "WR_ID_PADDING_SENTINEL = - 1 - 20"
definition WR_ID_RECV_MW_BIND :: u64 where "WR_ID_RECV_MW_BIND = - 1 - 10"
definition WR_ID_TOKEN_SEND :: u64 where "WR_ID_TOKEN_SEND = - 1 - 2"

subsection \<open>RingBuffer\<close>

record ring_buffer =
  rb_mr :: mr
  rb_capacity :: nat
  rb_head :: nat
  rb_tail :: nat

definition ring_new :: "mr \<Rightarrow> nat \<Rightarrow> ring_buffer" where
  "ring_new m cap = \<lparr>rb_mr = m, rb_capacity = cap, rb_head = 0, rb_tail = 0\<rparr>"

definition used :: "ring_buffer \<Rightarrow> nat" where
  "used r = (if rb_tail r \<ge> rb_head r then rb_tail r - rb_head r
             else rb_capacity r - rb_head r + rb_tail r)"

definition available :: "ring_buffer \<Rightarrow> nat" where
  "available r = rb_capacity r - used r - 1"

definition contiguous_free :: "ring_buffer \<Rightarrow> nat" where
  "contiguous_free r =
     (if rb_tail r \<ge> rb_head r then
        (if rb_head r = 0 then rb_capacity r - rb_tail r - 1 else rb_capacity r - rb_tail r)
      else rb_head r - rb_tail r - 1)"

definition reserve :: "nat \<Rightarrow> ring_buffer \<Rightarrow> (nat \<times> nat) option \<times> ring_buffer" where
  "reserve len r =
     (if len = 0 \<or> len > available r then (None, r)
      else
        let contig = contiguous_free r in
        if len \<le> contig then
          (Some (rb_tail r, 0), r\<lparr>rb_tail := (rb_tail r + len) mod rb_capacity r\<rparr>)
        else
          let padding = rb_capacity r - rb_tail r in
          if padding + len > available r + 1 then (None, r)
          else if rb_head r \<le> len then (None, r)
          else (Some (0, padding), r\<lparr>rb_tail := len\<rparr>))"

definition release :: "nat \<Rightarrow> ring_buffer \<Rightarrow> ring_buffer" where
  "release len r = r\<lparr>rb_head := (rb_head r + len) mod rb_capacity r\<rparr>"

subsection \<open>CompletionTracker\<close>

record completion_tracker =
  released :: "bool list"
  head_slot :: nat
  ct_capacity :: nat

definition tracker_new :: "nat \<Rightarrow> completion_tracker" where
  "tracker_new cap = \<lparr>released = replicate cap False, head_slot = 0, ct_capacity = cap\<rparr>"

text \<open>The \<open>while\<close> loop; indexing past the end panics.\<close>

function chase :: "completion_tracker \<Rightarrow> nat \<Rightarrow> nat res \<times> completion_tracker" where
  "chase t advanced =
     (if head_slot t \<ge> length (released t) then (Panic, t)
      else if released t ! head_slot t then
        chase (t\<lparr>released := (released t)[head_slot t := False],
                 head_slot := (head_slot t + 1) mod ct_capacity t\<rparr>) (advanced + 1)
      else (Ok advanced, t))"
  by pat_completeness auto

termination
proof (relation "measure (\<lambda>(t, _). count_list (released t) True)")
  fix t :: completion_tracker and advanced :: nat
  assume "\<not> length (released t) \<le> head_slot t" "released t ! head_slot t"
  then show "((t\<lparr>released := (released t)[head_slot t := False],
      head_slot := (head_slot t + 1) mod ct_capacity t\<rparr>, advanced + 1), t, advanced)
    \<in> measure (\<lambda>(t, _). count_list (released t) True)"
    using count_list_update [of "head_slot t" "released t" False True] by simp
qed simp

declare chase.simps [simp del]

definition tracker_release :: "nat \<Rightarrow> completion_tracker \<Rightarrow> nat res \<times> completion_tracker" where
  "tracker_release slot t =
     (let t = (if slot < ct_capacity t then t\<lparr>released := (released t)[slot := True]\<rparr> else t)
      in chase t 0)"

subsection \<open>Memory-window mode, slot counts, gather\<close>

datatype memory_window_mode = Auto | Require | Disable

text \<open>
  \<open>query_device\<close> (its \<open>max_mw\<close>, or \<open>None\<close> when it fails) and the Type-2 probe are the
  device's.
\<close>

definition device_supports_mw :: "u32 option \<Rightarrow> bool \<Rightarrow> bool" where
  "device_supports_mw max_mw type2 \<longleftrightarrow>
     (case max_mw of Some n \<Rightarrow> n | None \<Rightarrow> 0) \<noteq> 0 \<and> type2"

fun resolve_mr_rkey :: "u32 option \<Rightarrow> bool \<Rightarrow> memory_window_mode \<Rightarrow> bool res" where
  "resolve_mr_rkey max_mw type2 Disable = Ok True"
| "resolve_mr_rkey max_mw type2 Require =
     (if \<not> device_supports_mw max_mw type2
      then Err (InvalidArg ''MemoryWindowMode::Require: device does not support Type-2 Memory Windows'')
      else Ok False)"
| "resolve_mr_rkey max_mw type2 Auto = Ok (\<not> device_supports_mw max_mw type2)"

definition USIZE_MAX :: nat where "USIZE_MAX = 2 ^ 64 - 1"

definition clamp_max_outstanding :: "nat \<Rightarrow> nat \<Rightarrow> nat option \<Rightarrow> nat \<Rightarrow> nat \<Rightarrow> nat" where
  "clamp_max_outstanding ring_capacity max_msg max_in_flight headroom device_limit =
     (let derived = max (ring_capacity div max max_msg 1) 1;
          requested = max (case max_in_flight of Some n \<Rightarrow> n | None \<Rightarrow> derived) 1;
          reserve = max headroom 2;
          device_cap = max (device_limit - reserve) 1
      in max (min requested device_cap) 1)"

definition effective_max_outstanding ::
    "(nat \<times> nat) option \<Rightarrow> nat \<Rightarrow> nat \<Rightarrow> nat option \<Rightarrow> nat \<Rightarrow> nat" where
  "effective_max_outstanding device_attr ring_capacity max_msg max_in_flight headroom =
     (let device_limit = (case device_attr of
            Some (max_qp_wr, max_cqe) \<Rightarrow> min max_qp_wr max_cqe
          | None \<Rightarrow> USIZE_MAX)
      in clamp_max_outstanding ring_capacity max_msg max_in_flight headroom device_limit)"

text \<open>
  The loop of \<open>gather_into\<close>: \<open>dst\<close> is the destination slice, \<open>written\<close> what it holds.
\<close>

fun gather_loop :: "bytes \<Rightarrow> bytes list \<Rightarrow> nat \<Rightarrow> nat \<times> bytes" where
  "gather_loop dst [] written = (written, dst)"
| "gather_loop dst (b # bs) written =
     (if written \<ge> length dst then (written, dst)
      else
        let tk = min (length b) (length dst - written)
        in gather_loop (upd_range dst written (take tk b)) bs (written + tk))"

definition gather_into :: "bytes \<Rightarrow> bytes list \<Rightarrow> nat \<times> bytes" where
  "gather_into dst bufs = gather_loop dst bufs 0"

subsection \<open>Setup: memory window, token exchange, setup completions\<close>

definition bind_recv_mw ::
    "'n nic \<Rightarrow> async_qp \<Rightarrow> mr \<Rightarrow> nat \<Rightarrow> 'n world \<Rightarrow> u32 res \<times> 'n world" where
  "bind_recv_mw nic qp recv_mr ring_capacity w =
     (if \<not> supports_mw_type2 nic (hw w) then (Panic, w)
      else
        case on_hw (ibv_alloc_mw nic) w of
          (Inl e, w) \<Rightarrow> (Err (Verbs e), w)
        | (Inr mw_rkey, w) \<Rightarrow>
            (case post_send_wr nic qp
                (wr_bind_mw mw_rkey (mr_addr recv_mr) (word_of_nat ring_capacity) REMOTE_WRITE
                  (wr_signaled (send_wr_new WR_ID_RECV_MW_BIND WrBindMw))) w of
               (Ok _, w) \<Rightarrow> (Ok mw_rkey, w)
             | (Err e, w) \<Rightarrow> (Err e, w)
             | (Panic, w) \<Rightarrow> (Panic, w)))"

definition post_token_recv :: "'n nic \<Rightarrow> async_qp \<Rightarrow> nat \<Rightarrow> 'n world \<Rightarrow> mr res \<times> 'n world" where
  \<comment> \<open>\<open>tok_size\<close> is \<open>RING_TOKEN_SIZE\<close>, or \<open>READ_RING_TOKEN_SIZE\<close> in the read ring's copy\<close>
  "post_token_recv nic qp tok_size w =
     (case reg_mr_owned nic (replicate tok_size 0) LOCAL_WRITE w of
        (Ok m, w) \<Rightarrow>
          (let sg = \<lparr>sge_addr = mr_addr m, sge_length = word_of_nat tok_size, sge_lkey = mr_lkey m\<rparr> in
           case post_recv_wr nic qp (recv_sg sg (recv_wr_new (- 1))) w of
             (Ok _, w) \<Rightarrow> (Ok m, w)
           | (Err e, w) \<Rightarrow> (Err e, w)
           | (Panic, w) \<Rightarrow> (Panic, w))
      | (Err e, w) \<Rightarrow> (Err e, w)
      | (Panic, w) \<Rightarrow> (Panic, w))"

definition exchange_setup_token ::
    "'n nic \<Rightarrow> nat \<Rightarrow> async_qp \<Rightarrow> source \<Rightarrow> bytes \<Rightarrow> 'n world \<Rightarrow>
       (unit res \<times> source \<times> 'n world) option" where
  "exchange_setup_token nic task qp recv_src token_bytes w =
     (case reg_mr_owned nic token_bytes LOCAL_WRITE w of
        (Ok m, w) \<Rightarrow>
          (let sg = \<lparr>sge_addr = mr_addr m, sge_length = word_of_nat (length token_bytes),
                     sge_lkey = mr_lkey m\<rparr> in
           case post_send_wr nic qp
               (wr_sg sg (wr_signaled_inline (send_wr_new WR_ID_TOKEN_SEND WrSend))) w of
             (Ok _, w) \<Rightarrow>
               (case acquire nic ''ring peer token'' task 4 recv_src w of
                  None \<Rightarrow> None
                | Some (Ok wcs, src, w) \<Rightarrow>
                    (case wcs of
                       c # _ \<Rightarrow> Some (if is_success c then Ok () else Err (wc_error c), src, w)
                     | [] \<Rightarrow> Some (Ok (), src, w))
                | Some (Err e, src, w) \<Rightarrow> Some (Err e, src, w)
                | Some (Panic, src, w) \<Rightarrow> Some (Panic, src, w))
           | (Err e, w) \<Rightarrow> Some (Err e, recv_src, w)
           | (Panic, w) \<Rightarrow> Some (Panic, recv_src, w))
      | (Err e, w) \<Rightarrow> Some (Err e, recv_src, w)
      | (Panic, w) \<Rightarrow> Some (Panic, recv_src, w))"

text \<open>The checks on the peer's token.\<close>

definition check_ring_token :: "ring_token \<Rightarrow> (u64 \<times> u32 \<times> nat) res" where
  "check_ring_token t =
     (if tok_version t \<noteq> RING_TOKEN_VERSION then Err (InvalidArg ''unsupported ring token version'')
      else if tok_capacity t = 0 then Err (InvalidArg ''peer ring capacity is 0'')
      else if unat (tok_capacity t) > 65536 then Err (InvalidArg ''peer ring capacity too large'')
      else Ok (tok_ring_va t, tok_mw_rkey t, unat (tok_capacity t)))"

definition complete_token_exchange ::
    "'n nic \<Rightarrow> nat \<Rightarrow> async_qp \<Rightarrow> source \<Rightarrow> mr \<Rightarrow> u32 \<Rightarrow> mr \<Rightarrow> nat \<Rightarrow> 'n world \<Rightarrow>
       ((u64 \<times> u32 \<times> nat) res \<times> source \<times> 'n world) option" where
  "complete_token_exchange nic task qp recv_src recv_mr mw_rkey token_recv_mr ring_capacity w =
     (let our_token = \<lparr>tok_version = RING_TOKEN_VERSION, tok_reserved = [0, 0, 0],
                       tok_ring_va = mr_addr recv_mr, tok_mw_rkey = mw_rkey,
                       tok_capacity = word_of_nat ring_capacity\<rparr> in
      case exchange_setup_token nic task qp recv_src (token_to_bytes our_token) w of
        None \<Rightarrow> None
      | Some (Ok _, src, w) \<Rightarrow>
          (let buf = host_memory nic token_recv_mr (hw w) in
           if length buf \<noteq> RING_TOKEN_SIZE then Some (Panic, src, w)
           else Some (check_ring_token (token_from_bytes buf), src, w))
      | Some (Err e, src, w) \<Rightarrow> Some (Err e, src, w)
      | Some (Panic, src, w) \<Rightarrow> Some (Panic, src, w))"

text \<open>
  \<open>drain_ring_setup_sends\<close>: one completion against the expected ids. \<open>seen\<close> is the bit
  set of those already reaped; a shift by 32 or more panics.
\<close>

definition index_of :: "'a \<Rightarrow> 'a list \<Rightarrow> nat option" where
  \<comment> \<open>\<open>iter().position(|e| e == x)\<close>\<close>
  "index_of x xs =
     (let i = length (takeWhile (\<lambda>y. y \<noteq> x) xs) in if i < length xs then Some i else None)"

fun reap_setup :: "u64 list \<Rightarrow> wc list \<Rightarrow> u32 \<Rightarrow> nat \<Rightarrow> (u32 \<times> nat) res" where
  "reap_setup expected [] seen remaining = Ok (seen, remaining)"
| "reap_setup expected (c # cs) seen remaining =
     (case index_of (wr_id c) expected of
        None \<Rightarrow> Err (ConnectionFault ''ring setup: unexpected send completion wr_id'')
      | Some idx \<Rightarrow>
          if idx \<ge> 32 then Panic
          else if bit seen idx then
            Err (ConnectionFault ''ring setup: duplicate send completion wr_id'')
          else if \<not> is_success c then Err (wc_error c)
          else if remaining = 0 then Panic
          else reap_setup expected cs (seen OR push_bit idx 1) (remaining - 1))"

definition drain_setup_sends_body ::
    "'n nic \<Rightarrow> nat \<Rightarrow> u64 list \<Rightarrow> u32 \<times> nat \<times> source \<times> 'n world \<Rightarrow>
       ((u32 \<times> nat \<times> source \<times> 'n world) + (unit res \<times> source \<times> 'n world)) option" where
  "drain_setup_sends_body nic task expected s =
     (let (seen, remaining, src, w) = s in
      if remaining = 0 then Some (Inr (Ok (), src, w))
      else
        case acquire nic ''ring setup send completions'' task 8 src w of
          None \<Rightarrow> None
        | Some (Ok wcs, src, w) \<Rightarrow>
            (case reap_setup expected wcs seen remaining of
               Ok (seen, remaining) \<Rightarrow> Some (Inl (seen, remaining, src, w))
             | Err e \<Rightarrow> Some (Inr (Err e, src, w))
             | Panic \<Rightarrow> Some (Inr (Panic, src, w)))
        | Some (Err e, src, w) \<Rightarrow> Some (Inr (Err e, src, w))
        | Some (Panic, src, w) \<Rightarrow> Some (Inr (Panic, src, w)))"

definition drain_ring_setup_sends ::
    "'n nic \<Rightarrow> nat \<Rightarrow> u64 list \<Rightarrow> source \<Rightarrow> 'n world \<Rightarrow> (unit res \<times> source \<times> 'n world) option" where
  "drain_ring_setup_sends nic task expected src w =
     loop (drain_setup_sends_body nic task expected) (0, length expected, src, w)"

subsection \<open>Disconnect, teardown, doorbells\<close>

definition check_cm_event :: "'n nic \<Rightarrow> nat \<Rightarrow> bool \<Rightarrow> 'n world \<Rightarrow> bool \<times> bool \<times> 'n world" where
  \<comment> \<open>the answer, \<open>*peer_disconnected\<close>, the world\<close>
  "check_cm_event nic ch pd w =
     (case try_get_event nic ch w of
        (Ok etype, w) \<Rightarrow>
          let w = w\<lparr>hw := rdma_ack_cm_event nic ch (hw w)\<rparr>;
              pd = (if etype = Disconnected then True else pd)
          in (pd, pd, w)
      | (Err e, w) \<Rightarrow> if e = WouldBlock then (False, pd, w) else (True, True, w)
      | (Panic, w) \<Rightarrow> (True, True, w))"

definition poll_cm_disconnect_body ::
    "'n nic \<Rightarrow> nat \<Rightarrow> bool \<times> 'n world \<Rightarrow> ((bool \<times> 'n world) + (bool \<times> bool \<times> 'n world)) option" where
  "poll_cm_disconnect_body nic ch s =
     (let (pd, w) = s in
      case on_hw (fd_poll_readable nic ch) w of
        (Ready (Inr _), w) \<Rightarrow>
          (let (gone, pd, w) = check_cm_event nic ch pd w in
           Some (if gone then Inr (True, pd, w) else Inl (pd, w)))
      | (Pending, w) \<Rightarrow> Some (Inr (False, pd, w))
      | (Ready (Inl _), w) \<Rightarrow> Some (Inr (True, True, w)))"

definition poll_cm_disconnect ::
    "'n nic \<Rightarrow> nat \<Rightarrow> bool \<Rightarrow> 'n world \<Rightarrow> (bool \<times> bool \<times> 'n world) option" where
  "poll_cm_disconnect nic ch pd w =
     (if pd then Some (True, pd, w) else loop (poll_cm_disconnect_body nic ch) (pd, w))"

fun drain_flushed_loop :: "'n nic \<Rightarrow> nat \<Rightarrow> source \<Rightarrow> source \<Rightarrow> 'n world \<Rightarrow> 'n world" where
  "drain_flushed_loop nic 0 send_src recv_src w = w"
| "drain_flushed_loop nic (Suc k) send_src recv_src w =
     (let (rs, w) = try_drain nic 16 send_src w;
          s = (case rs of Ok wcs \<Rightarrow> length wcs | _ \<Rightarrow> 0);
          (rr, w) = try_drain nic 16 recv_src w;
          r = (case rr of Ok wcs \<Rightarrow> length wcs | _ \<Rightarrow> 0)
      in if s = 0 \<and> r = 0 then w else drain_flushed_loop nic k send_src recv_src w)"

definition drain_flushed :: "'n nic \<Rightarrow> source \<Rightarrow> source \<Rightarrow> 'n world \<Rightarrow> 'n world" where
  "drain_flushed nic send_src recv_src w =
     drain_flushed_loop nic TEARDOWN_DRAIN_POLLS send_src recv_src w"

definition repost_doorbell ::
    "'n nic \<Rightarrow> async_qp \<Rightarrow> mr list \<Rightarrow> nat \<Rightarrow> 'n world \<Rightarrow> unit res \<times> nat \<times> 'n world" where
  \<comment> \<open>the result, \<open>*repost_idx\<close>, the world\<close>
  "repost_doorbell nic qp bufs repost_idx w =
     (if length bufs = 0 then (Panic, repost_idx, w)
      else
        let next_idx = (repost_idx + 1) mod length bufs in
        if repost_idx \<ge> length bufs then (Panic, next_idx, w)
        else
          let m = bufs ! repost_idx;
              sg = \<lparr>sge_addr = mr_addr m, sge_length = 4, sge_lkey = mr_lkey m\<rparr>;
              (r, w) = post_recv_wr nic qp (recv_sg sg (recv_wr_new (word_of_nat repost_idx))) w
          in (r, next_idx, w))"

subsection \<open>The ring buffer is a queue of disjoint regions\<close>

definition ring_wf :: "ring_buffer \<Rightarrow> bool" where
  "ring_wf r \<longleftrightarrow> rb_head r < rb_capacity r \<and> rb_tail r < rb_capacity r"

text \<open>
  A message in the ring: its offset, the padding in front of it, its length. From position
  \<open>h\<close> the messages follow one another, each either in place or at 0 after padding to the
  end, and the last ends at \<open>t\<close>.
\<close>

type_synonym ring_msg = "nat \<times> nat \<times> nat"

fun laid_out :: "nat \<Rightarrow> nat \<Rightarrow> ring_msg list \<Rightarrow> nat \<Rightarrow> bool" where
  "laid_out cap h [] t \<longleftrightarrow> h = t"
| "laid_out cap h ((off, pad, len) # ms) t \<longleftrightarrow>
     0 < len \<and> off + len \<le> cap \<and> (pad = 0 \<and> off = h \<or> pad = cap - h \<and> 0 < pad \<and> off = 0)
     \<and> laid_out cap ((off + len) mod cap) ms t"

fun msg_size :: "ring_msg \<Rightarrow> nat" where
  "msg_size (off, pad, len) = pad + len"

definition msgs_size :: "ring_msg list \<Rightarrow> nat" where
  "msgs_size ms = sum_list (map msg_size ms)"

lemma msgs_size_simps [simp]:
  "msgs_size [] = 0" "msgs_size (m # ms) = msg_size m + msgs_size ms"
  "msgs_size (ms @ ns) = msgs_size ms + msgs_size ns"
  by (simp_all add: msgs_size_def)

definition ring_holds :: "ring_buffer \<Rightarrow> ring_msg list \<Rightarrow> bool" where
  "ring_holds r ms \<longleftrightarrow>
     ring_wf r \<and> laid_out (rb_capacity r) (rb_head r) ms (rb_tail r) \<and> used r = msgs_size ms"

fun msg_bytes :: "ring_msg \<Rightarrow> nat set" where
  "msg_bytes (off, pad, len) = {off..<off + len}"

text \<open>The bytes between head and tail.\<close>

definition occupied :: "ring_buffer \<Rightarrow> nat set" where
  "occupied r = (\<lambda>i. (rb_head r + i) mod rb_capacity r) ` {..<used r}"

lemma used_less: "ring_wf r \<Longrightarrow> used r < rb_capacity r"
  by (auto simp: ring_wf_def used_def)

lemma available_used: "ring_wf r \<Longrightarrow> available r + used r + 1 = rb_capacity r"
  using used_less [of r] by (simp add: available_def)

lemma ring_wf_new: "0 < cap \<Longrightarrow> ring_wf (ring_new m cap)"
  by (simp add: ring_wf_def ring_new_def)

lemma ring_holds_new: "0 < cap \<Longrightarrow> ring_holds (ring_new m cap) []"
  by (simp add: ring_holds_def ring_wf_def ring_new_def used_def)

lemma used_tail:
  assumes "ring_wf r" "n \<le> available r"
  shows "used (r\<lparr>rb_tail := (rb_tail r + n) mod rb_capacity r\<rparr>) = used r + n"
proof -
  from assms have "rb_tail r < rb_capacity r" "rb_head r < rb_capacity r"
    "n + used r < rb_capacity r" using available_used [OF assms(1)] by (auto simp: ring_wf_def)
  then show ?thesis
    by (auto simp: used_def mod_add_less_two split: if_splits)
qed

lemma used_release:
  assumes "ring_wf r" "n \<le> used r"
  shows "used (release n r) = used r - n"
proof -
  from assms used_less [OF assms(1)] have "rb_tail r < rb_capacity r" "rb_head r < rb_capacity r"
    "n < rb_capacity r" "n \<le> used r" by (auto simp: ring_wf_def)
  then show ?thesis
    by (auto simp: used_def release_def mod_add_less_two split: if_splits)
qed

lemma ring_wf_release: "ring_wf r \<Longrightarrow> ring_wf (release n r)"
  by (auto simp: ring_wf_def release_def)

text \<open>The two successful outcomes of \<open>reserve\<close>.\<close>

lemma reserve_SomeE:
  assumes "ring_wf r" "reserve len r = (Some (off, pad), r')"
  obtains (contig) "pad = 0" "off = rb_tail r" "0 < len" "len \<le> available r"
      "len \<le> contiguous_free r" "r' = r\<lparr>rb_tail := (rb_tail r + len) mod rb_capacity r\<rparr>"
    | (wrap) "pad = rb_capacity r - rb_tail r" "0 < pad" "off = 0" "0 < len" "len < rb_head r"
      "rb_head r \<le> rb_tail r" "r' = r\<lparr>rb_tail := len\<rparr>"
proof (cases "len \<le> contiguous_free r")
  case True
  with assms(2) show ?thesis
    by (intro contig) (auto simp: reserve_def Let_def split: if_splits)
next
  case False
  with assms have f: "0 < len" "len \<le> available r" "pad = rb_capacity r - rb_tail r" "off = 0"
    "rb_head r > len" "r' = r\<lparr>rb_tail := len\<rparr>"
    by (auto simp: reserve_def Let_def split: if_splits)
  moreover have "rb_head r \<le> rb_tail r"
    using False f(2) assms(1)
    by (auto simp: contiguous_free_def available_def used_def ring_wf_def split: if_splits)
  ultimately show ?thesis
    using assms(1) by (intro wrap) (auto simp: ring_wf_def)
qed

lemma reserve_None: "reserve len r = (None, r') \<Longrightarrow> r' = r"
  by (auto simp: reserve_def Let_def split: if_splits)

lemma reserve_frame: "reserve len r = (x, r') \<Longrightarrow>
    rb_head r' = rb_head r \<and> rb_capacity r' = rb_capacity r \<and> rb_mr r' = rb_mr r"
  by (auto simp: reserve_def Let_def split: if_splits)

lemma reserve_bounds:
  assumes "ring_wf r" "reserve len r = (Some (off, pad), r')"
  shows "ring_wf r'" "0 < len" "off + len \<le> rb_capacity r" "len < rb_capacity r"
    "used r' = used r + pad + len" "rb_tail r' = (off + len) mod rb_capacity r"
    "pad = 0 \<and> off = rb_tail r \<or> pad = rb_capacity r - rb_tail r \<and> 0 < pad \<and> off = 0"
proof -
  note wf = assms(1) [unfolded ring_wf_def]
  have "ring_wf r' \<and> 0 < len \<and> off + len \<le> rb_capacity r \<and> len < rb_capacity r
    \<and> used r' = used r + pad + len \<and> rb_tail r' = (off + len) mod rb_capacity r
    \<and> (pad = 0 \<and> off = rb_tail r \<or> pad = rb_capacity r - rb_tail r \<and> 0 < pad \<and> off = 0)"
  proof (rule reserve_SomeE [OF assms])
    assume c: "pad = 0" "off = rb_tail r" "0 < len" "len \<le> available r"
      "len \<le> contiguous_free r" "r' = r\<lparr>rb_tail := (rb_tail r + len) mod rb_capacity r\<rparr>"
    have "rb_tail r + len \<le> rb_capacity r"
      using c(5) wf by (auto simp: contiguous_free_def split: if_splits)
    moreover have "len < rb_capacity r" using c(4) available_used [OF assms(1)] by linarith
    moreover have "used r' = used r + len" using used_tail [OF assms(1) c(4)] c(6) by simp
    moreover have "ring_wf r'" using wf by (simp add: c(6) ring_wf_def)
    ultimately show ?thesis using c by simp
  next
    assume "pad = rb_capacity r - rb_tail r" "0 < pad" "off = 0" "0 < len" "len < rb_head r"
      "rb_head r \<le> rb_tail r" "r' = r\<lparr>rb_tail := len\<rparr>"
    then show ?thesis using wf by (auto simp: ring_wf_def used_def)
  qed
  then show "ring_wf r'" "0 < len" "off + len \<le> rb_capacity r" "len < rb_capacity r"
    "used r' = used r + pad + len" "rb_tail r' = (off + len) mod rb_capacity r"
    "pad = 0 \<and> off = rb_tail r \<or> pad = rb_capacity r - rb_tail r \<and> 0 < pad \<and> off = 0"
    by blast+
qed

lemma laid_out_snoc:
  "laid_out cap h (ms @ [(off, pad, len)]) t' \<longleftrightarrow>
     (\<exists>t. laid_out cap h ms t \<and> laid_out cap t [(off, pad, len)] t')"
  by (induction ms arbitrary: h) auto

lemma reserve_holds:
  assumes "ring_holds r ms" "reserve len r = (Some (off, pad), r')"
  shows "ring_holds r' (ms @ [(off, pad, len)])"
proof -
  from assms have wf: "ring_wf r" by (simp add: ring_holds_def)
  show ?thesis
    using reserve_bounds [OF wf assms(2)] reserve_frame [OF assms(2)] assms(1)
    by (auto simp: ring_holds_def laid_out_snoc)
qed

lemma release_holds:
  assumes "ring_holds r ((off, pad, len) # ms)"
  shows "ring_holds (release (pad + len) r) ms"
proof -
  from assms have wf: "ring_wf r" and u: "used r = pad + len + msgs_size ms"
    and l: "laid_out (rb_capacity r) (rb_head r) ((off, pad, len) # ms) (rb_tail r)"
    by (auto simp: ring_holds_def)
  have "(rb_head r + (pad + len)) mod rb_capacity r = (off + len) mod rb_capacity r"
    using l wf by (auto simp: ring_wf_def)
  then have "laid_out (rb_capacity r) (rb_head (release (pad + len) r)) ms (rb_tail r)"
    using l by (simp add: release_def)
  then show ?thesis
    using ring_wf_release [OF wf] used_release [OF wf, of "pad + len"] u
    by (simp add: ring_holds_def release_def)
qed

text \<open>
  Every message sits on bytes at known distances from the head; distances below the
  capacity are distinct positions, so the messages are pairwise disjoint.
\<close>

lemma laid_out_bytes:
  assumes "laid_out cap h ms t" "h < cap"
    and "ms = xs @ m # ys"
  shows "\<exists>d. msgs_size xs \<le> d \<and> d + snd (snd m) \<le> msgs_size xs + msg_size m
     \<and> msg_bytes m \<subseteq> (\<lambda>i. (h + i) mod cap) ` {d..<d + snd (snd m)}"
  using assms
proof (induction xs arbitrary: h ms)
  case Nil
  obtain off pad len where m: "m = (off, pad, len)" by (cases m)
  from Nil have off: "off + len \<le> cap" "pad = 0 \<and> off = h \<or> pad = cap - h \<and> off = 0"
    by (auto simp: m)
  have "msg_bytes m \<subseteq> (\<lambda>i. (h + i) mod cap) ` {pad..<pad + len}"
  proof
    fix b assume "b \<in> msg_bytes m"
    then have b: "off \<le> b" "b < off + len" by (auto simp: m)
    have "h + (pad + (b - off)) = b \<or> h + (pad + (b - off)) = cap + b"
      using off b Nil.prems(2) by auto
    then have "(h + (pad + (b - off))) mod cap = b"
      using off b by auto
    then show "b \<in> (\<lambda>i. (h + i) mod cap) ` {pad..<pad + len}"
      using b by (intro rev_image_eqI [of "pad + (b - off)"]) auto
  qed
  then show ?case by (auto simp: m)
next
  case (Cons x xs)
  obtain off pad len where x: "x = (off, pad, len)" by (cases x)
  let ?h = "(off + len) mod cap"
  have "h + (pad + len) = off + len \<or> h + (pad + len) = cap + (off + len)"
    using Cons.prems by (auto simp: x)
  then have h': "?h = (h + (pad + len)) mod cap" by (metis mod_add_self1)
  have h'2: "?h < cap" using Cons.prems(2) by simp
  from Cons.prems have "laid_out cap ?h (xs @ m # ys) t" by (simp add: x)
  from Cons.IH [OF this h'2 refl] obtain d where d:
    "msgs_size xs \<le> d" "d + snd (snd m) \<le> msgs_size xs + msg_size m"
    "msg_bytes m \<subseteq> (\<lambda>i. (?h + i) mod cap) ` {d..<d + snd (snd m)}" by blast
  let ?e = "d + (pad + len)"
  have "(\<lambda>i. (?h + i) mod cap) ` {d..<d + snd (snd m)} \<subseteq> (\<lambda>i. (h + i) mod cap) ` {?e..<?e + snd (snd m)}"
  proof
    fix b assume "b \<in> (\<lambda>i. (?h + i) mod cap) ` {d..<d + snd (snd m)}"
    then obtain i where i: "d \<le> i" "i < d + snd (snd m)" "b = (?h + i) mod cap" by auto
    then have "b = (h + (pad + len) + i) mod cap"
      by (simp only: h' mod_add_left_eq)
    then have "b = (h + (i + (pad + len))) mod cap" by (simp add: ac_simps)
    with i show "b \<in> (\<lambda>i. (h + i) mod cap) ` {?e..<?e + snd (snd m)}"
      by (intro rev_image_eqI [of "i + (pad + len)"]) auto
  qed
  with d show ?case by (intro exI [of _ ?e]) (auto simp: x)
qed

lemma mod_image_disjoint:
  fixes h cap :: nat
  assumes "b \<le> c" "d \<le> cap"
  shows "(\<lambda>i. (h + i) mod cap) ` {a..<b} \<inter> (\<lambda>i. (h + i) mod cap) ` {c..<d} = {}"
proof -
  have "(h + i) mod cap \<noteq> (h + j) mod cap" if "i < b" "c \<le> j" "j < d" for i j
    using assms that by (intro mod_shift_inj) auto
  then show ?thesis by force
qed

lemma holds_disjoint:
  assumes "ring_holds r (xs @ m # ys @ n # zs)"
  shows "msg_bytes m \<inter> msg_bytes n = {}"
proof -
  let ?cap = "rb_capacity r" and ?h = "rb_head r"
  from assms have wf: "ring_wf r" and l: "laid_out ?cap ?h (xs @ m # ys @ n # zs) (rb_tail r)"
    and u: "used r = msgs_size (xs @ m # ys @ n # zs)" by (auto simp: ring_holds_def)
  from wf have h: "?h < ?cap" by (simp add: ring_wf_def)
  obtain d where d: "d + snd (snd m) \<le> msgs_size xs + msg_size m"
    "msg_bytes m \<subseteq> (\<lambda>i. (?h + i) mod ?cap) ` {d..<d + snd (snd m)}"
    using laid_out_bytes [OF l h refl] by blast
  obtain e where e: "msgs_size (xs @ m # ys) \<le> e"
    "e + snd (snd n) \<le> msgs_size (xs @ m # ys) + msg_size n"
    "msg_bytes n \<subseteq> (\<lambda>i. (?h + i) mod ?cap) ` {e..<e + snd (snd n)}"
    using laid_out_bytes [OF l h, of "xs @ m # ys" n zs] by auto
  have "e + snd (snd n) \<le> ?cap" using e(2) u used_less [OF wf] by simp
  moreover have "d + snd (snd m) \<le> e" using d(1) e(1) by simp
  ultimately have "(\<lambda>i. (?h + i) mod ?cap) ` {d..<d + snd (snd m)}
      \<inter> (\<lambda>i. (?h + i) mod ?cap) ` {e..<e + snd (snd n)} = {}"
    by (intro mod_image_disjoint)
  with d e show ?thesis by blast
qed

lemma holds_occupied:
  assumes "ring_holds r ms" "m \<in> set ms"
  shows "msg_bytes m \<subseteq> occupied r"
proof -
  from assms(2) obtain xs ys where ms: "ms = xs @ m # ys" by (meson split_list)
  from assms(1) have wf: "ring_wf r" and l: "laid_out (rb_capacity r) (rb_head r) ms (rb_tail r)"
    and u: "used r = msgs_size ms" by (auto simp: ring_holds_def)
  from wf have h: "rb_head r < rb_capacity r" by (simp add: ring_wf_def)
  obtain d where d: "d + snd (snd m) \<le> msgs_size xs + msg_size m"
    "msg_bytes m \<subseteq> (\<lambda>i. (rb_head r + i) mod rb_capacity r) ` {d..<d + snd (snd m)}"
    using laid_out_bytes [OF l h ms] by blast
  then have "{d..<d + snd (snd m)} \<subseteq> {..<used r}" using u by (auto simp: ms)
  with d(2) show ?thesis unfolding occupied_def by blast
qed

lemma occupied_bounds: "ring_wf r \<Longrightarrow> occupied r \<subseteq> {..<rb_capacity r}"
  by (auto simp: occupied_def ring_wf_def)

text \<open>
  The contract the transports rely on: an allocator of byte regions that are released in the
  order they were reserved.
\<close>

locale region_queue =
  fixes holds :: "'r \<Rightarrow> ring_msg list \<Rightarrow> bool"
    and cap :: "'r \<Rightarrow> nat"
    and alloc :: "nat \<Rightarrow> 'r \<Rightarrow> (nat \<times> nat) option \<times> 'r"
    and free :: "nat \<Rightarrow> 'r \<Rightarrow> 'r"
  assumes alloc_Some: "holds r ms \<Longrightarrow> alloc len r = (Some (off, pad), r') \<Longrightarrow>
        holds r' (ms @ [(off, pad, len)]) \<and> cap r' = cap r"
    and alloc_None: "alloc len r = (None, r') \<Longrightarrow> r' = r"
    and free_oldest: "holds r (m # ms) \<Longrightarrow> holds (free (msg_size m) r) ms \<and> cap (free (msg_size m) r) = cap r"
    and in_bounds: "holds r ms \<Longrightarrow> m \<in> set ms \<Longrightarrow> msg_bytes m \<subseteq> {..<cap r}"
    and disjoint: "holds r (xs @ m # ys @ n # zs) \<Longrightarrow> msg_bytes m \<inter> msg_bytes n = {}"
begin

lemma fresh_region:
  assumes "holds r ms" "alloc len r = (Some (off, pad), r')"
  shows "off + len \<le> cap r \<or> len = 0" "\<And>m. m \<in> set ms \<Longrightarrow> msg_bytes m \<inter> {off..<off + len} = {}"
proof -
  from alloc_Some [OF assms] have h: "holds r' (ms @ [(off, pad, len)])" and c: "cap r' = cap r" by auto
  from in_bounds [OF h, of "(off, pad, len)"] have b: "{off..<off + len} \<subseteq> {..<cap r}" by (simp add: c)
  show "off + len \<le> cap r \<or> len = 0"
  proof (cases len)
    case (Suc k)
    then have "off + k \<in> {off..<off + len}" by simp
    with b have "off + k < cap r" by blast
    with Suc show ?thesis by simp
  qed simp
  fix m assume "m \<in> set ms"
  then obtain xs ys where "ms = xs @ m # ys" by (meson split_list)
  with h disjoint [of r' xs m ys "(off, pad, len)" "[]"] show "msg_bytes m \<inter> {off..<off + len} = {}"
    by simp
qed

lemma free_prefix:
  "holds r (ms @ ns) \<Longrightarrow>
     holds (fold (\<lambda>m. free (msg_size m)) ms r) ns \<and> cap (fold (\<lambda>m. free (msg_size m)) ms r) = cap r"
proof (induction ms arbitrary: r)
  case (Cons m ms)
  from free_oldest [of r m "ms @ ns"] Cons.prems
  have f: "holds (free (msg_size m) r) (ms @ ns)" "cap (free (msg_size m) r) = cap r" by auto
  from Cons.IH [OF f(1)] f(2) show ?case by simp
qed simp

end

interpretation rq: region_queue ring_holds rb_capacity reserve release
proof unfold_locales
  fix r r' :: ring_buffer and ms :: "ring_msg list" and m :: ring_msg and len off pad
  show "ring_holds r ms \<Longrightarrow> reserve len r = (Some (off, pad), r') \<Longrightarrow>
      ring_holds r' (ms @ [(off, pad, len)]) \<and> rb_capacity r' = rb_capacity r"
    using reserve_holds reserve_frame by blast
  show "reserve len r = (None, r') \<Longrightarrow> r' = r" by (rule reserve_None)
  show "ring_holds r (m # ms) \<Longrightarrow> ring_holds (release (msg_size m) r) ms
      \<and> rb_capacity (release (msg_size m) r) = rb_capacity r"
    by (cases m) (auto dest: release_holds simp: release_def)
  show "ring_holds r ms \<Longrightarrow> m \<in> set ms \<Longrightarrow> msg_bytes m \<subseteq> {..<rb_capacity r}"
    using holds_occupied [of r ms m] occupied_bounds [of r] by (auto simp: ring_holds_def)
qed (rule holds_disjoint)

text \<open>
  Progress: an empty ring accepts every message of at most half its capacity, wherever its
  head stands.
\<close>

lemma reserve_empty:
  assumes "ring_wf r" "rb_head r = rb_tail r" "0 < len" "2 * len \<le> rb_capacity r"
  shows "fst (reserve len r) \<noteq> None"
  using assms
  by (auto simp: reserve_def available_def used_def contiguous_free_def ring_wf_def Let_def)

subsection \<open>The tracker advances over the longest released prefix\<close>

definition tracker_wf :: "completion_tracker \<Rightarrow> bool" where
  "tracker_wf t \<longleftrightarrow> length (released t) = ct_capacity t \<and> head_slot t < ct_capacity t"

lemma tracker_wf_new: "0 < cap \<Longrightarrow> tracker_wf (tracker_new cap)"
  by (simp add: tracker_wf_def tracker_new_def)

text \<open>What a chase that advanced by \<open>k\<close> leaves of \<open>t\<close>.\<close>

definition chased :: "completion_tracker \<Rightarrow> nat \<Rightarrow> completion_tracker \<Rightarrow> bool" where
  "chased t k t' \<longleftrightarrow>
     (let n = ct_capacity t; h = head_slot t in
      k \<le> n \<and> ct_capacity t' = n \<and> length (released t') = n \<and> head_slot t' = (h + k) mod n
      \<and> (\<forall>i < k. released t ! ((h + i) mod n))
      \<and> (k < n \<longrightarrow> \<not> released t ! ((h + k) mod n))
      \<and> (\<forall>j < n. released t' ! j \<longleftrightarrow> released t ! j \<and> (\<forall>i < k. j \<noteq> (h + i) mod n)))"

lemma chased_step:
  assumes wf: "tracker_wf t" and hd: "released t ! head_slot t"
    and t1: "t1 = t\<lparr>released := (released t)[head_slot t := False],
                head_slot := (head_slot t + 1) mod ct_capacity t\<rparr>"
    and c: "chased t1 k t'"
  shows "chased t (Suc k) t'"
proof -
  let ?n = "ct_capacity t" and ?h = "head_slot t"
  from wf have n: "length (released t) = ?n" "?h < ?n" by (auto simp: tracker_wf_def)
  have shift: "((?h + 1) mod ?n + i) mod ?n = (?h + Suc i) mod ?n" for i by (simp add: mod_simps)
  have r1: "released t1 ! j \<longleftrightarrow> released t ! j \<and> j \<noteq> ?h" if "j < ?n" for j
    using that n by (cases "j = ?h") (auto simp: t1)
  have m: "x mod ?n < ?n" for x using n(2) by simp
  have c1: "ct_capacity t1 = ?n" "head_slot t1 = (?h + 1) mod ?n" by (simp_all add: t1)
  note c = c [unfolded chased_def Let_def c1 shift]
  have rel: "released t ! ((?h + Suc i) mod ?n)" "(?h + Suc i) mod ?n \<noteq> ?h" if "i < k" for i
    using c that r1 [OF m] by auto
  have k: "Suc k \<le> ?n"
  proof (rule ccontr)
    assume "\<not> Suc k \<le> ?n"
    with c have "?n - 1 < k" using n(2) by auto
    from rel(2) [OF this] n(2) show False by simp
  qed
  have distinct: "(?h + Suc k) mod ?n \<noteq> ?h" if "Suc k < ?n"
    using mod_shift_inj [of 0 "Suc k" ?n ?h] that n by auto
  have all: "(\<forall>i < Suc k. P i) \<longleftrightarrow> P 0 \<and> (\<forall>i < k. P (Suc i))" for P
    using less_Suc_eq_0_disj by auto
  have "\<forall>i < Suc k. released t ! ((?h + i) mod ?n)"
    unfolding all using hd n(2) rel(1) by auto
  moreover have "Suc k < ?n \<longrightarrow> \<not> released t ! ((?h + Suc k) mod ?n)"
    using c r1 [OF m] distinct by auto
  moreover have "\<forall>j < ?n. released t' ! j \<longleftrightarrow> released t ! j \<and> (\<forall>i < Suc k. j \<noteq> (?h + i) mod ?n)"
    unfolding all using c r1 n(2) by auto
  ultimately show ?thesis
    unfolding chased_def Let_def using c k by blast
qed

lemma tracker_wf_step:
  "tracker_wf t \<Longrightarrow> tracker_wf (t\<lparr>released := (released t)[i := b],
      head_slot := (head_slot t + 1) mod ct_capacity t\<rparr>)"
  by (auto simp: tracker_wf_def)

lemma chase_eq:
  "tracker_wf t \<Longrightarrow> \<exists>k t'. chase t a = (Ok (a + k), t') \<and> chased t k t'"
proof (induction t a rule: chase.induct)
  case (1 t a)
  from 1(2) have h: "head_slot t < length (released t)" by (simp add: tracker_wf_def)
  show ?case
  proof (cases "released t ! head_slot t")
    case True
    let ?t1 = "t\<lparr>released := (released t)[head_slot t := False],
        head_slot := (head_slot t + 1) mod ct_capacity t\<rparr>"
    from 1(1) [OF _ True tracker_wf_step [OF 1(2)]] h obtain k t'
      where "chase ?t1 (a + 1) = (Ok (a + 1 + k), t')" "chased ?t1 k t'" by auto
    moreover have "chase t a = chase ?t1 (a + 1)" using h True by (subst chase.simps) simp
    ultimately show ?thesis
      using chased_step [OF 1(2) True refl] by (intro exI [of _ "Suc k"] exI [of _ t']) simp
  next
    case False
    have "chase t a = (Ok (a + 0), t)" using h False by (subst chase.simps) simp
    moreover have "chased t 0 t" using 1(2) False by (auto simp: chased_def tracker_wf_def)
    ultimately show ?thesis by blast
  qed
qed

lemma chased_wf: "tracker_wf t \<Longrightarrow> chased t k t' \<Longrightarrow> tracker_wf t'"
  by (auto simp: chased_def tracker_wf_def Let_def)

text \<open>
  \<open>release\<close> never panics; it advances by the longest run of released slots from the head,
  clears exactly those, and leaves the head on a slot that is not released (or has gone all
  the way round).
\<close>

lemma tracker_release_eq:
  assumes "tracker_wf t" "slot < ct_capacity t"
  shows "\<exists>k t'. tracker_release slot t = (Ok k, t') \<and> tracker_wf t'
     \<and> chased (t\<lparr>released := (released t)[slot := True]\<rparr>) k t'"
proof -
  let ?t = "t\<lparr>released := (released t)[slot := True]\<rparr>"
  have "tracker_wf ?t" using assms by (simp add: tracker_wf_def)
  with chase_eq [of ?t 0] assms show ?thesis
    by (auto simp: tracker_release_def intro: chased_wf)
qed

subsection \<open>Slot counts and gather\<close>

lemma clamp_bounds:
  "1 \<le> clamp_max_outstanding cap mms mif hr dl"
  "hr + 1 \<le> dl \<Longrightarrow> 3 \<le> dl \<Longrightarrow> clamp_max_outstanding cap mms mif hr dl + max hr 2 \<le> dl"
  "mif = Some n \<Longrightarrow> 1 \<le> n \<Longrightarrow> clamp_max_outstanding cap mms mif hr dl \<le> n"
  by (auto simp: clamp_max_outstanding_def Let_def)

lemma clamp_derived:
  assumes "mif = None" "0 < mms" "mms \<le> cap"
  shows "clamp_max_outstanding cap mms mif hr dl * mms \<le> cap"
proof -
  have q: "1 \<le> cap div mms" using assms by (simp add: Suc_leI div_greater_zero_iff)
  have "clamp_max_outstanding cap mms mif hr dl \<le> cap div mms"
  proof -
    have "max mms 1 = mms" using assms(2) by simp
    then show ?thesis
      unfolding clamp_max_outstanding_def Let_def assms(1) using q
      by (simp only: option.case max_absorb1 max.bounded_iff min.cobounded1)
  qed
  then have "clamp_max_outstanding cap mms mif hr dl * mms \<le> cap div mms * mms" by simp
  also have "\<dots> \<le> cap" by simp
  finally show ?thesis .
qed

lemma gather_loop_eq:
  "written \<le> length dst \<Longrightarrow>
     gather_loop dst bufs written =
       (let n = min (length dst - written) (length (concat bufs))
        in (written + n, upd_range dst written (take n (concat bufs))))"
proof (induction bufs arbitrary: dst written)
  case Nil
  then show ?case by (simp add: upd_range_def)
next
  case (Cons b bs)
  show ?case
  proof (cases "written \<ge> length dst")
    case True
    with Cons.prems show ?thesis by (simp add: upd_range_def)
  next
    case False
    let ?tk = "min (length b) (length dst - written)"
    let ?dst = "upd_range dst written (take ?tk b)"
    have len: "length ?dst = length dst" using False by simp
    from Cons.IH [of "written + ?tk" ?dst] False have "gather_loop dst (b # bs) written =
       (let n = min (length dst - (written + ?tk)) (length (concat bs))
        in (written + ?tk + n, upd_range ?dst (written + ?tk) (take n (concat bs))))"
      by (simp add: len Let_def)
    also have "\<dots> = (let n = min (length dst - written) (length (concat (b # bs)))
        in (written + n, upd_range dst written (take n (concat (b # bs)))))"
      using False by (auto simp: Let_def upd_range_def min_def) (simp_all add: ac_simps)
    finally show ?thesis .
  qed
qed

lemma gather_into_eq:
  "gather_into dst bufs =
     (let n = min (length dst) (length (concat bufs)) in (n, take n (concat bufs) @ drop n dst))"
  using gather_loop_eq [of 0 dst bufs] by (auto simp: gather_into_def Let_def upd_range_def min_def)

subsection \<open>Setup completions\<close>

lemma index_of_Some:
  assumes "index_of x xs = Some i"
  shows "i < length xs \<and> xs ! i = x \<and> (\<forall>j < i. xs ! j \<noteq> x)"
proof -
  from assms have i: "i = length (takeWhile (\<lambda>y. y \<noteq> x) xs)" "i < length xs"
    by (auto simp: index_of_def Let_def split: if_splits)
  then show ?thesis
    by (metis (mono_tags, lifting) nth_length_takeWhile nth_mem set_takeWhileD takeWhile_nth)
qed

text \<open>
  The bits set in \<open>seen\<close> are the positions of the ids reaped so far, each once.
\<close>

lemma reap_setup_Ok:
  assumes "reap_setup expected cs seen rem = Ok (seen', rem')"
  shows "rem' + length cs = rem \<and> (\<forall>c \<in> set cs. is_success c \<and> wr_id c \<in> set expected)
     \<and> distinct (map wr_id cs)
     \<and> (\<forall>c \<in> set cs. \<forall>i < length expected. i < 32 \<longrightarrow> bit seen i \<longrightarrow> index_of (wr_id c) expected \<noteq> Some i)"
  using assms
proof (induction cs arbitrary: seen rem)
  case (Cons c cs)
  from Cons.prems obtain idx where idx: "index_of (wr_id c) expected = Some idx" "idx < 32"
    "\<not> bit seen idx" "is_success c" "0 < rem"
    and rest: "reap_setup expected cs (seen OR push_bit idx 1) (rem - 1) = Ok (seen', rem')"
    by (auto split: option.splits if_splits)
  note IH = Cons.IH [OF rest]
  have bits: "bit (seen OR push_bit idx 1) i \<longleftrightarrow> bit seen i \<or> i = idx" if "i < 32" for i
    using that by (auto simp: bit_or_iff bit_push_bit_iff bit_1_iff bit_exp_iff)
  have exp: "idx < length expected" "wr_id c = expected ! idx"
    using index_of_Some [OF idx(1)] by auto
  have later: "index_of (wr_id d) expected \<noteq> Some i"
    if "d \<in> set cs" "i < length expected" "i < 32" "bit seen i \<or> i = idx" for d i
    using IH that bits by blast
  have fresh: "wr_id c \<notin> set (map wr_id cs)"
  proof
    assume "wr_id c \<in> set (map wr_id cs)"
    then obtain d where "d \<in> set cs" "wr_id d = wr_id c" by auto
    with later [of d idx] idx exp show False by simp
  qed
  have "index_of (wr_id d) expected \<noteq> Some i"
    if "d \<in> set (c # cs)" "i < length expected" "i < 32" "bit seen i" for d i
    using that idx later [of d i] by auto
  moreover have "rem' + length (c # cs) = rem" using IH idx(5) by simp
  moreover have "\<forall>d \<in> set (c # cs). is_success d \<and> wr_id d \<in> set expected"
    using IH idx(4) exp by simp
  moreover have "distinct (map wr_id (c # cs))" using IH fresh by simp
  ultimately show ?case by blast
qed simp

subsection \<open>Connection-manager polling leaves the queues alone\<close>

lemma check_cm_event_out:
  assumes "quiet nic out" "check_cm_event nic ch pd w = (b, pd', w')"
  shows "out (hw w') = out (hw w)"
proof -
  obtain x w1 where g: "on_hw (rdma_get_cm_event nic ch) w = (x, w1)" by (rule prod.exhaust)
  then have "out (hw w1) = out (hw w)" using quietD(6) [OF assms(1)] on_hwD [OF g] by blast
  with g assms(2) show ?thesis
    by (cases x) (auto simp: check_cm_event_def try_get_event_def Let_def quietD(7) [OF assms(1)]
        split: if_splits)
qed

lemma poll_cm_disconnect_out:
  assumes "quiet nic out" "poll_cm_disconnect nic ch pd w = Some (b, pd', w')"
  shows "out (hw w') = out (hw w)"
proof (cases pd)
  case True
  with assms show ?thesis by (simp add: poll_cm_disconnect_def)
next
  case False
  let ?P = "\<lambda>(pd1 :: bool, w1). out (hw w1) = out (hw w)"
  let ?Q = "\<lambda>(b1 :: bool, pd1 :: bool, w1). out (hw w1) = out (hw w)"
  have body: "case x of Inl s' \<Rightarrow> ?P s' | Inr r \<Rightarrow> ?Q r"
    if "?P s" "poll_cm_disconnect_body nic ch s = Some x" for s x
  proof -
    obtain pd1 w1 where s: "s = (pd1, w1)" by (rule prod.exhaust)
    obtain p w2 where f: "on_hw (fd_poll_readable nic ch) w1 = (p, w2)" by (rule prod.exhaust)
    obtain g pd3 w3 where c: "check_cm_event nic ch pd1 w2 = (g, pd3, w3)" by (metis prod_cases3)
    from that s f c fd_out [OF assms(1) f] check_cm_event_out [OF assms(1) c] show ?thesis
      by (auto simp: poll_cm_disconnect_body_def split: poll.splits sum.splits if_splits)
  qed
  have "?Q (b, pd', w')"
  proof (rule loop_inv [where P = ?P and Q = ?Q])
    show "loop (poll_cm_disconnect_body nic ch) (pd, w) = Some (b, pd', w')"
      using assms(2) False by (simp add: poll_cm_disconnect_def)
  qed (use body in fastforce)+
  then show ?thesis by simp
qed

lemma cm_disconnect_out:
  assumes "quiet nic out" "cm_disconnect nic i w = (r, w')"
  shows "out (hw w') = out (hw w)"
proof -
  obtain e w1 where d: "on_hw (rdma_disconnect nic i) w = (e, w1)" by (rule prod.exhaust)
  with assms(2) have "w' = w1" by (simp add: cm_disconnect_def)
  with on_hwD [OF d] quietD(8) [OF assms(1)] show ?thesis by blast
qed

subsection \<open>Properties\<close>

text \<open>C1: Reserved regions. If the ring holds the messages \<open>ms\<close> (laid out from head to
  tail) and \<open>reserve\<close> grants a region, the region is non-empty, lies inside the ring, shares
  no byte with any message held, and the ring then holds \<open>ms\<close> followed by the new one;
  releasing the oldest message afterwards keeps the rest in place.\<close>

theorem reserve_region:
  assumes "ring_holds r ms" "reserve len r = (Some (off, pad), r')"
  shows "0 < len \<and> off + len \<le> rb_capacity r
    \<and> (\<forall>m \<in> set ms. msg_bytes m \<inter> {off..<off + len} = {})
    \<and> ring_holds r' (ms @ [(off, pad, len)])
    \<and> (\<forall>m ms'. ms = m # ms' \<longrightarrow> ring_holds (release (msg_size m) r') (ms' @ [(off, pad, len)]))"
proof -
  from assms(1) have wf: "ring_wf r" by (simp add: ring_holds_def)
  have h: "ring_holds r' (ms @ [(off, pad, len)])" using rq.alloc_Some [OF assms] by blast
  then have "ring_holds (release (msg_size m) r') (ms' @ [(off, pad, len)])" if "ms = m # ms'" for m ms'
    using rq.free_oldest [of r' m "ms' @ [(off, pad, len)]"] that by simp
  with h show ?thesis
    using reserve_bounds [OF wf assms(2)] rq.fresh_region [OF assms] by blast
qed

definition mr0 :: mr where "mr0 = \<lparr>mr_addr = 0, mr_lkey = 0, mr_rkey = 0, mr_bytes = []\<rparr>"

theorem reserve_region_witness:
  "\<exists>r. reserve 30 \<lparr>rb_mr = mr0, rb_capacity = 100, rb_head = 40, rb_tail = 80\<rparr> = (Some (0, 20), r)
     \<and> ring_holds r [(40, 0, 40), (0, 20, 30)] \<and> {40..<80} \<inter> {0..<30 :: nat} = {}"
proof -
  let ?r = "\<lparr>rb_mr = mr0, rb_capacity = 100, rb_head = 40, rb_tail = 80\<rparr>"
  have h: "ring_holds ?r [(40, 0, 40)]" by (simp add: ring_holds_def ring_wf_def used_def)
  have e: "reserve 30 ?r = (Some (0, 20), ?r\<lparr>rb_tail := 30\<rparr>)"
    by (simp add: reserve_def available_def used_def contiguous_free_def)
  from reserve_region [OF h e] e show ?thesis by auto
qed

text \<open>C30: When an idle ring accepts. A ring that holds no message grants a request exactly if it
  is smaller than the ring and fits either behind the tail or before the head; a message of at
  most half the ring is always granted. A larger one can be refused with every byte free.\<close>

theorem reserve_idle:
  assumes "ring_wf r" "rb_head r = rb_tail r" "0 < len"
  shows "(fst (reserve len r) \<noteq> None) =
      (len < rb_capacity r \<and> (rb_tail r = 0 \<or> len \<le> rb_capacity r - rb_tail r \<or> len < rb_tail r))
    \<and> (2 * len \<le> rb_capacity r \<longrightarrow> fst (reserve len r) \<noteq> None)"
  using assms by (auto simp: reserve_def available_def used_def contiguous_free_def ring_wf_def Let_def)

definition idle100 :: ring_buffer where
  "idle100 = (ring_new \<lparr>mr_addr = 0, mr_lkey = 1, mr_rkey = 2, mr_bytes = []\<rparr> 100)\<lparr>rb_head := 60, rb_tail := 60\<rparr>"

theorem reserve_idle_witness: "fst (reserve 70 idle100) = None \<and> fst (reserve 50 idle100) \<noteq> None"
proof -
  have f: "ring_wf idle100" "rb_head idle100 = 60" "rb_tail idle100 = 60" "rb_capacity idle100 = 100"
    by (simp_all add: ring_wf_def idle100_def ring_new_def)
  show ?thesis 
    using reserve_idle [OF f(1), of 70] reserve_idle [OF f(1), of 50]
    by (simp add: f del: not_None_eq not_Some_eq)
qed

text \<open>C8: Chase-forward release. On a well-formed tracker, marking a slot never panics; the
  count returned is the length of the longest run of released slots starting at the head,
  exactly those flags are cleared, and the head moves past them.\<close>

theorem tracker_release_prefix:
  assumes "tracker_wf t" "slot < ct_capacity t"
  shows "\<exists>k t'. tracker_release slot t = (Ok k, t') \<and> tracker_wf t'
     \<and> chased (t\<lparr>released := (released t)[slot := True]\<rparr>) k t'"
  by (rule tracker_release_eq [OF assms])

theorem tracker_release_prefix_witness:
  "\<exists>t'. tracker_release 2 \<lparr>released = [True, False, False, True], head_slot = 2, ct_capacity = 4\<rparr> = (Ok 3, t')
     \<and> chased \<lparr>released = [True, False, True, True], head_slot = 2, ct_capacity = 4\<rparr> 3 t'"
proof -
  let ?t = "\<lparr>released = [True, False, False, True], head_slot = 2, ct_capacity = 4\<rparr>"
  have wf: "tracker_wf ?t" by (simp add: tracker_wf_def)
  have "fst (tracker_release 2 ?t) = Ok 3"
    by (simp add: tracker_release_def chase.simps)
  with tracker_release_prefix [OF wf, of 2] show ?thesis by auto
qed

text \<open>C9: Slot count. \<open>clamp_max_outstanding\<close> is at least 1; on a device with room for the
  headroom the queues sized from it fit the device limit; an explicit budget is an upper
  bound; and without one, that many messages of the maximum size fit the ring together.\<close>

theorem clamp_max_outstanding_bounds:
  "1 \<le> clamp_max_outstanding cap mms mif hr dl
   \<and> (max hr 2 < dl \<longrightarrow> clamp_max_outstanding cap mms mif hr dl + max hr 2 \<le> dl)
   \<and> (mif = Some n \<longrightarrow> 1 \<le> n \<longrightarrow> clamp_max_outstanding cap mms mif hr dl \<le> n)
   \<and> (mif = None \<longrightarrow> 0 < mms \<longrightarrow> mms \<le> cap \<longrightarrow> clamp_max_outstanding cap mms mif hr dl * mms \<le> cap)"
  using clamp_bounds(1) clamp_bounds(2) [of hr dl] clamp_bounds(3) clamp_derived by auto

theorem clamp_max_outstanding_bounds_witness:
  "clamp_max_outstanding 65536 1500 None 2 16384 = 43
   \<and> clamp_max_outstanding 65536 1500 None 2 16384 + max 2 2 \<le> 16384
   \<and> clamp_max_outstanding 65536 1500 (Some 1024) 2 16384 \<le> 1024
   \<and> clamp_max_outstanding 65536 1500 None 2 16384 * 1500 \<le> 65536"
  using clamp_max_outstanding_bounds [of 65536 1500 None 2 16384]
    clamp_max_outstanding_bounds [of 65536 1500 "Some 1024" 2 16384 1024]
  by (simp add: clamp_max_outstanding_def)

text \<open>C10: Gather copy. \<open>gather_into\<close> writes the longest prefix of the concatenated slices
  that fits the destination, returns its length, and leaves the rest of the destination
  unchanged.\<close>

theorem gather_into_concat:
  "gather_into dst bufs =
     (min (length dst) (length (concat bufs)),
      take (length dst) (concat bufs) @ drop (length (concat bufs)) dst)"
  by (auto simp: gather_into_eq Let_def min_def)

text \<open>C11: Setup completions. When the reaper accepts a sequence of send completions down to
  none remaining, they are exactly the expected work requests, each once, and all of them
  succeeded.\<close>

theorem reap_setup_exact:
  assumes "distinct expected" "reap_setup expected cs 0 (length expected) = Ok (seen, 0)"
  shows "set (map wr_id cs) = set expected \<and> distinct (map wr_id cs) \<and> (\<forall>c \<in> set cs. is_success c)"
proof -
  note r = reap_setup_Ok [OF assms(2)]
  then have d: "distinct (map wr_id cs)" and ok: "\<forall>c \<in> set cs. is_success c" by blast+
  have "card (set (map wr_id cs)) = card (set expected)"
    using d r assms(1) distinct_card [of "map wr_id cs"] distinct_card [of expected] by simp
  moreover have "set (map wr_id cs) \<subseteq> set expected" using r by auto
  ultimately have "set (map wr_id cs) = set expected" by (simp add: card_subset_eq)
  with d ok show ?thesis by blast
qed

theorem reap_setup_exact_witness:
  "\<exists>seen. reap_setup [7, 9] [wc_default\<lparr>wr_id := 9\<rparr>, wc_default\<lparr>wr_id := 7\<rparr>] 0 (length [7, 9 :: u64]) = Ok (seen, 0)
     \<and> set (map wr_id [wc_default\<lparr>wr_id := 9\<rparr>, wc_default\<lparr>wr_id := 7\<rparr>]) = {7, 9}"
proof -
  have "reap_setup [7, 9] [wc_default\<lparr>wr_id := 9\<rparr>, wc_default\<lparr>wr_id := 7\<rparr>] 0 (length [7, 9 :: u64]) = Ok (3, 0)"
    by (simp add: index_of_def is_success_def wc_default_def)
  from reap_setup_exact [OF _ this] this show ?thesis by auto
qed

text \<open>C12: Token exchange. A token built by the peer's setup code, with a capacity from 1 to
  65536, that lands in the posted receive buffer is accepted, and yields the peer's ring
  address, key and capacity.\<close>

theorem ring_token_exchange:
  assumes "length buf = RING_TOKEN_SIZE" "0 < cap" "cap \<le> 65536"
    and "t = \<lparr>tok_version = RING_TOKEN_VERSION, tok_reserved = [0, 0, 0], tok_ring_va = va,
              tok_mw_rkey = rkey, tok_capacity = word_of_nat cap\<rparr>"
  shows "check_ring_token (token_from_bytes (upd_range buf 0 (token_to_bytes t))) = Ok (va, rkey, cap)"
proof -
  have u: "unat (word_of_nat cap :: u32) = cap" using assms by (simp add: unat_of_nat)
  have "(word_of_nat cap :: u32) \<noteq> 0" using u assms(2) by auto
  with u show ?thesis
    using ring_codec.landed_token [OF assms(1), of t] assms by (simp add: check_ring_token_def)
qed

theorem ring_token_exchange_witness:
  "check_ring_token (token_from_bytes (upd_range (replicate 20 0) 0 (token_to_bytes
     \<lparr>tok_version = RING_TOKEN_VERSION, tok_reserved = [0, 0, 0], tok_ring_va = 4096,
      tok_mw_rkey = 77, tok_capacity = word_of_nat 65536\<rparr>))) = Ok (4096, 77, 65536)"
  using ring_token_exchange [of "replicate 20 0" 65536] by (simp add: RING_TOKEN_SIZE_def)

end
