(* ===== verification/Tracker.thy ===== *)
theory Tracker
  imports Ring
begin

section \<open>The completion tracker is a cumulative acknowledgement\<close>

text \<open>
  Both ring transports number the messages they receive and release them in any order, but
  free space or credits only for the longest prefix released. The specification of that is
  the least number not yet released; the code keeps a window of \<open>max_outstanding\<close> flags and
  a head. The refinement is per call of \<open>release\<close>.
\<close>

definition ack :: "nat set \<Rightarrow> nat" where
  "ack R = (LEAST n. n \<notin> R)"

text \<open>The flags of the window from the acknowledged number on say what has been released.\<close>

definition tracks :: "completion_tracker \<Rightarrow> nat set \<Rightarrow> bool" where
  "tracks t R \<longleftrightarrow>
     (let n = ct_capacity t; f = ack R in
      tracker_wf t \<and> head_slot t = f mod n \<and> R \<subseteq> {..<f + n}
      \<and> (\<forall>x. f \<le> x \<and> x < f + n \<longrightarrow> (released t ! (x mod n) \<longleftrightarrow> x \<in> R)))"

lemma ack_eq: "{..<f} \<subseteq> R \<Longrightarrow> f \<notin> R \<Longrightarrow> ack R = f"
  unfolding ack_def by (rule Least_equality) (auto simp: not_le [symmetric])

lemma tracks_ack:
  assumes "tracks t R"
  shows "ack R \<notin> R" "{..<ack R} \<subseteq> R"
proof -
  have "ack R + ct_capacity t \<notin> R" using assms by (auto simp: tracks_def Let_def)
  then show "ack R \<notin> R" unfolding ack_def by (rule LeastI)
  show "{..<ack R} \<subseteq> R" unfolding ack_def by (auto dest: not_less_Least)
qed

lemma tracks_new: "0 < n \<Longrightarrow> tracks (tracker_new n) {}"
proof -
  assume n: "0 < n"
  have "ack {} = 0" by (rule ack_eq) auto
  with n show ?thesis by (simp add: tracks_def tracker_wf_new) (simp add: tracker_new_def)
qed

text \<open>Two numbers of a window of \<open>n\<close> with the same residue are equal.\<close>

lemma window_mod_eq:
  fixes f n x y :: nat
  assumes "f \<le> x" "x < f + n" "f \<le> y" "y < f + n" "x mod n = y mod n"
  shows "x = y"
proof -
  have "(f + (x - f)) mod n = (f + (y - f)) mod n" using assms by simp
  then have "x - f = y - f"
    using mod_shift_inj [of "x - f" "y - f" n f] mod_shift_inj [of "y - f" "x - f" n f] assms
    by (metis less_diff_conv2 linorder_neqE_nat add.commute)
  with assms show ?thesis by simp
qed

lemma flags_insert:
  assumes "tracks t R" "ack R \<le> s" "s < ack R + ct_capacity t" "ack R \<le> x" "x < ack R + ct_capacity t"
  shows "(released t)[s mod ct_capacity t := True] ! (x mod ct_capacity t) \<longleftrightarrow> x \<in> insert s R"
proof (cases "x = s")
  case True
  with assms(1) show ?thesis by (auto simp: tracks_def tracker_wf_def Let_def)
next
  case False
  then have "s mod ct_capacity t \<noteq> x mod ct_capacity t"
    using window_mod_eq [of "ack R" x "ct_capacity t" s] assms by auto
  with False assms show ?thesis by (simp add: tracks_def Let_def)
qed

lemma tracker_release_ack:
  assumes tr: "tracks t R" and s: "ack R \<le> s" "s < ack R + ct_capacity t"
  obtains k t' where "tracker_release (s mod ct_capacity t) t = (Ok k, t')"
    "ack (insert s R) = ack R + k" "tracks t' (insert s R)" "ct_capacity t' = ct_capacity t"
proof -
  let ?n = "ct_capacity t" and ?f = "ack R" and ?R = "insert s R"
  let ?t1 = "t\<lparr>released := (released t)[s mod ?n := True]\<rparr>"
  from tr have wf: "tracker_wf t" and hd: "head_slot t = ?f mod ?n" and R: "R \<subseteq> {..<?f + ?n}"
    by (auto simp: tracks_def Let_def)
  have n0: "0 < ?n" using wf by (auto simp: tracker_wf_def)
  from tracker_release_eq [OF wf, of "s mod ?n"] n0 obtain k t'
    where rel: "tracker_release (s mod ?n) t = (Ok k, t')" and wf': "tracker_wf t'"
      and c: "chased ?t1 k t'" by auto
  have sh: "(?f mod ?n + i) mod ?n = (?f + i) mod ?n" for i by (simp add: mod_simps)
  note C = c [unfolded chased_def Let_def, simplified, unfolded hd sh]
  note F = flags_insert [OF tr s]
  have k: "k \<le> ?n" "ct_capacity t' = ?n" "head_slot t' = (?f + k) mod ?n" using C by auto
  have pre: "?f + i \<in> ?R" if "i < k" for i
    using C F [of "?f + i"] that k(1) by auto
  have fresh: "?f + k \<notin> ?R"
  proof (cases "k < ?n")
    case True
    with C F [of "?f + k"] show ?thesis by auto
  next
    case False
    with k(1) R s show ?thesis by auto
  qed
  have a: "ack ?R = ?f + k"
  proof (rule ack_eq)
    show "{..<?f + k} \<subseteq> ?R"
    proof
      fix x assume "x \<in> {..<?f + k}"
      then show "x \<in> ?R"
        using tracks_ack(2) [OF tr] pre [of "x - ?f"] by (cases "x < ?f") auto
    qed
  qed (rule fresh)
  have "released t' ! (x mod ?n) \<longleftrightarrow> x \<in> ?R" if x: "?f + k \<le> x" "x < ?f + k + ?n" for x
  proof (cases "x < ?f + ?n")
    case True
    have "x mod ?n \<noteq> (?f + i) mod ?n" if "i < k" for i
      using window_mod_eq [of ?f x ?n "?f + i"] that x True k(1) by auto
    with C n0 F [of x] x True show ?thesis by auto
  next
    case False
    have i: "x - ?n - ?f < k" "x mod ?n = (?f + (x - ?n - ?f)) mod ?n"
      using x False by (auto simp: le_mod_geq)
    then have "\<not> released t' ! (x mod ?n)" using C n0 by auto
    moreover have "x \<notin> ?R" using False R s by auto
    ultimately show ?thesis by simp
  qed
  then have "tracks t' ?R"
    using wf' k R s by (auto simp: tracks_def Let_def a)
  with rel a show thesis using k(2) by (rule that)
qed

subsection \<open>Properties\<close>

text \<open>C27: The tracker refines the cumulative acknowledgement. Starting empty, as long as every
  number released lies in the window of \<open>max_outstanding\<close> numbers from the acknowledged one on,
  \<open>release\<close> never panics and returns exactly by how much the least unreleased number grew; the
  flags and the head again represent the released set.\<close>

theorem tracker_cumulative:
  assumes "tracks t R" "ack R \<le> s" "s < ack R + ct_capacity t"
  shows "tracks (tracker_new (Suc n)) {} \<and>
    (\<exists>k t'. tracker_release (s mod ct_capacity t) t = (Ok k, t') \<and> ack (insert s R) = ack R + k
       \<and> tracks t' (insert s R))"
  using tracks_new [of "Suc n"] by (auto intro: tracker_release_ack [OF assms])

theorem tracker_cumulative_witness:
  "\<exists>k t'. tracker_release (1 mod 2) (tracker_new 2) = (Ok k, t') \<and> ack {1} = ack {} + k \<and> tracks t' {1}"
proof -
  have a: "ack {} = 0" by (rule ack_eq) auto
  show ?thesis
    using tracker_cumulative [of "tracker_new 2" "{}" 1 0] tracks_new [of 2]
    by (simp add: a) (simp add: tracker_new_def)
qed

end
