(* ===== verification/SendRecv.thy ===== *)
theory SendRecv
  imports Ring
begin

section \<open>The send/recv transport\<close>

text \<open>
  \<^verbatim>\<open>send_recv_transport.rs\<close> and the default method of the \<open>Transport\<close> trait
  (\<^verbatim>\<open>transport.rs\<close>): a pool of send buffers with an in-flight flag each and a pool of
  pre-posted receive buffers. Every trait method is a function of the transport's record
  \<open>t\<close> and of the world \<open>w\<close>. Connection establishment is the connection manager's; what
  the transport does around it (buffers, pre-posted receives, \<open>from_parts\<close>) is modelled.

  The lemmas show that the flags over-approximate the work requests the device still owns,
  so that no buffer under transmission is written; what each send accepts; and that the
  gathering send is the copying send of the concatenation.
\<close>

subsection \<open>Configuration and state\<close>

record send_recv_config =
  sc_buf_size :: nat
  sc_num_recv_bufs :: nat
  sc_num_send_bufs :: nat
  sc_max_inline_data :: u32
  sc_qp_type :: qp_type

definition sc_stream :: send_recv_config where
  "sc_stream = \<lparr>sc_buf_size = 64 * 1024, sc_num_recv_bufs = 8, sc_num_send_bufs = 1,
     sc_max_inline_data = 0, sc_qp_type = Rc\<rparr>"

definition sc_stream_with_depth :: "nat \<Rightarrow> send_recv_config" where
  "sc_stream_with_depth depth =
     (let depth = max depth 1 in
      \<lparr>sc_buf_size = 64 * 1024, sc_num_recv_bufs = max (depth + 2) 8,
       sc_num_send_bufs = max (depth + 1) 2, sc_max_inline_data = 0, sc_qp_type = Rc\<rparr>)"

definition sc_datagram :: send_recv_config where
  "sc_datagram = \<lparr>sc_buf_size = 1500, sc_num_recv_bufs = 64, sc_num_send_bufs = 4,
     sc_max_inline_data = 64, sc_qp_type = Rc\<rparr>"

record qp_init_attr =
  qa_qp_type :: qp_type
  qa_max_send_wr :: u32
  qa_max_recv_wr :: u32
  qa_max_send_sge :: u32
  qa_max_recv_sge :: u32
  qa_max_inline_data :: u32
  qa_sq_sig_all :: bool

definition sr_make_qp_attr :: "send_recv_config \<Rightarrow> qp_init_attr" where
  "sr_make_qp_attr c =
     \<lparr>qa_qp_type = sc_qp_type c, qa_max_send_wr = word_of_nat (sc_num_send_bufs c) + 1,
      qa_max_recv_wr = word_of_nat (sc_num_recv_bufs c) + 1, qa_max_send_sge = 1,
      qa_max_recv_sge = 1, qa_max_inline_data = sc_max_inline_data c, qa_sq_sig_all = True\<rparr>"

record send_recv =
  sr_disconnected :: bool
  sr_peer_disconnected :: bool
  sr_next_send_idx :: nat
  sr_send_in_flight :: "bool list"
  sr_config :: send_recv_config
  sr_qp :: async_qp
  sr_send_src :: source
  sr_recv_src :: source
  sr_send_bufs :: "mr list"
  sr_recv_bufs :: "mr list"
  sr_event_channel :: nat
  sr_cm_id :: u32

text \<open>A completed receive of the \<open>Transport\<close> trait.\<close>

record recv_completion =
  rc_buf_idx :: nat
  rc_byte_len :: nat

subsection \<open>Setup\<close>

fun reg_buffers :: "'n nic \<Rightarrow> nat \<Rightarrow> nat \<Rightarrow> 'n world \<Rightarrow> mr list res \<times> 'n world" where
  "reg_buffers nic 0 buf_size w = (Ok [], w)"
| "reg_buffers nic (Suc k) buf_size w =
     (case reg_mr_owned nic (replicate buf_size 0) LOCAL_WRITE w of
        (Ok m, w) \<Rightarrow>
          (case reg_buffers nic k buf_size w of
             (Ok ms, w) \<Rightarrow> (Ok (m # ms), w)
           | (Err e, w) \<Rightarrow> (Err e, w)
           | (Panic, w) \<Rightarrow> (Panic, w))
      | (Err e, w) \<Rightarrow> (Err e, w)
      | (Panic, w) \<Rightarrow> (Panic, w))"

definition alloc_buffers ::
    "'n nic \<Rightarrow> send_recv_config \<Rightarrow> 'n world \<Rightarrow> (mr list \<times> mr list) res \<times> 'n world" where
  "alloc_buffers nic c w =
     (case reg_buffers nic (sc_num_send_bufs c) (sc_buf_size c) w of
        (Ok sends, w) \<Rightarrow>
          (case reg_buffers nic (sc_num_recv_bufs c) (sc_buf_size c) w of
             (Ok recvs, w) \<Rightarrow> (Ok (sends, recvs), w)
           | (Err e, w) \<Rightarrow> (Err e, w)
           | (Panic, w) \<Rightarrow> (Panic, w))
      | (Err e, w) \<Rightarrow> (Err e, w)
      | (Panic, w) \<Rightarrow> (Panic, w))"

text \<open>The loop that pre-posts the receive buffers, from index \<open>i\<close>.\<close>

fun post_recv_bufs :: "'n nic \<Rightarrow> async_qp \<Rightarrow> nat \<Rightarrow> mr list \<Rightarrow> 'n world \<Rightarrow> unit res \<times> 'n world" where
  "post_recv_bufs nic qp i [] w = (Ok (), w)"
| "post_recv_bufs nic qp i (m # ms) w =
     (case post_recv_buffer nic qp m (word_of_nat i) w of
        (Ok _, w) \<Rightarrow> post_recv_bufs nic qp (i + 1) ms w
      | (Err e, w) \<Rightarrow> (Err e, w)
      | (Panic, w) \<Rightarrow> (Panic, w))"

definition sr_from_parts ::
    "async_qp \<Rightarrow> source \<Rightarrow> source \<Rightarrow> nat \<Rightarrow> u32 \<Rightarrow> mr list \<Rightarrow> mr list \<Rightarrow> send_recv_config \<Rightarrow> send_recv" where
  "sr_from_parts qp ssrc rsrc ch cmid sends recvs c =
     \<lparr>sr_disconnected = False, sr_peer_disconnected = False, sr_next_send_idx = 0,
      sr_send_in_flight = replicate (sc_num_send_bufs c) False, sr_config = c, sr_qp = qp,
      sr_send_src = ssrc, sr_recv_src = rsrc, sr_send_bufs = sends, sr_recv_bufs = recvs,
      sr_event_channel = ch, sr_cm_id = cmid\<rparr>"

text \<open>
  \<open>connect\<close> and \<open>complete_accept\<close> around the connection manager's handshake
  \<open>establish\<close>: queue pair number, the two completion queues with their channels, the CM id
  and the event channel are what the manager created.
\<close>

definition sr_setup ::
    "'n nic \<Rightarrow> ('n world \<Rightarrow> unit res \<times> 'n world) \<Rightarrow> u32 \<Rightarrow> async_cq \<Rightarrow> async_cq \<Rightarrow> nat \<Rightarrow> u32 \<Rightarrow>
       send_recv_config \<Rightarrow> 'n world \<Rightarrow> send_recv res \<times> 'n world" where
  "sr_setup nic establish qpn scq rcq ch cmid c w =
     (case alloc_buffers nic c w of
        (Ok (sends, recvs), w) \<Rightarrow>
          (let qp = new_poster qpn in
           case post_recv_bufs nic qp 0 recvs w of
             (Ok _, w) \<Rightarrow>
               (case establish w of
                  (Ok _, w) \<Rightarrow>
                    (Ok (sr_from_parts qp (ArmPark scq CqIdle) (ArmPark rcq CqIdle) ch cmid
                           sends recvs c), w)
                | (Err e, w) \<Rightarrow> (Err e, w)
                | (Panic, w) \<Rightarrow> (Panic, w))
           | (Err e, w) \<Rightarrow> (Err e, w)
           | (Panic, w) \<Rightarrow> (Panic, w))
      | (Err e, w) \<Rightarrow> (Err e, w)
      | (Panic, w) \<Rightarrow> (Panic, w))"

subsection \<open>Send path\<close>

text \<open>
  The round-robin search for a free buffer: \<open>Ok (Some idx)\<close>, or \<open>Ok None\<close> when it is back
  at \<open>start\<close>. The fuel is the number of buffers, which bounds the search.
\<close>

fun find_free :: "nat \<Rightarrow> bool list \<Rightarrow> nat \<Rightarrow> nat \<Rightarrow> nat option res" where
  "find_free 0 fl start idx = Panic"
| "find_free (Suc k) fl start idx =
     (if idx \<ge> length fl then Panic
      else if \<not> fl ! idx then Ok (Some idx)
      else
        let idx = (idx + 1) mod length fl
        in if idx = start then Ok None else find_free k fl start idx)"

definition sr_pick :: "send_recv \<Rightarrow> nat option res" where
  "sr_pick t =
     (let n = length (sr_send_bufs t) in
      if n = 0 then Panic
      else let start = sr_next_send_idx t mod n
           in find_free n (sr_send_in_flight t) start start)"

text \<open>The common tail: copy \<open>content\<close> to the start of buffer \<open>idx\<close>, post it, flag it.\<close>

definition sr_post ::
    "'n nic \<Rightarrow> nat \<Rightarrow> bytes \<Rightarrow> send_recv \<Rightarrow> 'n world \<Rightarrow> nat res \<times> send_recv \<times> 'n world" where
  "sr_post nic idx content t w =
     (let n = length (sr_send_bufs t);
          m = (sr_send_bufs t) ! idx;
          len = length content;
          m = m\<lparr>mr_bytes := upd_range (mr_bytes m) 0 content\<rparr>;
          t = t\<lparr>sr_send_bufs := (sr_send_bufs t)[idx := m]\<rparr>;
          i = word_of_nat (sc_num_recv_bufs (sr_config t)) + word_of_nat idx
      in case post_send_signaled nic (sr_qp t) m 0 len i w of
           (Ok _, w) \<Rightarrow>
             (Ok len, t\<lparr>sr_send_in_flight := (sr_send_in_flight t)[idx := True],
                        sr_next_send_idx := (idx + 1) mod n\<rparr>, w)
         | (Err e, w) \<Rightarrow> (Err e, t, w)
         | (Panic, w) \<Rightarrow> (Panic, t, w))"

definition sr_send_copy ::
    "'n nic \<Rightarrow> bytes \<Rightarrow> send_recv \<Rightarrow> 'n world \<Rightarrow> nat res \<times> send_recv \<times> 'n world" where
  "sr_send_copy nic data t w =
     (case sr_pick t of
        Ok None \<Rightarrow> (Ok 0, t, w)
      | Ok (Some idx) \<Rightarrow>
          if idx \<ge> length (sr_send_bufs t) then (Panic, t, w)
          else
            let len = min (length data) (length (mr_bytes (sr_send_bufs t ! idx)))
            in sr_post nic idx (take len data) t w
      | Err e \<Rightarrow> (Err e, t, w)
      | Panic \<Rightarrow> (Panic, t, w))"

definition sr_send_gather ::
    "'n nic \<Rightarrow> bytes list \<Rightarrow> send_recv \<Rightarrow> 'n world \<Rightarrow> nat res \<times> send_recv \<times> 'n world" where
  "sr_send_gather nic bufs t w =
     (let tot = sum_list (map length bufs) in
      if tot = 0 then (Ok 0, t, w)
      else
        case sr_pick t of
          Ok None \<Rightarrow> (Ok 0, t, w)
        | Ok (Some idx) \<Rightarrow>
            if idx \<ge> length (sr_send_bufs t) then (Panic, t, w)
            else
              let dst = mr_bytes (sr_send_bufs t ! idx);
                  len = min tot (length dst);
                  (_, content) = gather_into (take len dst) bufs
              in sr_post nic idx content t w
        | Err e \<Rightarrow> (Err e, t, w)
        | Panic \<Rightarrow> (Panic, t, w))"

text \<open>The trait's default \<open>send_gather\<close>, over any \<open>send_copy\<close>.\<close>

definition default_send_gather ::
    "(bytes \<Rightarrow> 't \<Rightarrow> 'w \<Rightarrow> nat res \<times> 't \<times> 'w) \<Rightarrow> bytes list \<Rightarrow> 't \<Rightarrow> 'w \<Rightarrow> nat res \<times> 't \<times> 'w" where
  "default_send_gather send_copy bufs t w =
     (let tot = sum_list (map length bufs) in
      if tot = 0 then (Ok 0, t, w)
      else if length bufs = 1 then send_copy (bufs ! 0) t w
      else send_copy (concat bufs) t w)"

text \<open>The loop over the reaped send completions; \<open>wr_id as usize\<close>, \<open>checked_sub\<close>, \<open>filter\<close>.\<close>

fun sr_reap_sends :: "wc list \<Rightarrow> send_recv \<Rightarrow> unit res \<times> send_recv" where
  "sr_reap_sends [] t = (Ok (), t)"
| "sr_reap_sends (c # cs) t =
     (if \<not> is_success c then (Err (wc_error c), t\<lparr>sr_peer_disconnected := True\<rparr>)
      else
        let i = unat (wr_id c); nr = sc_num_recv_bufs (sr_config t) in
        if nr \<le> i \<and> i - nr < length (sr_send_in_flight t) then
          sr_reap_sends cs (t\<lparr>sr_send_in_flight := (sr_send_in_flight t)[i - nr := False]\<rparr>)
        else sr_reap_sends cs t)"

definition sr_poll_send_completion ::
    "'n nic \<Rightarrow> nat \<Rightarrow> send_recv \<Rightarrow> 'n world \<Rightarrow> (unit res poll \<times> send_recv \<times> 'n world) option" where
  "sr_poll_send_completion nic task t w =
     (case poll_completions nic task 4 (sr_send_src t) w of
        None \<Rightarrow> None
      | Some (p, src, w) \<Rightarrow>
          let t = t\<lparr>sr_send_src := src\<rparr> in
          (case p of
             Pending \<Rightarrow> Some (Pending, t, w)
           | Ready (Err e) \<Rightarrow> Some (Ready (Err e), t, w)
           | Ready Panic \<Rightarrow> Some (Ready Panic, t, w)
           | Ready (Ok wcs) \<Rightarrow> let (r, t) = sr_reap_sends wcs t in Some (Ready r, t, w)))"

definition sr_sends_in_flight :: "send_recv \<Rightarrow> nat" where
  "sr_sends_in_flight t = length (filter (\<lambda>b. b) (sr_send_in_flight t))"

subsection \<open>Receive path\<close>

definition sr_recv_window :: "send_recv \<Rightarrow> nat" where
  "sr_recv_window t = length (sr_recv_bufs t)"

fun sr_reap_recvs :: "wc list \<Rightarrow> send_recv \<Rightarrow> recv_completion list res \<times> send_recv" where
  "sr_reap_recvs [] t = (Ok [], t)"
| "sr_reap_recvs (c # cs) t =
     (if \<not> is_success c then (Err (wc_error c), t\<lparr>sr_peer_disconnected := True\<rparr>)
      else
        case sr_reap_recvs cs t of
          (Ok rcs, t) \<Rightarrow>
            (Ok (\<lparr>rc_buf_idx = unat (wr_id c),
                  rc_byte_len = min (unat (byte_len c)) (sc_buf_size (sr_config t))\<rparr> # rcs), t)
        | (Err e, t) \<Rightarrow> (Err e, t)
        | (Panic, t) \<Rightarrow> (Panic, t))"

definition sr_poll_recv ::
    "'n nic \<Rightarrow> nat \<Rightarrow> nat \<Rightarrow> send_recv \<Rightarrow> 'n world \<Rightarrow>
       (recv_completion list res poll \<times> send_recv \<times> 'n world) option" where
  "sr_poll_recv nic task out_len t w =
     (case poll_completions nic task (min out_len 8) (sr_recv_src t) w of
        None \<Rightarrow> None
      | Some (p, src, w) \<Rightarrow>
          let t = t\<lparr>sr_recv_src := src\<rparr> in
          (case p of
             Pending \<Rightarrow> Some (Pending, t, w)
           | Ready (Err e) \<Rightarrow> Some (Ready (Err e), t, w)
           | Ready Panic \<Rightarrow> Some (Ready Panic, t, w)
           | Ready (Ok wcs) \<Rightarrow> let (r, t) = sr_reap_recvs wcs t in Some (Ready r, t, w)))"

definition sr_recv_buf :: "'n nic \<Rightarrow> nat \<Rightarrow> send_recv \<Rightarrow> 'n world \<Rightarrow> bytes res" where
  "sr_recv_buf nic buf_idx t w =
     (if buf_idx < length (sr_recv_bufs t)
      then Ok (host_memory nic (sr_recv_bufs t ! buf_idx) (hw w)) else Panic)"

definition sr_repost_recv ::
    "'n nic \<Rightarrow> nat \<Rightarrow> send_recv \<Rightarrow> 'n world \<Rightarrow> unit res \<times> send_recv \<times> 'n world" where
  "sr_repost_recv nic buf_idx t w =
     (if buf_idx < length (sr_recv_bufs t) then
        let (r, w) = post_recv_buffer nic (sr_qp t) (sr_recv_bufs t ! buf_idx) (word_of_nat buf_idx) w
        in (r, t, w)
      else (Panic, t, w))"

subsection \<open>Disconnect and drop\<close>

definition sr_poll_disconnect ::
    "'n nic \<Rightarrow> send_recv \<Rightarrow> 'n world \<Rightarrow> (bool \<times> send_recv \<times> 'n world) option" where
  "sr_poll_disconnect nic t w =
     map_option (\<lambda>(b, pd, w). (b, t\<lparr>sr_peer_disconnected := pd\<rparr>, w))
       (poll_cm_disconnect nic (sr_event_channel t) (sr_peer_disconnected t) w)"

definition sr_disconnect :: "'n nic \<Rightarrow> send_recv \<Rightarrow> 'n world \<Rightarrow> unit res \<times> send_recv \<times> 'n world" where
  "sr_disconnect nic t w =
     (if \<not> sr_disconnected t then
        (case cm_disconnect nic (sr_cm_id t) w of
           (Ok _, w) \<Rightarrow> (Ok (), t\<lparr>sr_disconnected := True\<rparr>, w)
         | (Err e, w) \<Rightarrow> (Err e, t, w)
         | (Panic, w) \<Rightarrow> (Panic, t, w))
      else (Ok (), t, w))"

definition sr_drop :: "'n nic \<Rightarrow> send_recv \<Rightarrow> 'n world \<Rightarrow> 'n world" where
  "sr_drop nic t w =
     (let w = (if \<not> sr_disconnected t then snd (cm_disconnect nic (sr_cm_id t) w) else w);
          w = snd (to_error nic (sr_qp t) w)
      in drain_flushed nic (sr_send_src t) (sr_recv_src t) w)"

subsection \<open>Picking a buffer\<close>

lemma find_free_from:
  assumes "0 < n" "length fl = n" "start < n" "j < n"
    and "\<forall>i < j. fl ! ((start + i) mod n)"
  shows "(\<exists>idx < n. \<not> fl ! idx \<and> find_free (n - j) fl start ((start + j) mod n) = Ok (Some idx))
     \<or> (\<forall>i < n. fl ! i) \<and> find_free (n - j) fl start ((start + j) mod n) = Ok None"
  using assms(4,5)
proof (induction "n - j" arbitrary: j)
  case (Suc k)
  let ?i = "(start + j) mod n"
  have i: "?i < n" using assms(1) by simp
  have ge: "\<not> length fl \<le> ?i" using i assms(2) by simp
  have nj: "n - j = Suc k" "k = n - Suc j" using Suc by auto
  show ?case
  proof (cases "fl ! ?i")
    case False
    then have "find_free (n - j) fl start ?i = Ok (Some ?i)"
      by (simp only: nj(1) find_free.simps if_not_P [OF ge]) simp
    with i False show ?thesis by blast
  next
    case True
    have step: "find_free (n - j) fl start ?i =
        (let idx = (?i + 1) mod n in if idx = start then Ok None else find_free k fl start idx)"
      using True by (simp only: nj(1) find_free.simps if_not_P [OF ge]) (simp add: assms(2))
    have wrap: "(?i + 1) mod n = (start + Suc j) mod n" by (simp add: mod_simps)
    have all: "\<forall>i < Suc j. fl ! ((start + i) mod n)"
      using Suc.prems(2) True by (auto simp: less_Suc_eq)
    show ?thesis
    proof (cases "Suc j = n")
      case True
      then have home: "(start + Suc j) mod n = start" using assms(3) by simp
      have "fl ! i" if "i < n" for i
      proof -
        have "\<exists>d < n. i = (start + d) mod n"
        proof (cases "start \<le> i")
          case True
          with that show ?thesis by (intro exI [of _ "i - start"]) auto
        next
          case False
          with that assms(3) show ?thesis by (intro exI [of _ "n + i - start"]) auto
        qed
        with all \<open>Suc j = n\<close> show ?thesis by auto
      qed
      moreover have "find_free (n - j) fl start ?i = Ok None"
        by (simp only: step Let_def wrap home) simp
      ultimately show ?thesis by blast
    next
      case False
      with Suc.prems(1) have j: "Suc j < n" by simp
      have "(start + Suc j) mod n \<noteq> start"
        using mod_shift_inj [of 0 "Suc j" n start] j assms(3) by auto
      then have "find_free (n - j) fl start ?i = find_free (n - Suc j) fl start ((start + Suc j) mod n)"
        by (simp only: step Let_def wrap nj(2) if_False)
      with Suc.hyps(1) [OF nj(2) j all] show ?thesis by simp
    qed
  qed
qed (use assms in simp)

text \<open>The search never panics, and fails only when every buffer is in flight.\<close>

lemma sr_pick_cases:
  assumes "0 < length (sr_send_bufs t)" "length (sr_send_in_flight t) = length (sr_send_bufs t)"
  obtains (free) idx where "sr_pick t = Ok (Some idx)" "idx < length (sr_send_bufs t)"
      "\<not> sr_send_in_flight t ! idx"
    | (busy) "sr_pick t = Ok None" "\<forall>i < length (sr_send_bufs t). sr_send_in_flight t ! i"
proof -
  let ?n = "length (sr_send_bufs t)"
  from find_free_from [of ?n "sr_send_in_flight t" "sr_next_send_idx t mod ?n" 0] assms
  show ?thesis using free busy by (auto simp: sr_pick_def Let_def)
qed

subsection \<open>Which buffers the device may read\<close>

definition sr_wf :: "nat \<Rightarrow> nat \<Rightarrow> send_recv \<Rightarrow> bool" where
  "sr_wf scq rcq t \<longleftrightarrow>
     0 < length (sr_send_bufs t) \<and> length (sr_send_in_flight t) = length (sr_send_bufs t)
     \<and> (\<forall>m \<in> set (sr_send_bufs t). length (mr_bytes m) = sc_buf_size (sr_config t))
     \<and> sc_num_recv_bufs (sr_config t) + length (sr_send_bufs t) < 2 ^ 64
     \<and> scq \<noteq> rcq
     \<and> (\<exists>c st. sr_send_src t = ArmPark c st \<and> ac_cq c = scq)
     \<and> (\<exists>c st. sr_recv_src t = ArmPark c st \<and> ac_cq c = rcq)"

text \<open>The work-request id of send buffer \<open>i\<close>.\<close>

definition sr_wr_id :: "send_recv \<Rightarrow> nat \<Rightarrow> u64" where
  "sr_wr_id t i = word_of_nat (sc_num_recv_bufs (sr_config t) + i)"

text \<open>Every send the device owns is of a buffer flagged in flight.\<close>

definition sr_owned :: "send_recv \<Rightarrow> u64 set \<Rightarrow> bool" where
  "sr_owned t ids \<longleftrightarrow> ids \<subseteq> sr_wr_id t ` {i. i < length (sr_send_in_flight t) \<and> sr_send_in_flight t ! i}"

lemma sr_wr_id_inj:
  assumes "sr_wf scq rcq t" "i < length (sr_send_bufs t)" "unat (sr_wr_id t i) = k"
  shows "k = sc_num_recv_bufs (sr_config t) + i"
proof -
  have "sc_num_recv_bufs (sr_config t) + i < 2 ^ 64" using assms by (auto simp: sr_wf_def)
  then have "unat (word_of_nat (sc_num_recv_bufs (sr_config t) + i) :: u64)
      = sc_num_recv_bufs (sr_config t) + i" by (subst unat_of_nat) simp
  with assms(3) show ?thesis by (simp only: sr_wr_id_def)
qed

text \<open>What a step may change: no buffer in flight, and none of the fixed parts.\<close>

definition sr_kept :: "send_recv \<Rightarrow> send_recv \<Rightarrow> bool" where
  "sr_kept t t' \<longleftrightarrow>
     length (sr_send_bufs t') = length (sr_send_bufs t) \<and> sr_config t' = sr_config t
     \<and> sr_qp t' = sr_qp t
     \<and> (\<forall>i < length (sr_send_bufs t). sr_send_in_flight t ! i \<longrightarrow> sr_send_bufs t' ! i = sr_send_bufs t ! i)"

text \<open>The invariant and its preservation by an operation, in one relation.\<close>

definition sr_ok :: "nat \<Rightarrow> nat \<Rightarrow> ('n \<Rightarrow> u64 set) \<Rightarrow> send_recv \<times> 'n world \<Rightarrow> bool" where
  "sr_ok scq rcq out s \<longleftrightarrow> sr_wf scq rcq (fst s) \<and> sr_owned (fst s) (out (hw (snd s)))"

definition sr_safe :: "nat \<Rightarrow> nat \<Rightarrow> ('n \<Rightarrow> u64 set) \<Rightarrow> send_recv \<times> 'n world \<Rightarrow> send_recv \<times> 'n world \<Rightarrow> bool" where
  "sr_safe scq rcq out s s' \<longleftrightarrow> (sr_ok scq rcq out s \<longrightarrow> sr_ok scq rcq out s' \<and> sr_kept (fst s) (fst s'))"

lemmas sr_inv_defs = sr_ok_def sr_safe_def sr_kept_def sr_owned_def

lemma sr_post_eq:
  fixes nic :: "'n nic"
  assumes "sr_post nic idx content t w = (r, t', w')" "idx < length (sr_send_bufs t)"
    and "sq_contract nic (aq_qpn (sr_qp t)) scq out"
  shows "\<exists>m. m = (sr_send_bufs t ! idx)\<lparr>mr_bytes := upd_range (mr_bytes (sr_send_bufs t ! idx)) 0 content\<rparr>
     \<and> ((r = Ok (length content)
          \<and> t' = t\<lparr>sr_send_bufs := (sr_send_bufs t)[idx := m],
                   sr_send_in_flight := (sr_send_in_flight t)[idx := True],
                   sr_next_send_idx := (idx + 1) mod length (sr_send_bufs t)\<rparr>
          \<and> out (hw w') = insert (sr_wr_id t idx) (out (hw w)))
        \<or> (is_err r \<and> t' = t\<lparr>sr_send_bufs := (sr_send_bufs t)[idx := m]\<rparr> \<and> out (hw w') = out (hw w)))"
proof -
  let ?m = "(sr_send_bufs t ! idx)\<lparr>mr_bytes := upd_range (mr_bytes (sr_send_bufs t ! idx)) 0 content\<rparr>"
  let ?i = "word_of_nat (sc_num_recv_bufs (sr_config t)) + word_of_nat idx :: u64"
  obtain pr pw where p: "post_send_signaled nic (sr_qp t) ?m 0 (length content) ?i w = (pr, pw)"
    by (rule prod.exhaust)
  have i: "?i = sr_wr_id t idx" by (simp add: sr_wr_id_def)
  from p obtain wr where wr: "post_send_wr nic (sr_qp t) wr w = (pr, pw)" "swr_id wr = ?i"
    by (auto simp: post_send_signaled_def wr_defs Let_def)
  note o = post_send_wr_out [OF assms(3) wr(1)] post_send_wrD [OF wr(1)]
  show ?thesis
    using assms(1) p o i wr(2)
    by (intro exI [of _ ?m]) (auto simp: sr_post_def Let_def from_ret_def split: if_splits)
qed

lemma sr_post_safe:
  assumes "sr_post nic idx content t w = (r, t', w')" "idx < length (sr_send_bufs t)"
    and "\<not> sr_send_in_flight t ! idx" "length content \<le> sc_buf_size (sr_config t)"
    and "sq_contract nic (aq_qpn (sr_qp t)) scq out"
  shows "sr_safe scq rcq out (t, w) (t', w')"
proof -
  let ?m = "(sr_send_bufs t ! idx)\<lparr>mr_bytes := upd_range (mr_bytes (sr_send_bufs t ! idx)) 0 content\<rparr>"
  have wf: "sr_wf scq rcq t'" if w: "sr_wf scq rcq t"
    and t': "t' = t\<lparr>sr_send_bufs := (sr_send_bufs t)[idx := ?m], sr_send_in_flight := fl, sr_next_send_idx := k\<rparr>"
      "length fl = length (sr_send_in_flight t)" for fl k
  proof -
    have "length (mr_bytes (sr_send_bufs t ! idx)) = sc_buf_size (sr_config t)"
      using w assms(2) by (simp add: sr_wf_def)
    then have "length (mr_bytes ?m) = sc_buf_size (sr_config t)" using assms(4) by simp
    then show ?thesis
      using w t' set_update_subset_insert [of "sr_send_bufs t" idx ?m] by (auto simp: sr_wf_def)
  qed
  from sr_post_eq [OF assms(1,2,5)] consider
      (ok) "t' = t\<lparr>sr_send_bufs := (sr_send_bufs t)[idx := ?m],
                   sr_send_in_flight := (sr_send_in_flight t)[idx := True],
                   sr_next_send_idx := (idx + 1) mod length (sr_send_bufs t)\<rparr>"
        "out (hw w') = insert (sr_wr_id t idx) (out (hw w))"
    | (err) "t' = t\<lparr>sr_send_bufs := (sr_send_bufs t)[idx := ?m]\<rparr>" "out (hw w') = out (hw w)" by auto
  then show ?thesis
  proof cases
    case ok
    have "sr_owned t' (out (hw w'))" if "sr_wf scq rcq t" "sr_owned t (out (hw w))"
      using that ok assms(2) by (auto simp: sr_owned_def sr_wr_id_def sr_wf_def nth_list_update image_iff)
    with wf [OF _ ok(1)] assms(2,3) ok show ?thesis
      by (auto simp: sr_ok_def sr_safe_def sr_kept_def nth_list_update)
  next
    case err
    have "t' = t\<lparr>sr_send_bufs := (sr_send_bufs t)[idx := ?m], sr_send_in_flight := sr_send_in_flight t,
        sr_next_send_idx := sr_next_send_idx t\<rparr>" using err by simp
    from wf [OF _ this] err assms(2,3) show ?thesis
      by (auto simp: sr_ok_def sr_safe_def sr_kept_def sr_owned_def sr_wr_id_def nth_list_update)
  qed
qed

lemma sr_safe_refl [simp]: "sr_safe scq rcq out s s"
  by (simp add: sr_safe_def sr_kept_def)

lemma sr_send_copy_safe:
  assumes "sr_send_copy nic data t w = (r, t', w')" "sq_contract nic (aq_qpn (sr_qp t)) scq out"
  shows "sr_safe scq rcq out (t, w) (t', w')"
proof (cases "sr_wf scq rcq t")
  case False
  then show ?thesis by (simp add: sr_safe_def sr_ok_def)
next
  case True
  then have n: "0 < length (sr_send_bufs t)" "length (sr_send_in_flight t) = length (sr_send_bufs t)"
    by (auto simp: sr_wf_def)
  show ?thesis
  proof (rule sr_pick_cases [OF n])
    fix idx assume idx: "sr_pick t = Ok (Some idx)" "idx < length (sr_send_bufs t)"
      "\<not> sr_send_in_flight t ! idx"
    let ?c = "take (min (length data) (length (mr_bytes (sr_send_bufs t ! idx)))) data"
    from assms(1) idx have p: "sr_post nic idx ?c t w = (r, t', w')"
      by (simp add: sr_send_copy_def Let_def)
    have "length ?c \<le> sc_buf_size (sr_config t)" using True idx(2) by (auto simp: sr_wf_def)
    from sr_post_safe [OF p idx(2,3) this assms(2)] show ?thesis .
  next
    assume "sr_pick t = Ok None"
    with assms(1) show ?thesis by (simp add: sr_send_copy_def)
  qed
qed

text \<open>The gathering send is the copying send of the concatenated slices.\<close>

lemma sr_send_gather_eq:
  assumes "concat bufs \<noteq> []"
  shows "sr_send_gather nic bufs t w = sr_send_copy nic (concat bufs) t w"
proof -
  have tot: "sum_list (map length bufs) = length (concat bufs)" by (simp add: length_concat)
  have "length (concat bufs) \<noteq> 0" using assms by simp
  moreover have "snd (gather_into (take (min (length (concat bufs)) (length dst)) dst) bufs)
      = take (min (length (concat bufs)) (length dst)) (concat bufs)" for dst
    by (simp add: gather_into_eq Let_def)
  ultimately show ?thesis
    unfolding sr_send_gather_def sr_send_copy_def Let_def tot
    by (auto simp: case_prod_beta split: outcome.splits option.splits)
qed

lemma sr_send_gather_safe:
  assumes "sr_send_gather nic bufs t w = (r, t', w')" "sq_contract nic (aq_qpn (sr_qp t)) scq out"
  shows "sr_safe scq rcq out (t, w) (t', w')"
proof (cases "concat bufs = []")
  case True
  then have "sum_list (map length bufs) = 0" by (metis length_concat list.size(3))
  with assms show ?thesis by (simp add: sr_send_gather_def)
next
  case False
  with assms sr_send_gather_eq [OF False] show ?thesis by (metis sr_send_copy_safe)
qed

lemma sr_reap_sends_eq:
  assumes "sr_reap_sends cs t = (r, t')"
  shows "\<exists>fl pd. t' = t\<lparr>sr_send_in_flight := fl, sr_peer_disconnected := pd\<rparr>
     \<and> length fl = length (sr_send_in_flight t)
     \<and> (\<forall>i < length fl. fl ! i \<longrightarrow> sr_send_in_flight t ! i)
     \<and> (\<forall>i < length fl. sr_send_in_flight t ! i \<longrightarrow> fl ! i \<or>
          (\<exists>c \<in> set cs. unat (wr_id c) = sc_num_recv_bufs (sr_config t) + i))"
  using assms
proof (induction cs arbitrary: t)
  case Nil
  then show ?case by (intro exI [of _ "sr_send_in_flight t"] exI [of _ "sr_peer_disconnected t"]) simp
next
  case (Cons c cs)
  let ?nr = "sc_num_recv_bufs (sr_config t)" and ?i = "unat (wr_id c)"
  show ?case
  proof (cases "is_success c")
    case False
    with Cons.prems show ?thesis
      by (intro exI [of _ "sr_send_in_flight t"] exI [of _ True]) simp
  next
    case True
    let ?t = "if ?nr \<le> ?i \<and> ?i - ?nr < length (sr_send_in_flight t)
      then t\<lparr>sr_send_in_flight := (sr_send_in_flight t)[?i - ?nr := False]\<rparr> else t"
    from Cons.prems True have "sr_reap_sends cs ?t = (r, t')" by (auto simp: Let_def split: if_splits)
    from Cons.IH [OF this] obtain fl pd where
      t': "t' = ?t\<lparr>sr_send_in_flight := fl, sr_peer_disconnected := pd\<rparr>"
      and l: "length fl = length (sr_send_in_flight ?t)"
      and sub: "\<forall>i < length fl. fl ! i \<longrightarrow> sr_send_in_flight ?t ! i"
      and cl: "\<forall>i < length fl. sr_send_in_flight ?t ! i \<longrightarrow> fl ! i \<or>
          (\<exists>c \<in> set cs. unat (wr_id c) = sc_num_recv_bufs (sr_config ?t) + i)" by blast
    show ?thesis
      using t' l sub cl
      by (intro exI [of _ fl] exI [of _ pd]) (auto simp: nth_list_update split: if_splits)
  qed
qed

lemma sr_poll_send_safe:
  assumes "sr_poll_send_completion nic task t w = Some (p, t', w')"
    and "sq_contract nic (aq_qpn (sr_qp t)) scq out"
  shows "sr_safe scq rcq out (t, w) (t', w')"
  unfolding sr_safe_def
proof (intro impI)
  assume ok: "sr_ok scq rcq out (t, w)"
  then obtain c st where src: "sr_send_src t = ArmPark c st" "ac_cq c = scq"
    by (auto simp: sr_ok_def sr_wf_def)
  from assms(1) obtain q src' where pc: "poll_completions nic task 4 (ArmPark c st) w = Some (q, src', w')"
    by (auto simp: sr_poll_send_completion_def src Let_def split: option.splits prod.splits poll.splits outcome.splits)
  from poll_completions_ArmPark [OF poll_law_sq [OF assms(2)] pc] obtain c' st'
    where src': "src' = ArmPark c' st'" "ac_cq c' = scq" and o: "out (hw w') = out (hw w) - wr_id ` set (reaped q)"
    by (auto simp: took_def src)
  let ?t = "t\<lparr>sr_send_src := src'\<rparr>"
  consider (idle) "t' = ?t" | (reaped) wcs r where "q = Ready (Ok wcs)" "sr_reap_sends wcs ?t = (r, t')"
    using assms(1) pc
    by (auto simp: sr_poll_send_completion_def src Let_def split: poll.splits outcome.splits prod.splits)
  then show "sr_ok scq rcq out (t', w') \<and> sr_kept (fst (t, w)) (fst (t', w'))"
  proof cases
    case idle
    with ok o src' show ?thesis by (auto simp: sr_inv_defs sr_wf_def sr_wr_id_def)
  next
    case reaped
    from sr_reap_sends_eq [OF reaped(2)] obtain fl pd where
      t': "t' = ?t\<lparr>sr_send_in_flight := fl, sr_peer_disconnected := pd\<rparr>"
      and fl: "length fl = length (sr_send_in_flight t)"
        "\<forall>i < length fl. sr_send_in_flight t ! i \<longrightarrow> fl ! i \<or>
          (\<exists>c \<in> set wcs. unat (wr_id c) = sc_num_recv_bufs (sr_config t) + i)" by auto
    have "x \<in> sr_wr_id t ` {i. i < length fl \<and> fl ! i}" if x: "x \<in> out (hw w) - wr_id ` set (reaped q)" for x
    proof -
      from x ok obtain i where i: "x = sr_wr_id t i" "i < length fl" "sr_send_in_flight t ! i"
        by (auto simp: sr_inv_defs fl)
      have "fl ! i"
      proof (rule ccontr)
        assume "\<not> fl ! i"
        with fl(2) i obtain d where d: "d \<in> set wcs" "unat (wr_id d) = sc_num_recv_bufs (sr_config t) + i" by blast
        have "unat x = sc_num_recv_bufs (sr_config t) + i"
          using sr_wr_id_inj [of scq rcq t i] ok i fl(1) by (auto simp: sr_ok_def sr_wf_def)
        with d have "wr_id d = x" by (simp add: word_unat_eq_iff)
        with x d reaped(1) show False by auto
      qed
      with i show ?thesis by auto
    qed
    with ok o t' src' fl(1) show ?thesis
      by (auto simp: sr_inv_defs sr_wf_def sr_wr_id_def)
  qed
qed

lemma sr_reap_recvs_eq: "sr_reap_recvs cs t = (r, t') \<Longrightarrow> \<exists>pd. t' = t\<lparr>sr_peer_disconnected := pd\<rparr>"
proof (induction cs arbitrary: r t')
  case Nil
  then show ?case by (intro exI [of _ "sr_peer_disconnected t"]) simp
next
  case (Cons c cs)
  obtain r1 t1 where "sr_reap_recvs cs t = (r1, t1)" by (rule prod.exhaust)
  with Cons show ?case by (auto split: outcome.splits if_splits)
qed

lemma sr_safe_frame:
  assumes "out (hw w') = out (hw w)"
    and "t' = t\<lparr>sr_disconnected := d, sr_peer_disconnected := pd\<rparr>"
  shows "sr_safe scq rcq out (t, w) (t', w')"
  using assms by (auto simp: sr_inv_defs sr_wf_def sr_wr_id_def)

lemma sr_poll_recv_safe:
  assumes "sr_poll_recv nic task n t w = Some (p, t', w')"
    and "sq_contract nic (aq_qpn (sr_qp t)) scq out"
  shows "sr_safe scq rcq out (t, w) (t', w')"
  unfolding sr_safe_def
proof (intro impI)
  assume ok: "sr_ok scq rcq out (t, w)"
  then obtain c st where src: "sr_recv_src t = ArmPark c st" "ac_cq c = rcq" "scq \<noteq> rcq"
    by (auto simp: sr_ok_def sr_wf_def)
  from assms(1) obtain q src' where pc: "poll_completions nic task (min n 8) (ArmPark c st) w = Some (q, src', w')"
    by (auto simp: sr_poll_recv_def src Let_def split: option.splits prod.splits poll.splits outcome.splits)
  from poll_completions_ArmPark [OF poll_law_sq [OF assms(2)] pc] obtain c' st'
    where src': "src' = ArmPark c' st'" "ac_cq c' = rcq" and o: "out (hw w') = out (hw w)"
    using src by (auto simp: took_def)
  let ?t = "t\<lparr>sr_recv_src := src'\<rparr>"
  consider "t' = ?t" | wcs r where "sr_reap_recvs wcs ?t = (r, t')"
    using assms(1) pc
    by (auto simp: sr_poll_recv_def src Let_def split: poll.splits outcome.splits prod.splits)
  then have "\<exists>pd. t' = t\<lparr>sr_recv_src := src', sr_peer_disconnected := pd\<rparr>"
  proof cases
    case 1
    then show ?thesis by (intro exI [of _ "sr_peer_disconnected t"]) simp
  qed (drule sr_reap_recvs_eq, simp)
  with ok o src' show "sr_ok scq rcq out (t', w') \<and> sr_kept (fst (t, w)) (fst (t', w'))"
    by (auto simp: sr_inv_defs sr_wf_def sr_wr_id_def)
qed

subsection \<open>The transport's methods as steps\<close>

inductive sr_step :: "'n nic \<Rightarrow> send_recv \<times> 'n world \<Rightarrow> send_recv \<times> 'n world \<Rightarrow> bool" for nic where
  send_copy: "sr_send_copy nic data t w = (r, t', w') \<Longrightarrow> sr_step nic (t, w) (t', w')"
| send_gather: "sr_send_gather nic bufs t w = (r, t', w') \<Longrightarrow> sr_step nic (t, w) (t', w')"
| poll_send: "sr_poll_send_completion nic task t w = Some (p, t', w') \<Longrightarrow> sr_step nic (t, w) (t', w')"
| poll_recv: "sr_poll_recv nic task n t w = Some (q, t', w') \<Longrightarrow> sr_step nic (t, w) (t', w')"
| repost: "sr_repost_recv nic i t w = (u, t', w') \<Longrightarrow> sr_step nic (t, w) (t', w')"
| poll_disconnect: "sr_poll_disconnect nic t w = Some (b, t', w') \<Longrightarrow> sr_step nic (t, w) (t', w')"
| disconnect: "sr_disconnect nic t w = (u, t', w') \<Longrightarrow> sr_step nic (t, w) (t', w')"

lemma sr_step_safe:
  assumes "sr_step nic s s'" "sq_contract nic (aq_qpn (sr_qp (fst s))) scq out"
  shows "sr_safe scq rcq out s s'"
  using assms
proof (cases rule: sr_step.cases)
  case (repost i t w u t' w')
  have "out (hw w') = out (hw w) \<and> t' = t"
    using repost(3) post_recv_wr_out [OF sq_quiet [OF assms(2)]]
    by (auto simp: sr_repost_recv_def post_recv_buffer_def Let_def split: if_splits prod.splits)
  then show ?thesis
    unfolding repost(1,2) by (intro sr_safe_frame [where d = "sr_disconnected t" and pd = "sr_peer_disconnected t"]) auto
next
  case (poll_disconnect t w b t' w')
  from poll_disconnect(3) obtain pd where "poll_cm_disconnect nic (sr_event_channel t) (sr_peer_disconnected t) w = Some (b, pd, w')"
    "t' = t\<lparr>sr_peer_disconnected := pd\<rparr>" by (auto simp: sr_poll_disconnect_def)
  with poll_cm_disconnect_out [OF sq_quiet [OF assms(2)]] show ?thesis
    unfolding poll_disconnect(1,2)
    by (intro sr_safe_frame [where d = "sr_disconnected t" and pd = pd]) auto
next
  case (disconnect t w u t' w')
  obtain r w1 where c: "cm_disconnect nic (sr_cm_id t) w = (r, w1)" by (rule prod.exhaust)
  note o = cm_disconnect_out [OF sq_quiet [OF assms(2)] c]
  from disconnect(3) c have "(w' = w1 \<or> w' = w) \<and> (t' = t \<or> t' = t\<lparr>sr_disconnected := True\<rparr>)"
    by (auto simp: sr_disconnect_def split: if_splits outcome.splits)
  with o show ?thesis
    unfolding disconnect(1,2)
    by (intro sr_safe_frame [where d = "sr_disconnected t'" and pd = "sr_peer_disconnected t"]) auto
qed (use sr_send_copy_safe sr_send_gather_safe sr_poll_send_safe sr_poll_recv_safe in auto)

lemma sr_steps_ok:
  assumes "(sr_step nic)\<^sup>*\<^sup>* s s'" "sq_contract nic (aq_qpn (sr_qp (fst s))) scq out" "sr_ok scq rcq out s"
  shows "sr_ok scq rcq out s' \<and> sr_qp (fst s') = sr_qp (fst s)"
  using assms
proof (induction rule: rtranclp_induct)
  case (step s1 s2)
  then have ih: "sr_ok scq rcq out s1" "sr_qp (fst s1) = sr_qp (fst s)" by blast+
  from sr_step_safe [OF step.hyps(2), of scq out rcq] step.prems ih show ?case
    by (auto simp: sr_safe_def sr_kept_def)
qed simp

lemma sr_fresh_ok:
  assumes "out (hw w) = {}" "length sends = sc_num_send_bufs c" "0 < sc_num_send_bufs c"
    and "\<forall>m \<in> set sends. length (mr_bytes m) = sc_buf_size c"
    and "sc_num_recv_bufs c + sc_num_send_bufs c < 2 ^ 64" "ac_cq a \<noteq> ac_cq b"
  shows "sr_ok (ac_cq a) (ac_cq b) out
    (sr_from_parts qp (ArmPark a CqIdle) (ArmPark b CqIdle) ch cmid sends recvs c, w)"
  using assms by (auto simp: sr_ok_def sr_owned_def sr_wf_def sr_from_parts_def)

subsection \<open>Properties\<close>

text \<open>C13: No write under transmission. From a freshly built transport, after any sequence of
  trait-method calls, a further call leaves the contents of every send buffer whose work
  request the device still owns unchanged. The device is assumed to hand a work request back
  only through its completion.\<close>

theorem sr_no_overwrite:
  assumes "sq_contract nic (aq_qpn qp) (ac_cq a) out" "out (hw w0) = {}"
    and "t0 = sr_from_parts qp (ArmPark a CqIdle) (ArmPark b CqIdle) ch cmid sends recvs c"
    and "length sends = sc_num_send_bufs c" "0 < sc_num_send_bufs c"
    and "\<forall>m \<in> set sends. length (mr_bytes m) = sc_buf_size c"
    and "sc_num_recv_bufs c + sc_num_send_bufs c < 2 ^ 64" "ac_cq a \<noteq> ac_cq b"
    and "(sr_step nic)\<^sup>*\<^sup>* (t0, w0) (t, w)" "sr_step nic (t, w) (t', w')"
    and "i < length (sr_send_bufs t)" "sr_wr_id t i \<in> out (hw w)"
  shows "sr_send_bufs t' ! i = sr_send_bufs t ! i"
proof -
  have ok0: "sr_ok (ac_cq a) (ac_cq b) out (t0, w0)"
    unfolding assms(3) using assms by (intro sr_fresh_ok)
  have qp: "sr_qp t0 = qp" by (simp add: assms(3) sr_from_parts_def)
  have ok: "sr_ok (ac_cq a) (ac_cq b) out (t, w)" and qpt: "sr_qp t = qp"
    using sr_steps_ok [OF assms(9) _ ok0] assms(1) qp by simp_all
  have kept: "sr_kept t t'"
    using sr_step_safe [OF assms(10), of "ac_cq a" out "ac_cq b"] assms(1) qpt ok
    by (simp add: sr_safe_def)
  from ok assms(12) obtain j where j: "sr_wr_id t i = sr_wr_id t j" "j < length (sr_send_bufs t)"
    "sr_send_in_flight t ! j" by (auto simp: sr_ok_def sr_owned_def sr_wf_def)
  have wf: "sr_wf (ac_cq a) (ac_cq b) t" using ok by (simp add: sr_ok_def)
  have "i = j"
    using sr_wr_id_inj [OF wf assms(11) refl] sr_wr_id_inj [OF wf j(2) refl]
    unfolding j(1) by (metis add_left_cancel)
  with j kept assms(11) show ?thesis by (simp add: sr_kept_def)
qed

definition sr_cfg2 :: send_recv_config where
  "sr_cfg2 = \<lparr>sc_buf_size = 2, sc_num_recv_bufs = 1, sc_num_send_bufs = 2,
     sc_max_inline_data = 0, sc_qp_type = Rc\<rparr>"

definition mr2 :: mr where "mr2 = \<lparr>mr_addr = 4096, mr_lkey = 1, mr_rkey = 2, mr_bytes = [0, 0]\<rparr>"

definition acq_n :: "nat \<Rightarrow> async_cq" where
  "acq_n c = \<lparr>ac_cq = c, ac_channel = c, ac_unacked = 0\<rparr>"

definition sr_t0 :: send_recv where
  "sr_t0 = sr_from_parts (new_poster 7) (ArmPark (acq_n 0) CqIdle) (ArmPark (acq_n 1) CqIdle) 2 3
     [mr2, mr2] [] sr_cfg2"

lemmas sr_run_simps = sr_send_copy_def sr_pick_def sr_post_def post_send_signaled_def post_send_wr_def
  sim_nic_def sim_world_def sr_t0_def sr_from_parts_def sr_cfg2_def mr2_def acq_n_def new_poster_def
  on_hw_def from_ret_def account_def wr_defs upd_range_def Let_def numeral_2_eq_2

theorem sr_no_overwrite_witness:
  "\<exists>t w t' w'. sr_send_copy sim_nic [65] sr_t0 (sim_world []) = (Ok 1, t, w)
     \<and> sr_send_copy sim_nic [66, 67, 68] t w = (Ok 2, t', w')
     \<and> sr_wr_id t 0 \<in> set (hw w) \<and> sr_send_bufs t' ! 0 = sr_send_bufs t ! 0"
proof -
  obtain t w where s1: "sr_send_copy sim_nic [65] sr_t0 (sim_world []) = (Ok 1, t, w)"
    and o: "hw w = [1]" and l: "length (sr_send_bufs t) = 2" "sr_config t = sr_cfg2"
    by (simp add: sr_run_simps)
  obtain t' w' where s2: "sr_send_copy sim_nic [66, 67, 68] t w = (Ok 2, t', w')"
    using s1 by (auto simp: sr_run_simps)
  have owned: "sr_wr_id t 0 \<in> set (hw w)"
    by (simp add: sr_wr_id_def o l sr_cfg2_def)
  have "sr_send_bufs t' ! 0 = sr_send_bufs t ! 0"
  proof (rule sr_no_overwrite [where out = set and a = "acq_n 0" and b = "acq_n 1" and c = sr_cfg2
        and qp = "new_poster 7" and sends = "[mr2, mr2]" and ch = 2 and cmid = 3 and recvs = "[]"])
    show "sq_contract sim_nic (aq_qpn (new_poster 7)) (ac_cq (acq_n 0)) set"
      using sim_contract by (simp add: acq_n_def)
    show "(sr_step sim_nic)\<^sup>*\<^sup>* (sr_t0, sim_world []) (t, w)"
      using sr_step.send_copy [OF s1] by blast
    show "sr_step sim_nic (t, w) (t', w')" by (rule sr_step.send_copy [OF s2])
  qed (use l owned in \<open>auto simp: sim_world_def sr_t0_def sr_cfg2_def mr2_def acq_n_def\<close>)
  with s1 s2 owned show ?thesis by blast
qed



text \<open>C15: Gathering equals copying. The transport's own \<open>send_gather\<close> and the trait's
  default one, which first concatenates the slices, return the same result and leave the same
  state, whatever the slices.\<close>

theorem sr_send_gather_default:
  "sr_send_gather nic bufs t w = default_send_gather (sr_send_copy nic) bufs t w"
proof (cases "concat bufs = []")
  case True
  then have "sum_list (map length bufs) = 0" by (metis length_concat list.size(3))
  then show ?thesis by (simp add: sr_send_gather_def default_send_gather_def)
next
  case False
  have tot: "sum_list (map length bufs) \<noteq> 0" using False by (metis length_0_conv length_concat)
  have one: "length bufs = 1 \<Longrightarrow> bufs ! 0 = concat bufs" by (cases bufs) auto
  show ?thesis
    unfolding sr_send_gather_eq [OF False] default_send_gather_def Let_def if_not_P [OF tot]
    by (simp add: one)
qed

end
