(* ===== verification/SendQueue.thy ===== *)
theory SendQueue
  imports Ring
begin

section \<open>The send queue of a reliable connection\<close>

text \<open>
  What the ring transports rely on of the device's send queue, and the facts both share. On a
  reliable-connection queue pair the work requests complete in the order they were posted, and
  a post is refused only when the queue is full. A ring transport stores in the id of a data
  write the number of ring bytes its completion frees; the ids of credits, padding and reads
  have the top bit set. \<open>ring_matches\<close> says that the messages the send ring holds are
  exactly the data writes the device still owns, in order.
\<close>

definition fifo_contract :: "'n nic \<Rightarrow> u32 \<Rightarrow> nat \<Rightarrow> nat \<Rightarrow> ('n \<Rightarrow> u64 list) \<Rightarrow> bool" where
  "fifo_contract nic qpn cq cap sq \<longleftrightarrow>
     poll_law nic cq sq (\<lambda>x wcs y. x = map wr_id wcs @ y)
     \<and> (\<forall>wr n r n'. ibv_post_send nic qpn wr n = (r, n') \<longrightarrow>
          (if r = 0 then sq n' = sq n @ [swr_id wr] else sq n' = sq n \<and> cap \<le> length (sq n)))"

lemma fifo_quiet: "fifo_contract nic qpn cq cap sq \<Longrightarrow> quiet nic sq"
  by (simp add: fifo_contract_def poll_law_def)

lemma fifo_poll: "fifo_contract nic qpn cq cap sq \<Longrightarrow> poll_law nic cq sq (\<lambda>x wcs y. x = map wr_id wcs @ y)"
  by (simp add: fifo_contract_def)

lemma wr_ids [simp]: "swr_id (wr_signaled x) = swr_id x" "swr_id (wr_rdma a k x) = swr_id x"
  "swr_id (wr_sg g x) = swr_id x" "swr_id (send_wr_new i f) = i"
  by (simp_all add: wr_signaled_def wr_rdma_def wr_sg_def send_wr_new_def)

text \<open>A post with room in the queue succeeds.\<close>

lemma post_send_wr_fifo:
  assumes "fifo_contract nic (aq_qpn qp) cq cap sq" "length (sq (hw w)) < cap"
    and "post_send_wr nic qp wr w = (r, w')"
  shows "r = Ok () \<and> sq (hw w') = sq (hw w) @ [swr_id wr]"
proof -
  from post_send_wrD [OF assms(3)] obtain ret
    where c: "ibv_post_send nic (aq_qpn qp) wr (hw w) = (ret, hw w')" and r: "r = from_ret ret" by blast
  from assms(1) c have "if ret = 0 then sq (hw w') = sq (hw w) @ [swr_id wr]
     else sq (hw w') = sq (hw w) \<and> cap \<le> length (sq (hw w))"
    unfolding fifo_contract_def by blast
  with assms(2) r show ?thesis by (simp add: from_ret_def split: if_splits)
qed

text \<open>Reposting a doorbell receive: no panic with the index in range, and the send queue is
  left alone.\<close>

lemma repost_doorbell_out:
  assumes "quiet nic out" "idx < length bufs" "repost_doorbell nic qp bufs idx w = (r, idx', w')"
  shows "r \<noteq> Panic \<and> idx' < length bufs \<and> out (hw w') = out (hw w)"
proof -
  let ?m = "bufs ! idx"
  let ?wr = "recv_sg \<lparr>sge_addr = mr_addr ?m, sge_length = 4, sge_lkey = mr_lkey ?m\<rparr>
      (recv_wr_new (word_of_nat idx))"
  obtain r1 w1 where p: "post_recv_wr nic qp ?wr w = (r1, w1)" by (rule prod.exhaust)
  have bs: "bufs \<noteq> []" using assms(2) by auto
  have eq: "repost_doorbell nic qp bufs idx w = (r1, (idx + 1) mod length bufs, w1)"
    using assms(2) bs p by (simp add: repost_doorbell_def Let_def)
  have "r1 \<noteq> Panic" using post_recv_wrD [OF p] by auto
  with eq assms(3) bs post_recv_wr_out [OF assms(1) p] show ?thesis by auto
qed

subsection \<open>Polling a source\<close>

text \<open>An arm-and-park source on queue \<open>q\<close>.\<close>

definition src_on :: "source \<Rightarrow> nat \<Rightarrow> bool" where
  "src_on src q \<longleftrightarrow> (case src of ArmPark c st \<Rightarrow> ac_cq c = q | Driver i d \<Rightarrow> False)"

lemma src_onE:
  assumes "src_on src q"
  obtains c st where "src = ArmPark c st" "ac_cq c = q"
  using assms by (cases src) (auto simp: src_on_def)

lemma drain_channel_events_no_panic: "drain_channel_events nic c w \<noteq> Some (Panic, c', w')"
proof
  let ?Q = "\<lambda>(r :: unit res, c1 :: async_cq, w1). r \<noteq> Panic"
  assume "drain_channel_events nic c w = Some (Panic, c', w')"
  then have "?Q (Panic, c', w')" unfolding drain_channel_events_def
    by (rule loop_inv [where P = "\<lambda>_. True"])
      (auto simp: drain_channel_body_def get_cq_event_def Let_def split: source_splits)
  then show False by simp
qed

lemma acq_arm_and_drain_no_panic: "acq_arm_and_drain nic room c w \<noteq> Some (Inr (Ready Panic, c', st', w'))"
  by (auto simp: acq_arm_and_drain_def drain_channel_events_no_panic cq_poll_not_Panic
      cq_req_notify_not_Panic split: source_splits)

lemma acq_poll_body_no_panic: "acq_poll_body nic room s \<noteq> Some (Inr (Ready Panic, c', st', w'))"
  by (auto simp: acq_poll_body_def drain_channel_events_no_panic acq_arm_and_drain_no_panic
      split: source_splits)

lemma poll_completions_no_panic:
  assumes "src_on src q" "poll_completions nic task room src w = Some (p, src', w')"
  shows "p \<noteq> Ready Panic"
proof -
  let ?Q = "\<lambda>(p :: wc list res poll, c1 :: async_cq, st1 :: cq_poll_state, w1). p \<noteq> Ready Panic"
  from assms obtain c st c' st' where
    "loop (acq_poll_body nic room) (c, st, w) = Some (p, c', st', w')"
    by (auto elim!: src_onE simp: poll_completions_def acq_poll_completions_def)
  then have "?Q (p, c', st', w')"
    by (rule loop_inv [where P = "\<lambda>_. True"]) (auto simp: acq_poll_body_no_panic)
  then show ?thesis by simp
qed

text \<open>A poll of the send queue's completions takes a prefix; one of another queue, nothing.\<close>

lemma poll_completions_fifo:
  assumes "fifo_contract nic qpn scq cap sq" "src_on src q"
    and "poll_completions nic task room src w = Some (p, src', w')"
  shows "p \<noteq> Ready Panic" "src_on src' q" "q = scq \<Longrightarrow> sq (hw w) = map wr_id (reaped p) @ sq (hw w')"
    "q \<noteq> scq \<Longrightarrow> sq (hw w') = sq (hw w)"
proof -
  from assms(2) obtain c st where c: "src = ArmPark c st" "ac_cq c = q" by (rule src_onE)
  note t = poll_completions_ArmPark [OF fifo_poll [OF assms(1)] assms(3) [unfolded c(1)]]
  show "p \<noteq> Ready Panic" by (rule poll_completions_no_panic [OF assms(2,3)])
  show "src_on src' q" "q = scq \<Longrightarrow> sq (hw w) = map wr_id (reaped p) @ sq (hw w')"
    "q \<noteq> scq \<Longrightarrow> sq (hw w') = sq (hw w)"
    using t c by (auto simp: src_on_def took_def)
qed

lemma try_drain_fifo:
  assumes "fifo_contract nic qpn scq cap sq" "src_on src q" "try_drain nic room src w = (r, w')"
  shows "r \<noteq> Panic" "q = scq \<Longrightarrow> sq (hw w) = map wr_id (case r of Ok wcs \<Rightarrow> wcs | _ \<Rightarrow> []) @ sq (hw w')"
    "q \<noteq> scq \<Longrightarrow> sq (hw w') = sq (hw w)"
proof -
  from assms(2,3) have p: "cq_poll nic q room w = (r, w')"
    by (auto elim!: src_onE simp: try_drain_def)
  show "r \<noteq> Panic" using p cq_poll_not_Panic by blast
  show "q = scq \<Longrightarrow> sq (hw w) = map wr_id (case r of Ok wcs \<Rightarrow> wcs | _ \<Rightarrow> []) @ sq (hw w')"
    "q \<noteq> scq \<Longrightarrow> sq (hw w') = sq (hw w)"
    using cq_poll_out [OF fifo_poll [OF assms(1)] p] by (auto simp: took_def)
qed

lemma drain_once_fifo:
  assumes "fifo_contract nic qpn scq cap sq" "src_on src q" "q \<noteq> scq"
    and "drain_once nic room src w = (r, w')"
  shows "r \<noteq> Panic" "sq (hw w') = sq (hw w)"
proof -
  from assms(2) obtain c st where c: "src = ArmPark c st" "ac_cq c = q" by (rule src_onE)
  obtain r1 w1 where n: "cq_req_notify nic q w = (r1, w1)" by (rule prod.exhaust)
  obtain r2 w2 where p: "cq_poll nic q room w1 = (r2, w2)" by (rule prod.exhaust)
  note out = arm_out [OF fifo_quiet [OF assms(1)] n] cq_poll_out [OF fifo_poll [OF assms(1)] p]
  have "r1 \<noteq> Panic" "r2 \<noteq> Panic" using n p cq_poll_not_Panic cq_req_notify_not_Panic by blast+
  then show "r \<noteq> Panic" "sq (hw w') = sq (hw w)"
    using assms(3,4) c n p out by (auto simp: drain_once_def took_def split: outcome.splits)
qed

subsection \<open>Ids of data writes\<close>

definition data_id :: "u64 \<Rightarrow> bool" where
  "data_id i \<longleftrightarrow> \<not> bit i 63"

lemma credit_flag_bit: "i AND WR_ID_CREDIT_FLAG \<noteq> 0 \<longleftrightarrow> \<not> data_id i"
proof -
  have "WR_ID_CREDIT_FLAG = push_bit 63 1" by (simp add: WR_ID_CREDIT_FLAG_def)
  then show ?thesis by (simp add: data_id_def bit_iff_and_push_bit_not_eq_0)
qed

lemma data_id_flag: "\<not> data_id (WR_ID_CREDIT_FLAG OR i)"
  by (simp add: data_id_def bit_or_iff WR_ID_CREDIT_FLAG_def)

lemma data_id_padding: "\<not> data_id WR_ID_PADDING_SENTINEL"
  by (simp add: data_id_def WR_ID_PADDING_SENTINEL_def)

lemma unat_small: "n < 2 ^ 63 \<Longrightarrow> unat (word_of_nat n :: u64) = n"
  by (simp add: unat_of_nat)

lemma data_id_of_nat:
  assumes "n < 2 ^ 63"
  shows "data_id (word_of_nat n)"
proof -
  have "\<not> bit (unat (word_of_nat n :: u64)) 63"
    unfolding unat_small [OF assms] using assms by (simp add: bit_iff_odd)
  then show ?thesis by (simp add: data_id_def bit_unsigned_iff)
qed

subsection \<open>The send ring holds what the device owns\<close>

abbreviation msg_id :: "ring_msg \<Rightarrow> u64" where
  "msg_id m \<equiv> word_of_nat (msg_size m)"

definition ring_matches :: "ring_buffer \<Rightarrow> u64 list \<Rightarrow> ring_msg list \<Rightarrow> bool" where
  "ring_matches r ids ms \<longleftrightarrow>
     ring_holds r ms \<and> map msg_id ms = filter data_id ids \<and> rb_capacity r < 2 ^ 63"

lemma ring_matches_new: "0 < cap \<Longrightarrow> cap < 2 ^ 63 \<Longrightarrow> ring_matches (ring_new m cap) [] []"
  using ring_holds_new [of cap m] by (simp add: ring_matches_def ring_new_def)

lemma ring_matches_mr [simp]: "ring_matches (r\<lparr>rb_mr := m\<rparr>) ids ms = ring_matches r ids ms"
  by (simp add: ring_matches_def ring_holds_def ring_wf_def used_def)

lemma msg_size_le: "ring_holds r ms \<Longrightarrow> m \<in> set ms \<Longrightarrow> msg_size m < rb_capacity r"
proof -
  assume h: "ring_holds r ms" and m: "m \<in> set ms"
  from m have "msg_size m \<le> msgs_size ms" by (simp add: msgs_size_def member_le_sum_list)
  with h show ?thesis using used_less [of r] by (simp add: ring_holds_def)
qed

lemma msg_size_pos: "ring_holds r ms \<Longrightarrow> m \<in> set ms \<Longrightarrow> 0 < msg_size m"
proof -
  have "laid_out cap h ms t \<Longrightarrow> m \<in> set ms \<Longrightarrow> 0 < msg_size m" for cap h t
    by (induction cap h ms t rule: laid_out.induct) auto
  then show "ring_holds r ms \<Longrightarrow> m \<in> set ms \<Longrightarrow> 0 < msg_size m" by (auto simp: ring_holds_def)
qed

text \<open>A completion that frees nothing, and the completion of the oldest data write.\<close>

lemma ring_matches_skip:
  "ring_matches r (i # ids) ms \<Longrightarrow> \<not> data_id i \<Longrightarrow> ring_matches r ids ms"
  by (simp add: ring_matches_def)

lemma ring_matches_release:
  assumes "ring_matches r (i # ids) ms" "data_id i"
  shows "0 < unat i \<and> unat i \<le> rb_capacity r \<and> ring_matches (release (unat i) r) ids (tl ms) \<and> ms \<noteq> []"
proof -
  from assms obtain m ms' where ms: "ms = m # ms'" and i: "i = msg_id m"
    and rest: "map msg_id ms' = filter data_id ids" and h: "ring_holds r (m # ms')"
    and c: "rb_capacity r < 2 ^ 63" by (cases ms) (auto simp: ring_matches_def)
  have lt: "msg_size m < rb_capacity r" and pos: "0 < msg_size m"
    using msg_size_le [OF h] msg_size_pos [OF h] by simp_all
  have u: "unat i = msg_size m" using lt c unfolding i by (intro unat_small) simp
  from rq.free_oldest [OF h] lt pos rest c show ?thesis by (simp add: ring_matches_def u ms)
qed

lemma ring_matches_post_other:
  "ring_matches r ids ms \<Longrightarrow> \<not> data_id i \<Longrightarrow> ring_matches r (ids @ [i]) ms"
  by (simp add: ring_matches_def)

lemma ring_matches_others:
  "\<forall>i \<in> set ids'. \<not> data_id i \<Longrightarrow> ring_matches r (ids @ ids') ms \<longleftrightarrow> ring_matches r ids ms"
  by (simp add: ring_matches_def)

lemma ring_matches_post:
  assumes "ring_matches r ids ms" "reserve len r = (Some (off, pad), r')"
  shows "ring_matches r' (ids @ [word_of_nat (pad + len)]) (ms @ [(off, pad, len)])"
proof -
  from assms have h: "ring_holds r' (ms @ [(off, pad, len)])" and c: "rb_capacity r' = rb_capacity r"
    using rq.alloc_Some by (auto simp: ring_matches_def)
  have "pad + len < 2 ^ 63"
    using msg_size_le [OF h, of "(off, pad, len)"] assms(1) c by (simp add: ring_matches_def)
  with data_id_of_nat [OF this] assms(1) h c show ?thesis by (simp add: ring_matches_def)
qed

text \<open>The roll-back of a reservation that wrapped restores the ring.\<close>

lemma reserve_rollback:
  assumes "ring_wf r" "reserve len r = (Some (off, pad), r')" "0 < pad"
  shows "off = 0" "r'\<lparr>rb_tail := rb_capacity r' - pad\<rparr> = r"
  using assms(1,3) by (auto intro: reserve_SomeE [OF assms(1,2)] simp: ring_wf_def)

text \<open>Writing the reserved region leaves the messages under transmission alone.\<close>

lemma slice_eq_nth:
  "(\<And>i. a \<le> i \<Longrightarrow> i < b \<Longrightarrow> i < length xs \<Longrightarrow> xs ! i = ys ! i) \<Longrightarrow> length xs = length ys \<Longrightarrow>
     slice xs a b = slice ys a b"
  by (rule nth_equalityI) (auto simp: slice_def)

lemma fresh_write_keeps:
  assumes "ring_matches r ids ms" "reserve len r = (Some (off, pad), r')"
    and "length mem = rb_capacity r" "length content = len" "(o', p', l') \<in> set ms"
  shows "slice (upd_range mem off content) o' (o' + l') = slice mem o' (o' + l')"
proof -
  from assms(1) have h: "ring_holds r ms" by (simp add: ring_matches_def)
  have b: "off + len \<le> rb_capacity r"
    using reserve_bounds(3) [OF _ assms(2)] h by (simp add: ring_holds_def)
  from rq.fresh_region(2) [OF h assms(2,5)] have d: "{o'..<o' + l'} \<inter> {off..<off + len} = {}" by simp
  show ?thesis
  proof (rule slice_eq_nth)
    fix i assume i: "o' \<le> i" "i < o' + l'" "i < length (upd_range mem off content)"
    then have "i \<notin> {off..<off + len}" using d by auto
    with i b assms(3,4) show "upd_range mem off content ! i = mem ! i"
      by (subst nth_upd_range) auto
  qed (use b assms(3,4) in simp)
qed

subsection \<open>A device with a queue\<close>

text \<open>A device whose state is its send queue; polling queue 0 completes the oldest requests.\<close>

definition fifo_nic :: "u64 list nic" where
  "fifo_nic = sim_nic\<lparr>ibv_poll_cq := (\<lambda>c room n.
     if c = 0 then (Inr (map sim_wc (take room n)), drop room n) else (Inr [], n))\<rparr>"

lemma fifo_nic_contract: "fifo_contract fifo_nic q 0 cap id"
proof -
  have "map wr_id (map sim_wc xs) = xs" for xs by (induction xs) (simp_all add: sim_wc_def)
  then show ?thesis
    by (auto simp: fifo_contract_def poll_law_def quiet_def fifo_nic_def sim_nic_def split: if_splits)
qed

end
