(* ===== verification/CreditRing.thy ===== *)
theory CreditRing
  imports SendRecv SendQueue
begin

section \<open>The credit-ring transport\<close>

text \<open>
  \<^verbatim>\<open>credit_ring_transport.rs\<close>: messages are written into the peer's ring with RDMA writes
  that carry offset and length as immediate data; a credit per message limits what the
  sender may have outstanding, and the receiver returns credits as an absolute count. The
  setup transaction with its rollback, every trait method and the drop are functions of the
  transport's record and of the world.

  The lemmas show that the transport never has more work requests outstanding than its send
  queue holds (so that posting never fails for want of room), that the bytes of a message
  under transmission are not written again, and how credits and receive slots are counted.
\<close>

subsection \<open>Configuration\<close>

definition CREDIT_RING_SQ_HEADROOM :: nat where "CREDIT_RING_SQ_HEADROOM = 2"

record credit_ring_config =
  cc_ring_capacity :: nat
  cc_max_message_size :: nat
  cc_max_in_flight :: "nat option"
  cc_token_timeout :: nat
  cc_max_inline_data :: u32
  cc_mw_mode :: memory_window_mode

definition cc_datagram :: credit_ring_config where
  "cc_datagram =
     \<lparr>cc_ring_capacity = 65536, cc_max_message_size = 1500, cc_max_in_flight = None,
      cc_token_timeout = 5, cc_max_inline_data = 0, cc_mw_mode = Auto\<rparr>"

definition cc_with_memory_window_mode :: "memory_window_mode \<Rightarrow> credit_ring_config \<Rightarrow> credit_ring_config" where
  "cc_with_memory_window_mode mode c = c\<lparr>cc_mw_mode := mode\<rparr>"

definition cc_with_max_in_flight :: "nat \<Rightarrow> credit_ring_config \<Rightarrow> credit_ring_config" where
  "cc_with_max_in_flight n c = c\<lparr>cc_max_in_flight := Some n\<rparr>"

subsection \<open>State\<close>

record credit_ring =
  cr_disconnected :: bool
  cr_peer_disconnected :: bool
  cr_virtual_idx_map :: "(nat \<times> nat \<times> nat) option list"
  cr_next_virt_idx :: nat
  cr_max_outstanding :: nat
  cr_recv_arrival_seq :: nat
  cr_recv_stash :: "recv_completion list"
  cr_remote_credits :: nat
  cr_remote_freed_received :: u32
  cr_local_freed_credits :: nat
  cr_credits_sent :: nat
  cr_send_in_flight :: nat
  cr_sq_capacity :: nat
  cr_recv_mw :: "u32 option"
  cr_qp :: async_qp
  cr_send_src :: source
  cr_recv_src :: source
  cr_send_ring :: ring_buffer
  cr_recv_ring :: ring_buffer
  cr_remote_addr :: u64
  cr_remote_rkey :: u32
  cr_remote_capacity :: nat
  cr_remote_write_tail :: nat
  cr_doorbell_bufs :: "mr list"
  cr_doorbell_repost_idx :: nat
  cr_recv_tracker :: completion_tracker
  cr_config :: credit_ring_config
  cr_event_channel :: nat
  cr_cm_id :: u32

definition cr_from_parts ::
    "async_qp \<Rightarrow> source \<Rightarrow> source \<Rightarrow> nat \<Rightarrow> u32 \<Rightarrow> mr \<Rightarrow> mr \<Rightarrow> u32 option \<Rightarrow> mr list \<Rightarrow>
       u64 \<Rightarrow> u32 \<Rightarrow> nat \<Rightarrow> nat \<Rightarrow> credit_ring_config \<Rightarrow> credit_ring" where
  "cr_from_parts qp ssrc rsrc ch cmid smr rmr mw doorbells raddr rkey rcap max_outstanding c =
     \<lparr>cr_disconnected = False, cr_peer_disconnected = False,
      cr_virtual_idx_map = replicate max_outstanding None, cr_next_virt_idx = 0,
      cr_max_outstanding = max_outstanding, cr_recv_arrival_seq = 0, cr_recv_stash = [],
      cr_remote_credits = max_outstanding, cr_remote_freed_received = 0,
      cr_local_freed_credits = 0, cr_credits_sent = 0, cr_send_in_flight = 0,
      cr_sq_capacity = max_outstanding + CREDIT_RING_SQ_HEADROOM, cr_recv_mw = mw, cr_qp = qp,
      cr_send_src = ssrc, cr_recv_src = rsrc,
      cr_send_ring = ring_new smr (cc_ring_capacity c),
      cr_recv_ring = ring_new rmr (cc_ring_capacity c),
      cr_remote_addr = raddr, cr_remote_rkey = rkey, cr_remote_capacity = rcap,
      cr_remote_write_tail = 0, cr_doorbell_bufs = doorbells, cr_doorbell_repost_idx = 0,
      cr_recv_tracker = tracker_new max_outstanding, cr_config = c, cr_event_channel = ch,
      cr_cm_id = cmid\<rparr>"

subsection \<open>Setup\<close>

text \<open>
  What the connection manager offers during setup (\<open>CmSetupEndpoint\<close>, and the creation of a
  completion queue with its channel). Each returns an errno or what it created.
\<close>

record 'n cm_endpoint =
  ep_verbs_context :: "'n \<Rightarrow> bool"
  ep_alloc_pd :: "'n \<Rightarrow> int \<times> 'n"
  ep_create_cq :: "u32 \<Rightarrow> 'n \<Rightarrow> (int + nat \<times> nat) \<times> 'n"
  ep_create_qp :: "qp_init_attr \<Rightarrow> nat \<Rightarrow> nat \<Rightarrow> 'n \<Rightarrow> (int + u32) \<times> 'n"

definition ep_pd :: "'n cm_endpoint \<Rightarrow> 'n world \<Rightarrow> unit res \<times> 'n world" where
  "ep_pd ep w = (let (e, w) = on_hw (ep_alloc_pd ep) w in (if e = 0 then Ok () else Err (Verbs e), w))"

definition ep_cq :: "'n cm_endpoint \<Rightarrow> u32 \<Rightarrow> 'n world \<Rightarrow> async_cq res \<times> 'n world" where
  "ep_cq ep depth w =
     (case on_hw (ep_create_cq ep depth) w of
        (Inl e, w) \<Rightarrow> (Err (Verbs e), w)
      | (Inr (cq, ch), w) \<Rightarrow> (Ok \<lparr>ac_cq = cq, ac_channel = ch, ac_unacked = 0\<rparr>, w))"

definition ep_qp :: "'n cm_endpoint \<Rightarrow> qp_init_attr \<Rightarrow> async_cq \<Rightarrow> async_cq \<Rightarrow> 'n world \<Rightarrow> u32 res \<times> 'n world" where
  "ep_qp ep attr scq rcq w =
     (case on_hw (ep_create_qp ep attr (ac_cq scq) (ac_cq rcq)) w of
        (Inl e, w) \<Rightarrow> (Err (Verbs e), w)
      | (Inr qpn, w) \<Rightarrow> (Ok qpn, w))"

record pending_credit_resources =
  pcr_recv_mw :: "u32 option"
  pcr_qp :: async_qp
  pcr_send_src :: source
  pcr_recv_src :: source
  pcr_send_mr :: mr
  pcr_recv_mr :: mr
  pcr_token_recv_mr :: mr
  pcr_doorbell_bufs :: "mr list"
  pcr_cm :: "(nat \<times> u32) option"

record pending_credit_ring =
  pc_res :: "pending_credit_resources option"
  pc_max_outstanding :: nat
  pc_use_mr_rkey :: bool
  pc_config :: credit_ring_config

text \<open>The doorbell buffers: \<open>max_outstanding\<close> regions of four bytes.\<close>

definition cr_qp_attr :: "credit_ring_config \<Rightarrow> nat \<Rightarrow> qp_init_attr" where
  "cr_qp_attr c max_outstanding =
     \<lparr>qa_qp_type = Rc, qa_max_send_wr = word_of_nat (max_outstanding + CREDIT_RING_SQ_HEADROOM),
      qa_max_recv_wr = word_of_nat (max_outstanding + 2), qa_max_send_sge = 1,
      qa_max_recv_sge = 1,
      qa_max_inline_data = max (cc_max_inline_data c) (word_of_nat RING_TOKEN_SIZE),
      qa_sq_sig_all = True\<rparr>"

definition prepare_pending_credit ::
    "'n nic \<Rightarrow> 'n cm_endpoint \<Rightarrow> credit_ring_config \<Rightarrow> 'n world \<Rightarrow> pending_credit_ring res \<times> 'n world" where
  "prepare_pending_credit nic ep c w =
     (if \<not> ep_verbs_context ep (hw w) then (Err (InvalidArg ''no verbs context''), w)
      else and_then (ep_pd ep w) (\<lambda>_ w.
        let dev = ibv_query_device nic (hw w) in
        and_then (resolve_mr_rkey (map_option fst dev) (supports_mw_type2 nic (hw w)) (cc_mw_mode c), w)
          (\<lambda>use_mr_rkey w.
        let max_outstanding = effective_max_outstanding (map_option snd dev) (cc_ring_capacity c)
              (cc_max_message_size c) (cc_max_in_flight c) CREDIT_RING_SQ_HEADROOM in
        and_then (ep_cq ep (word_of_nat (max_outstanding + CREDIT_RING_SQ_HEADROOM)) w) (\<lambda>scq w.
        and_then (ep_cq ep (word_of_nat (max_outstanding + 2)) w) (\<lambda>rcq w.
        and_then (ep_qp ep (cr_qp_attr c max_outstanding) scq rcq w) (\<lambda>qpn w.
        let mw_bind = (if use_mr_rkey then 0 else MW_BIND) in
        and_then (reg_mr_owned nic (replicate (cc_ring_capacity c) 0) LOCAL_WRITE w) (\<lambda>send_mr w.
        and_then (reg_mr_owned nic (replicate (cc_ring_capacity c) 0)
                    (LOCAL_WRITE OR REMOTE_WRITE OR mw_bind) w) (\<lambda>recv_mr w.
        and_then (reg_buffers nic max_outstanding 4 w) (\<lambda>doorbells w.
        let qp = new_poster qpn in
        and_then (post_token_recv nic qp RING_TOKEN_SIZE w) (\<lambda>token_recv_mr w.
          (Ok \<lparr>pc_res = Some \<lparr>pcr_recv_mw = None, pcr_qp = qp, pcr_send_src = ArmPark scq CqIdle,
                 pcr_recv_src = ArmPark rcq CqIdle, pcr_send_mr = send_mr, pcr_recv_mr = recv_mr,
                 pcr_token_recv_mr = token_recv_mr, pcr_doorbell_bufs = doorbells, pcr_cm = None\<rparr>,
               pc_max_outstanding = max_outstanding, pc_use_mr_rkey = use_mr_rkey,
               pc_config = c\<rparr>, w)))))))))))"

definition attach_cm :: "nat \<Rightarrow> u32 \<Rightarrow> pending_credit_ring \<Rightarrow> pending_credit_ring res" where
  "attach_cm ch cmid p =
     (case pc_res p of
        None \<Rightarrow> Panic
      | Some r \<Rightarrow> Ok (p\<lparr>pc_res := Some (r\<lparr>pcr_cm := Some (ch, cmid)\<rparr>)\<rparr>))"

text \<open>Posting the doorbell receives, from index \<open>i\<close>.\<close>

fun post_doorbells :: "'n nic \<Rightarrow> async_qp \<Rightarrow> nat \<Rightarrow> mr list \<Rightarrow> 'n world \<Rightarrow> unit res \<times> 'n world" where
  "post_doorbells nic qp i [] w = (Ok (), w)"
| "post_doorbells nic qp i (m # ms) w =
     (let sg = \<lparr>sge_addr = mr_addr m, sge_length = 4, sge_lkey = mr_lkey m\<rparr> in
      and_then (post_recv_wr nic qp (recv_sg sg (recv_wr_new (word_of_nat i))) w) (\<lambda>_ w.
        post_doorbells nic qp (i + 1) ms w))"

text \<open>
  \<open>finish\<close>: the state is the resource bundle and the world; \<open>None\<close> when a wait does not
  end.
\<close>

definition pending_finish ::
    "'n nic \<Rightarrow> nat \<Rightarrow> pending_credit_ring \<Rightarrow> 'n world \<Rightarrow>
       ((u64 \<times> u32 \<times> nat) res \<times> pending_credit_ring \<times> 'n world) option" where
  "pending_finish nic task p w =
     (let cap = cc_ring_capacity (pc_config p);
          setup_wrs = (if pc_use_mr_rkey p then [WR_ID_TOKEN_SEND]
                       else [WR_ID_TOKEN_SEND, WR_ID_RECV_MW_BIND]);
          put = (\<lambda>r. p\<lparr>pc_res := Some r\<rparr>)
      in case pc_res p of
           None \<Rightarrow> Some (Panic, p, w)
         | Some r \<Rightarrow>
             and_then_opt
               (Some (if pc_use_mr_rkey p then (Ok (None, mr_rkey (pcr_recv_mr r)), p, w)
                      else (case bind_recv_mw nic (pcr_qp r) (pcr_recv_mr r) cap w of
                              (Ok rkey, w) \<Rightarrow> (Ok (Some rkey, rkey), p, w)
                            | (Err e, w) \<Rightarrow> (Err e, p, w)
                            | (Panic, w) \<Rightarrow> (Panic, p, w))))
               (\<lambda>(mw, mw_rkey) (p, w).
             let r = r\<lparr>pcr_recv_mw := mw\<rparr> in
             and_then_opt
               (map_option (\<lambda>(x, src, w). (x, put (r\<lparr>pcr_recv_src := src\<rparr>), w))
                 (complete_token_exchange nic task (pcr_qp r) (pcr_recv_src r) (pcr_recv_mr r)
                    mw_rkey (pcr_token_recv_mr r) cap w))
               (\<lambda>remote (p, w).
             let r = the (pc_res p) in
             and_then_opt
               (map_option (\<lambda>(x, src, w). (x, put (r\<lparr>pcr_send_src := src\<rparr>), w))
                 (drain_ring_setup_sends nic task setup_wrs (pcr_send_src r) w))
               (\<lambda>_ (p, w).
             let (d, w) = post_doorbells nic (pcr_qp r) 0 (pcr_doorbell_bufs r) w in
             Some (and_then (d, p, w) (\<lambda>_ s. (Ok remote, s)))))))"

definition pending_commit ::
    "u64 \<times> u32 \<times> nat \<Rightarrow> pending_credit_ring \<Rightarrow> credit_ring res \<times> pending_credit_ring" where
  "pending_commit remote p =
     (let (raddr, rkey, rcap) = remote in
      case pc_res p of
        None \<Rightarrow> (Panic, p)
      | Some r \<Rightarrow>
          (case pcr_cm r of
             None \<Rightarrow> (Panic, p\<lparr>pc_res := None\<rparr>)
           | Some (ch, cmid) \<Rightarrow>
               (Ok (cr_from_parts (pcr_qp r) (pcr_send_src r) (pcr_recv_src r) ch cmid
                      (pcr_send_mr r) (pcr_recv_mr r) (pcr_recv_mw r) (pcr_doorbell_bufs r)
                      raddr rkey rcap (pc_max_outstanding p) (pc_config p)),
                p\<lparr>pc_res := None\<rparr>)))"

definition pending_drop :: "'n nic \<Rightarrow> pending_credit_ring \<Rightarrow> 'n world \<Rightarrow> 'n world" where
  "pending_drop nic p w =
     (case pc_res p of
        None \<Rightarrow> w
      | Some r \<Rightarrow>
          let w = snd (to_error nic (pcr_qp r) w)
          in drain_flushed nic (pcr_send_src r) (pcr_recv_src r) w)"

text \<open>
  The end of \<open>connect\<close> and \<open>accept\<close>, once the handshake is done: \<open>pending\<close> is dropped at
  every early return.
\<close>

definition cr_complete ::
    "'n nic \<Rightarrow> nat \<Rightarrow> nat \<Rightarrow> u32 \<Rightarrow> pending_credit_ring \<Rightarrow> 'n world \<Rightarrow> (credit_ring res \<times> 'n world) option" where
  "cr_complete nic task ch cmid p w =
     (case attach_cm ch cmid p of
        Ok p \<Rightarrow>
          (case pending_finish nic task p w of
             None \<Rightarrow> None
           | Some (Ok remote, p, w) \<Rightarrow>
               let (t, p) = pending_commit remote p in Some (t, pending_drop nic p w)
           | Some (Err e, p, w) \<Rightarrow> Some (Err e, pending_drop nic p w)
           | Some (Panic, p, w) \<Rightarrow> Some (Panic, pending_drop nic p w))
      | _ \<Rightarrow> Some (Panic, pending_drop nic p w))"

text \<open>
  \<open>connect\<close>: \<open>resolve\<close> is the creation of the CM id with address and route resolution,
  \<open>handshake\<close> its \<open>connect\<close>, \<open>register\<close> the registration of the event channel, which
  yields channel and id.
\<close>

definition cr_connect ::
    "'n nic \<Rightarrow> nat \<Rightarrow> bool \<Rightarrow> ('n world \<Rightarrow> 'n cm_endpoint res \<times> 'n world) \<Rightarrow>
       ('n world \<Rightarrow> unit res \<times> 'n world) \<Rightarrow> ('n world \<Rightarrow> (nat \<times> u32) res \<times> 'n world) \<Rightarrow>
       credit_ring_config \<Rightarrow> 'n world \<Rightarrow> (credit_ring res \<times> 'n world) option" where
  "cr_connect nic task any_iwarp resolve handshake register c w =
     (if any_iwarp then Some (Err (InvalidArg ''ring transport requires InfiniBand/RoCE''), w)
      else and_then_opt (Some (resolve w)) (\<lambda>ep w.
           and_then_opt (Some (prepare_pending_credit nic ep c w)) (\<lambda>p w.
             case handshake w of
               (Err e, w) \<Rightarrow> Some (Err e, pending_drop nic p w)
             | (Panic, w) \<Rightarrow> Some (Panic, pending_drop nic p w)
             | (Ok _, w) \<Rightarrow>
                 (case register w of
                    (Err e, w) \<Rightarrow> Some (Err e, pending_drop nic p w)
                  | (Panic, w) \<Rightarrow> Some (Panic, pending_drop nic p w)
                  | (Ok (ch, cmid), w) \<Rightarrow> cr_complete nic task ch cmid p w))))"

text \<open>
  \<open>accept\<close>: \<open>get_request\<close> yields the endpoint; then the reply and the wait for
  \<open>ESTABLISHED\<close>, a fresh event channel, the migration of the id to it and its registration.
\<close>

definition cr_accept ::
    "'n nic \<Rightarrow> nat \<Rightarrow> bool \<Rightarrow> ('n world \<Rightarrow> 'n cm_endpoint res \<times> 'n world) \<Rightarrow>
       ('n world \<Rightarrow> unit res \<times> 'n world) \<Rightarrow> ('n world \<Rightarrow> unit res \<times> 'n world) \<Rightarrow>
       ('n world \<Rightarrow> nat res \<times> 'n world) \<Rightarrow> (nat \<Rightarrow> 'n world \<Rightarrow> u32 res \<times> 'n world) \<Rightarrow>
       credit_ring_config \<Rightarrow> 'n world \<Rightarrow> (credit_ring res \<times> 'n world) option" where
  "cr_accept nic task any_iwarp get_request reply await_established new_channel migrate c w =
     (if any_iwarp then Some (Err (InvalidArg ''ring transport requires InfiniBand/RoCE''), w)
      else and_then_opt (Some (get_request w)) (\<lambda>ep w.
           and_then_opt (Some (prepare_pending_credit nic ep c w)) (\<lambda>p w.
             case and_then (reply w) (\<lambda>_ w. and_then (await_established w) (\<lambda>_ w.
                    and_then (new_channel w) (\<lambda>ch w. and_then (migrate ch w) (\<lambda>cmid w.
                      (Ok (ch, cmid), w))))) of
               (Err e, w) \<Rightarrow> Some (Err e, pending_drop nic p w)
             | (Panic, w) \<Rightarrow> Some (Panic, pending_drop nic p w)
             | (Ok (ch, cmid), w) \<Rightarrow> cr_complete nic task ch cmid p w)))"

subsection \<open>Doorbells, credits and receive slots\<close>

definition cr_repost_doorbell :: "'n nic \<Rightarrow> credit_ring \<Rightarrow> 'n world \<Rightarrow> unit res \<times> credit_ring \<times> 'n world" where
  "cr_repost_doorbell nic t w =
     (let (r, idx, w) = repost_doorbell nic (cr_qp t) (cr_doorbell_bufs t) (cr_doorbell_repost_idx t) w
      in (r, t\<lparr>cr_doorbell_repost_idx := idx\<rparr>, w))"

definition flush_credits :: "'n nic \<Rightarrow> credit_ring \<Rightarrow> 'n world \<Rightarrow> unit res \<times> credit_ring \<times> 'n world" where
  "flush_credits nic t w =
     (if cr_local_freed_credits t > cr_credits_sent t \<and> cr_send_in_flight t < cr_sq_capacity t then
        let imm = word_of_nat (cr_local_freed_credits t);
            i = WR_ID_CREDIT_FLAG OR word_of_nat (cr_local_freed_credits t)
        in case post_send_wr nic (cr_qp t) (wr_signaled (send_wr_new i (WrSendWithImm imm))) w of
             (Ok _, w) \<Rightarrow>
               let t = t\<lparr>cr_credits_sent := cr_local_freed_credits t,
                         cr_send_in_flight := cr_send_in_flight t + 1\<rparr>
               in (if cr_send_in_flight t \<le> cr_sq_capacity t then Ok () else Panic, t, w)
           | (Err e, w) \<Rightarrow> (Err e, t, w)
           | (Panic, w) \<Rightarrow> (Panic, t, w)
      else (Ok (), t, w))"

text \<open>
  The round-robin search for a free virtual index, at most \<open>k\<close> probes: \<open>Ok None\<close> when
  there is none.
\<close>

fun find_virt :: "nat \<Rightarrow> 'a option list \<Rightarrow> nat \<Rightarrow> nat \<Rightarrow> nat option res" where
  "find_virt 0 vm mo v = Ok None"
| "find_virt (Suc k) vm mo v =
     (if v \<ge> length vm then Panic
      else if vm ! v = None then Ok (Some v)
      else find_virt k vm mo ((v + 1) mod mo))"

text \<open>A message arrives at \<open>offset\<close>: it takes a virtual index and an arrival number.\<close>

definition cr_map_data :: "nat \<Rightarrow> nat \<Rightarrow> credit_ring \<Rightarrow> recv_completion option res \<times> credit_ring" where
  "cr_map_data offset len t =
     (case find_virt (cr_max_outstanding t) (cr_virtual_idx_map t) (cr_max_outstanding t)
             (cr_next_virt_idx t) of
        Ok None \<Rightarrow> (Ok None, t)
      | Ok (Some v) \<Rightarrow>
          (Ok (Some \<lparr>rc_buf_idx = v, rc_byte_len = len\<rparr>),
           t\<lparr>cr_recv_arrival_seq := cr_recv_arrival_seq t + 1,
             cr_virtual_idx_map := (cr_virtual_idx_map t)[v := Some (offset, len, cr_recv_arrival_seq t)],
             cr_next_virt_idx := (v + 1) mod cr_max_outstanding t\<rparr>)
      | Err e \<Rightarrow> (Err e, t)
      | Panic \<Rightarrow> (Panic, t))"

text \<open>Releasing arrival number \<open>seq\<close>: the tracker advances and the credits are sent.\<close>

definition cr_release_seq ::
    "'n nic \<Rightarrow> nat \<Rightarrow> credit_ring \<Rightarrow> 'n world \<Rightarrow> unit res \<times> credit_ring \<times> 'n world" where
  "cr_release_seq nic sq t w =
     (if cr_max_outstanding t = 0 then (Panic, t, w)
      else
        let (r, tr) = tracker_release (sq mod cr_max_outstanding t) (cr_recv_tracker t);
            t = t\<lparr>cr_recv_tracker := tr\<rparr>
        in case r of
             Ok contiguous \<Rightarrow>
               if contiguous > 0 then
                 flush_credits nic
                   (t\<lparr>cr_local_freed_credits := cr_local_freed_credits t + contiguous\<rparr>) w
               else (Ok (), t, w)
           | Err e \<Rightarrow> (Err e, t, w)
           | Panic \<Rightarrow> (Panic, t, w))"

text \<open>
  A padding marker: repost a doorbell, then take an arrival number and release it at once.
  Either failure marks the peer disconnected.
\<close>

definition cr_take_padding :: "'n nic \<Rightarrow> credit_ring \<Rightarrow> 'n world \<Rightarrow> unit res \<times> credit_ring \<times> 'n world" where
  "cr_take_padding nic t w =
     (case cr_repost_doorbell nic t w of
        (Err e, t, w) \<Rightarrow>
          (Err (InvalidArg ''repost_doorbell failed''), t\<lparr>cr_peer_disconnected := True\<rparr>, w)
      | (Panic, t, w) \<Rightarrow> (Panic, t, w)
      | (Ok _, t, w) \<Rightarrow>
          (case cr_release_seq nic (cr_recv_arrival_seq t)
                  (t\<lparr>cr_recv_arrival_seq := cr_recv_arrival_seq t + 1\<rparr>) w of
             (Err e, t, w) \<Rightarrow>
               (Err (InvalidArg ''credit post_send failed''), t\<lparr>cr_peer_disconnected := True\<rparr>, w)
           | (Panic, t, w) \<Rightarrow> (Panic, t, w)
           | (Ok _, t, w) \<Rightarrow> (Ok (), t, w)))"

text \<open>A credit update: the absolute count, as a wrapping difference to the last one.\<close>

definition cr_credit_update :: "u32 \<Rightarrow> credit_ring \<Rightarrow> credit_ring" where
  "cr_credit_update freed_count t =
     (let delta = unat (freed_count - cr_remote_freed_received t) in
      if delta > 0 \<and> delta \<le> cr_max_outstanding t then
        t\<lparr>cr_remote_credits := cr_remote_credits t + delta, cr_remote_freed_received := freed_count\<rparr>
      else t)"

text \<open>\<open>drain_recv_credits\<close>: the loop over the batch; \<open>Err\<close> is never returned.\<close>

fun cr_drain_loop :: "'n nic \<Rightarrow> wc list \<Rightarrow> credit_ring \<Rightarrow> 'n world \<Rightarrow> unit res \<times> credit_ring \<times> 'n world" where
  "cr_drain_loop nic [] t w = (Ok (), t, w)"
| "cr_drain_loop nic (c # cs) t w =
     (if \<not> is_success c then (Ok (), t\<lparr>cr_peer_disconnected := True\<rparr>, w)
      else if opcode c = WcRecvRdmaWithImm then
        (let (offset, len) = decode_ring_imm (imm_data c) in
         if len = 0 then
           (case cr_take_padding nic t w of
              (Ok _, t, w) \<Rightarrow> cr_drain_loop nic cs t w
            | (Err e, t, w) \<Rightarrow> (Ok (), t, w)
            | (Panic, t, w) \<Rightarrow> (Panic, t, w))
         else
           (case cr_map_data offset len t of
              (Ok None, t) \<Rightarrow> cr_drain_loop nic cs t w
            | (Ok (Some rc), t) \<Rightarrow>
                cr_drain_loop nic cs (t\<lparr>cr_recv_stash := cr_recv_stash t @ [rc]\<rparr>) w
            | (_, t) \<Rightarrow> (Panic, t, w)))
      else if opcode c = WcRecv then
        (let t = (if wc_with_imm c then cr_credit_update (imm_data c) t else t) in
         case cr_repost_doorbell nic t w of
           (Ok _, t, w) \<Rightarrow> cr_drain_loop nic cs t w
         | (Err e, t, w) \<Rightarrow> (Ok (), t\<lparr>cr_peer_disconnected := True\<rparr>, w)
         | (Panic, t, w) \<Rightarrow> (Panic, t, w))
      else cr_drain_loop nic cs t w)"

definition drain_recv_credits :: "'n nic \<Rightarrow> credit_ring \<Rightarrow> 'n world \<Rightarrow> unit res \<times> credit_ring \<times> 'n world" where
  "drain_recv_credits nic t w =
     (case drain_once nic 8 (cr_recv_src t) w of
        (Ok wcs, w) \<Rightarrow> cr_drain_loop nic wcs t w
      | (Err e, w) \<Rightarrow> (Ok (), t\<lparr>cr_peer_disconnected := True\<rparr>, w)
      | (Panic, w) \<Rightarrow> (Panic, t, w))"

subsection \<open>Send completions\<close>

fun process_send_completions :: "wc list \<Rightarrow> credit_ring \<Rightarrow> unit res \<times> credit_ring" where
  "process_send_completions [] t = (Ok (), t)"
| "process_send_completions (c # cs) t =
     (if \<not> is_success c then (Err (wc_error c), t\<lparr>cr_peer_disconnected := True\<rparr>)
      else
        let i = wr_id c;
            t = (if i AND WR_ID_CREDIT_FLAG \<noteq> 0 then t
                 else if i = WR_ID_PADDING_SENTINEL then t
                 else
                   let data_len = unat i in
                   if data_len > 0 \<and> data_len \<le> rb_capacity (cr_send_ring t) then
                     t\<lparr>cr_send_ring := release data_len (cr_send_ring t)\<rparr>
                   else t)
        in process_send_completions cs (t\<lparr>cr_send_in_flight := cr_send_in_flight t - 1\<rparr>))"

definition drain_send_body ::
    "'n nic \<Rightarrow> credit_ring \<times> 'n world \<Rightarrow>
       ((credit_ring \<times> 'n world) + (unit res \<times> credit_ring \<times> 'n world)) option" where
  "drain_send_body nic s =
     (let (t, w) = s in
      Some (case try_drain nic 8 (cr_send_src t) w of
        (Ok wcs, w) \<Rightarrow>
          if length wcs = 0 then Inr (Ok (), t, w)
          else
            (case process_send_completions wcs t of
               (Ok _, t) \<Rightarrow> Inl (t, w)
             | (Err e, t) \<Rightarrow> Inr (Err e, t, w)
             | (Panic, t) \<Rightarrow> Inr (Panic, t, w))
      | (Err e, w) \<Rightarrow> Inr (Err e, t, w)
      | (Panic, w) \<Rightarrow> Inr (Panic, t, w)))"

definition drain_send_cq ::
    "'n nic \<Rightarrow> credit_ring \<Rightarrow> 'n world \<Rightarrow> (unit res \<times> credit_ring \<times> 'n world) option" where
  "drain_send_cq nic t w = loop (drain_send_body nic) (t, w)"

subsection \<open>Sending\<close>

text \<open>
  The padding write of a send that wraps: \<open>Ok True\<close> once it is posted (or not needed),
  \<open>Ok False\<close> when there are not credits for both and the reservation was rolled back.
\<close>

definition cr_post_padding ::
    "'n nic \<Rightarrow> nat \<Rightarrow> nat \<Rightarrow> credit_ring \<Rightarrow> 'n world \<Rightarrow> bool res \<times> credit_ring \<times> 'n world" where
  "cr_post_padding nic local_offset padding t w =
     (if padding > 0 then
        if cr_remote_credits t < 2 then
          (Ok False,
           t\<lparr>cr_send_ring := (cr_send_ring t)\<lparr>rb_tail :=
               (if local_offset = 0 then rb_capacity (cr_send_ring t) - padding else local_offset)\<rparr>\<rparr>, w)
        else
          let pad_remote_offset = cr_remote_write_tail t;
              imm = encode_ring_imm pad_remote_offset 0;
              pad_wr = wr_rdma (cr_remote_addr t + word_of_nat pad_remote_offset) (cr_remote_rkey t)
                (wr_signaled (send_wr_new WR_ID_PADDING_SENTINEL (WrRdmaWriteWithImm imm)))
          in case post_send_wr nic (cr_qp t) pad_wr w of
               (Ok _, w) \<Rightarrow>
                 (Ok True, t\<lparr>cr_remote_credits := cr_remote_credits t - 1,
                             cr_send_in_flight := cr_send_in_flight t + 1,
                             cr_remote_write_tail := 0\<rparr>, w)
             | (Err e, w) \<Rightarrow> (Err e, t, w)
             | (Panic, w) \<Rightarrow> (Panic, t, w)
      else (Ok True, t, w))"

text \<open>The copy into the reserved region and the data write.\<close>

definition cr_post_data ::
    "'n nic \<Rightarrow> bytes list \<Rightarrow> nat \<Rightarrow> nat \<Rightarrow> nat \<Rightarrow> credit_ring \<Rightarrow> 'n world \<Rightarrow> nat res \<times> credit_ring \<times> 'n world" where
  "cr_post_data nic bufs local_offset padding data_len t w =
     (let m = rb_mr (cr_send_ring t) in
      if local_offset + data_len > length (mr_bytes m) then (Panic, t, w)
      else
        let (_, content) = gather_into (slice (mr_bytes m) local_offset (local_offset + data_len)) bufs;
            m = m\<lparr>mr_bytes := upd_range (mr_bytes m) local_offset content\<rparr>;
            t = t\<lparr>cr_send_ring := (cr_send_ring t)\<lparr>rb_mr := m\<rparr>\<rparr>;
            remote_offset = cr_remote_write_tail t;
            imm = encode_ring_imm remote_offset data_len;
            sg = \<lparr>sge_addr = mr_addr m + word_of_nat local_offset, sge_length = word_of_nat data_len,
                  sge_lkey = mr_lkey m\<rparr>;
            release_len = padding + data_len;
            wr = wr_rdma (cr_remote_addr t + word_of_nat remote_offset) (cr_remote_rkey t)
              (wr_sg sg (wr_signaled (send_wr_new (word_of_nat release_len) (WrRdmaWriteWithImm imm))))
        in case post_send_wr nic (cr_qp t) wr w of
             (Ok _, w) \<Rightarrow>
               if cr_remote_capacity t = 0 \<or> cr_remote_credits t = 0 then (Panic, t, w)
               else
                 let t = t\<lparr>cr_remote_write_tail := (remote_offset + data_len) mod cr_remote_capacity t,
                           cr_remote_credits := cr_remote_credits t - 1,
                           cr_send_in_flight := cr_send_in_flight t + 1\<rparr>
                 in (if cr_send_in_flight t \<le> cr_sq_capacity t then Ok data_len else Panic, t, w)
           | (Err e, w) \<Rightarrow> (Err e, t, w)
           | (Panic, w) \<Rightarrow> (Panic, t, w))"

text \<open>A send once the credits are up to date.\<close>

definition cr_send_with_credits ::
    "'n nic \<Rightarrow> bytes list \<Rightarrow> nat \<Rightarrow> credit_ring \<Rightarrow> 'n world \<Rightarrow> nat res \<times> credit_ring \<times> 'n world" where
  "cr_send_with_credits nic bufs total_len t w =
     (if cr_remote_credits t = 0 then (Ok 0, t, w)
      else if cr_send_in_flight t + 2 > cr_sq_capacity t then (Ok 0, t, w)
      else
        let data_len = min (min (min total_len (cc_max_message_size (cr_config t)))
                             (cr_remote_capacity t)) 0xFFFF in
        case reserve data_len (cr_send_ring t) of
          (None, _) \<Rightarrow> (Ok 0, t, w)
        | (Some (local_offset, padding), r) \<Rightarrow>
            and_then (cr_post_padding nic local_offset padding (t\<lparr>cr_send_ring := r\<rparr>) w)
              (\<lambda>go (t, w).
            if go then cr_post_data nic bufs local_offset padding data_len t w
            else (Ok 0, t, w)))"

definition cr_send_gather ::
    "'n nic \<Rightarrow> bytes list \<Rightarrow> credit_ring \<Rightarrow> 'n world \<Rightarrow> nat res \<times> credit_ring \<times> 'n world" where
  "cr_send_gather nic bufs t w =
     (if cr_peer_disconnected t then (Err (WorkCompletionErr 5 0), t, w)
      else
        let total_len = sum_list (map length bufs) in
        if total_len = 0 then (Ok 0, t, w)
        else
          and_then (if cr_remote_credits t = 0 then drain_recv_credits nic t w else (Ok (), t, w))
            (\<lambda>_ (t, w). cr_send_with_credits nic bufs total_len t w))"

definition cr_send_copy ::
    "'n nic \<Rightarrow> bytes \<Rightarrow> credit_ring \<Rightarrow> 'n world \<Rightarrow> nat res \<times> credit_ring \<times> 'n world" where
  "cr_send_copy nic data t w = cr_send_gather nic [data] t w"

definition cr_poll_send_completion ::
    "'n nic \<Rightarrow> nat \<Rightarrow> credit_ring \<Rightarrow> 'n world \<Rightarrow> (unit res poll \<times> credit_ring \<times> 'n world) option" where
  "cr_poll_send_completion nic task t w =
     (case poll_completions nic task 8 (cr_send_src t) w of
        None \<Rightarrow> None
      | Some (p, src, w) \<Rightarrow>
          let t = t\<lparr>cr_send_src := src\<rparr> in
          (case p of
             Pending \<Rightarrow> Some (Pending, t, w)
           | Ready (Err e) \<Rightarrow> Some (Ready (Err e), t, w)
           | Ready Panic \<Rightarrow> Some (Ready Panic, t, w)
           | Ready (Ok wcs) \<Rightarrow>
               (case process_send_completions wcs t of
                  (Err e, t) \<Rightarrow> Some (Ready (Err e), t, w)
                | (Panic, t) \<Rightarrow> Some (Ready Panic, t, w)
                | (Ok _, t) \<Rightarrow>
                    (case flush_credits nic t w of
                       (Err e, t, w) \<Rightarrow> Some (Ready (Err e), t\<lparr>cr_peer_disconnected := True\<rparr>, w)
                     | (Panic, t, w) \<Rightarrow> Some (Ready Panic, t, w)
                     | (Ok _, t, w) \<Rightarrow> Some (Ready (Ok ()), t, w)))))"

definition cr_sends_in_flight :: "credit_ring \<Rightarrow> nat" where
  "cr_sends_in_flight t = cr_send_in_flight t"

definition cr_recv_window :: "credit_ring \<Rightarrow> nat" where
  "cr_recv_window t = cr_max_outstanding t"

subsection \<open>Receiving\<close>

text \<open>
  The loop over a batch: what has been written to \<open>out\<close> so far, and the two flags. A
  completion beyond the buffer's room goes to the stash.
\<close>

fun cr_recv_loop ::
    "'n nic \<Rightarrow> nat \<Rightarrow> wc list \<Rightarrow> recv_completion list \<Rightarrow> bool \<Rightarrow> bool \<Rightarrow> credit_ring \<Rightarrow> 'n world \<Rightarrow>
       (recv_completion list \<times> bool \<times> bool) res \<times> credit_ring \<times> 'n world" where
  "cr_recv_loop nic room [] out got_data got_credits t w = (Ok (out, got_data, got_credits), t, w)"
| "cr_recv_loop nic room (c # cs) out got_data got_credits t w =
     (if \<not> is_success c then (Err (wc_error c), t\<lparr>cr_peer_disconnected := True\<rparr>, w)
      else if opcode c = WcRecvRdmaWithImm then
        (let (offset, len) = decode_ring_imm (imm_data c) in
         if offset \<ge> rb_capacity (cr_recv_ring t)
            \<or> (len > 0 \<and> offset + len > rb_capacity (cr_recv_ring t)) then
           (Err (InvalidArg ''recv ring offset/length out of bounds''),
            t\<lparr>cr_peer_disconnected := True\<rparr>, w)
         else if len = 0 then
           (case cr_take_padding nic t w of
              (Ok _, t, w) \<Rightarrow> cr_recv_loop nic room cs out got_data got_credits t w
            | (Err e, t, w) \<Rightarrow> (Err e, t, w)
            | (Panic, t, w) \<Rightarrow> (Panic, t, w))
         else
           (case cr_map_data offset len t of
              (Ok None, t) \<Rightarrow>
                (Err (InvalidArg ''recv virtual index map exhausted''),
                 t\<lparr>cr_peer_disconnected := True\<rparr>, w)
            | (Ok (Some rc), t) \<Rightarrow>
                if length out < room then cr_recv_loop nic room cs (out @ [rc]) True got_credits t w
                else cr_recv_loop nic room cs out True got_credits
                       (t\<lparr>cr_recv_stash := cr_recv_stash t @ [rc]\<rparr>) w
            | (_, t) \<Rightarrow> (Panic, t, w)))
      else if opcode c = WcRecv then
        (let t = (if wc_with_imm c then cr_credit_update (imm_data c) t else t) in
         case cr_repost_doorbell nic t w of
           (Ok _, t, w) \<Rightarrow>
             cr_recv_loop nic room cs out got_data (got_credits \<or> wc_with_imm c) t w
         | (Err e, t, w) \<Rightarrow>
             (Err (InvalidArg ''repost_doorbell failed''), t\<lparr>cr_peer_disconnected := True\<rparr>, w)
         | (Panic, t, w) \<Rightarrow> (Panic, t, w))
      else cr_recv_loop nic room cs out got_data got_credits t w)"

definition cr_poll_recv_body ::
    "'n nic \<Rightarrow> nat \<Rightarrow> nat \<Rightarrow> recv_completion list \<times> credit_ring \<times> 'n world \<Rightarrow>
       ((recv_completion list \<times> credit_ring \<times> 'n world)
        + (recv_completion list res poll \<times> credit_ring \<times> 'n world)) option" where
  "cr_poll_recv_body nic task room s =
     (let (out, t, w) = s in
      case poll_completions nic task 8 (cr_recv_src t) w of
        None \<Rightarrow> None
      | Some (p, src, w) \<Rightarrow>
          let t = t\<lparr>cr_recv_src := src\<rparr> in
          (case p of
             Pending \<Rightarrow> Some (Inr (if length out > 0 then Ready (Ok out) else Pending, t, w))
           | Ready (Err e) \<Rightarrow> Some (Inr (Ready (Err e), t, w))
           | Ready Panic \<Rightarrow> Some (Inr (Ready Panic, t, w))
           | Ready (Ok wcs) \<Rightarrow>
               (case cr_recv_loop nic room wcs out False False t w of
                  (Err e, t, w) \<Rightarrow> Some (Inr (Ready (Err e), t, w))
                | (Panic, t, w) \<Rightarrow> Some (Inr (Ready Panic, t, w))
                | (Ok (out, got_data, got_credits), t, w) \<Rightarrow>
                    if length out > 0 \<or> got_data then Some (Inr (Ready (Ok out), t, w))
                    else if got_credits then Some (Inr (Ready (Ok []), t, w))
                    else Some (Inl (out, t, w)))))"

definition cr_poll_recv ::
    "'n nic \<Rightarrow> nat \<Rightarrow> nat \<Rightarrow> credit_ring \<Rightarrow> 'n world \<Rightarrow>
       (recv_completion list res poll \<times> credit_ring \<times> 'n world) option" where
  "cr_poll_recv nic task room t w =
     (let out = take room (cr_recv_stash t);
          t = t\<lparr>cr_recv_stash := drop room (cr_recv_stash t)\<rparr>
      in if length out \<ge> room then Some (Ready (Ok out), t, w)
         else
           case drain_send_cq nic t w of
             None \<Rightarrow> None
           | Some (Err e, t, w) \<Rightarrow> Some (Ready (Err e), t\<lparr>cr_peer_disconnected := True\<rparr>, w)
           | Some (Panic, t, w) \<Rightarrow> Some (Ready Panic, t, w)
           | Some (Ok _, t, w) \<Rightarrow>
               (case flush_credits nic t w of
                  (Err e, t, w) \<Rightarrow> Some (Ready (Err e), t\<lparr>cr_peer_disconnected := True\<rparr>, w)
                | (Panic, t, w) \<Rightarrow> Some (Ready Panic, t, w)
                | (Ok _, t, w) \<Rightarrow> loop (cr_poll_recv_body nic task room) (out, t, w)))"

definition cr_recv_buf :: "'n nic \<Rightarrow> nat \<Rightarrow> credit_ring \<Rightarrow> 'n world \<Rightarrow> bytes res" where
  "cr_recv_buf nic buf_idx t w =
     (if buf_idx \<ge> length (cr_virtual_idx_map t) then Panic
      else
        case cr_virtual_idx_map t ! buf_idx of
          None \<Rightarrow> Panic
        | Some (offset, len, _) \<Rightarrow>
            let mem = host_memory nic (rb_mr (cr_recv_ring t)) (hw w) in
            if offset + len > length mem then Panic else Ok (slice mem offset (offset + len)))"

definition cr_repost_recv ::
    "'n nic \<Rightarrow> nat \<Rightarrow> credit_ring \<Rightarrow> 'n world \<Rightarrow> unit res \<times> credit_ring \<times> 'n world" where
  "cr_repost_recv nic buf_idx t w =
     (if buf_idx \<ge> length (cr_virtual_idx_map t) then (Panic, t, w)
      else
        case cr_virtual_idx_map t ! buf_idx of
          None \<Rightarrow> (Panic, t, w)
        | Some (_, _, arrival_seq) \<Rightarrow>
            and_then (cr_repost_doorbell nic
                (t\<lparr>cr_virtual_idx_map := (cr_virtual_idx_map t)[buf_idx := None]\<rparr>) w)
              (\<lambda>_ (t, w). cr_release_seq nic arrival_seq t w))"

subsection \<open>Disconnect and drop\<close>

definition cr_poll_disconnect ::
    "'n nic \<Rightarrow> credit_ring \<Rightarrow> 'n world \<Rightarrow> (bool \<times> credit_ring \<times> 'n world) option" where
  "cr_poll_disconnect nic t w =
     map_option (\<lambda>(b, pd, w). (b, t\<lparr>cr_peer_disconnected := pd\<rparr>, w))
       (poll_cm_disconnect nic (cr_event_channel t) (cr_peer_disconnected t) w)"

definition cr_disconnect :: "'n nic \<Rightarrow> credit_ring \<Rightarrow> 'n world \<Rightarrow> unit res \<times> credit_ring \<times> 'n world" where
  "cr_disconnect nic t w =
     (if \<not> cr_disconnected t then
        (case cm_disconnect nic (cr_cm_id t) w of
           (Ok _, w) \<Rightarrow> (Ok (), t\<lparr>cr_disconnected := True\<rparr>, w)
         | (Err e, w) \<Rightarrow> (Err e, t, w)
         | (Panic, w) \<Rightarrow> (Panic, t, w))
      else (Ok (), t, w))"

definition cr_drop :: "'n nic \<Rightarrow> credit_ring \<Rightarrow> 'n world \<Rightarrow> 'n world" where
  "cr_drop nic t w =
     (let w = (if \<not> cr_disconnected t then snd (cm_disconnect nic (cr_cm_id t) w) else w);
          w = snd (to_error nic (cr_qp t) w)
      in drain_flushed nic (cr_send_src t) (cr_recv_src t) w)"

text \<open>The search for a free index stays in range and finds a free one.\<close>

lemma find_virt_Ok:
  "length vm = mo \<Longrightarrow> v < mo \<Longrightarrow>
     \<exists>x. find_virt k vm mo v = Ok x \<and> (\<forall>u. x = Some u \<longrightarrow> u < mo \<and> vm ! u = None)"
  by (induction k arbitrary: v) auto

end
