(* ===== verification/CreditRingInv.thy ===== *)
theory CreditRingInv
  imports CreditRing Tracker
begin

section \<open>The credit ring: invariants and properties\<close>

text \<open>
  What holds of the credit-ring transport over any device that completes send requests in
  order and refuses a post only when its queue is full: the transport never has more
  requests outstanding than the queue holds, so no post of it is ever refused; the send ring
  holds exactly the data writes the device still owns, so the bytes of a message under
  transmission are never written again; nothing panics.
\<close>

subsection \<open>Well-formed receive side\<close>

definition cr_rwf :: "credit_ring \<Rightarrow> bool" where
  "cr_rwf t \<longleftrightarrow>
     0 < cr_max_outstanding t \<and> length (cr_virtual_idx_map t) = cr_max_outstanding t
     \<and> cr_next_virt_idx t < cr_max_outstanding t \<and> tracker_wf (cr_recv_tracker t)
     \<and> ct_capacity (cr_recv_tracker t) = cr_max_outstanding t
     \<and> cr_doorbell_repost_idx t < length (cr_doorbell_bufs t)"

text \<open>The send queue is within bounds: what the device owns is counted, and fits.\<close>

definition cr_ready :: "'n nic \<Rightarrow> nat \<Rightarrow> ('n \<Rightarrow> u64 list) \<Rightarrow> credit_ring \<times> 'n world \<Rightarrow> bool" where
  "cr_ready nic scq sq s \<longleftrightarrow>
     (case s of (t, w) \<Rightarrow>
        fifo_contract nic (aq_qpn (cr_qp t)) scq (cr_sq_capacity t) sq \<and> cr_rwf t
        \<and> length (sq (hw w)) \<le> cr_send_in_flight t \<and> cr_send_in_flight t \<le> cr_sq_capacity t)"

text \<open>The parts of the transport that receiving and returning credits leave alone.\<close>

definition cr_fixed :: "credit_ring \<Rightarrow> ring_buffer \<times> async_qp \<times> nat \<times> source \<times> source \<times> nat
    \<times> credit_ring_config \<times> nat \<times> ring_buffer" where
  "cr_fixed t = (cr_send_ring t, cr_qp t, cr_sq_capacity t, cr_send_src t, cr_recv_src t,
     cr_max_outstanding t, cr_config t, cr_remote_capacity t, cr_recv_ring t)"

text \<open>
  A step of the receive side: it may post credits (never data), each counted as in flight,
  and keeps within the queue.
\<close>

definition cr_rx :: "('n \<Rightarrow> u64 list) \<Rightarrow> credit_ring \<times> 'n world \<Rightarrow> credit_ring \<times> 'n world \<Rightarrow> bool" where
  "cr_rx sq s s' \<longleftrightarrow>
     (case (s, s') of ((t, w), (t', w')) \<Rightarrow>
        cr_fixed t' = cr_fixed t \<and> (cr_rwf t \<longrightarrow> cr_rwf t')
        \<and> (cr_peer_disconnected t \<longrightarrow> cr_peer_disconnected t')
        \<and> (cr_send_in_flight t \<le> cr_sq_capacity t \<longrightarrow> cr_send_in_flight t' \<le> cr_sq_capacity t)
        \<and> (\<exists>ids. sq (hw w') = sq (hw w) @ ids \<and> (\<forall>i \<in> set ids. \<not> data_id i)
             \<and> cr_send_in_flight t' = cr_send_in_flight t + length ids))"

lemma cr_rx_refl [simp]: "cr_rx sq s s"
  by (cases s) (simp add: cr_rx_def)

lemma cr_rx_trans: "cr_rx sq s1 s2 \<Longrightarrow> cr_rx sq s2 s3 \<Longrightarrow> cr_rx sq s1 s3"
  by (cases s1; cases s2; cases s3) (auto simp: cr_rx_def cr_fixed_def)

lemma cr_rx_ready: "cr_ready nic scq sq s \<Longrightarrow> cr_rx sq s s' \<Longrightarrow> cr_ready nic scq sq s'"
  by (cases s; cases s') (auto simp: cr_ready_def cr_rx_def cr_fixed_def)

text \<open>A change of other fields only.\<close>

lemma cr_rx_local:
  assumes "cr_fixed t' = cr_fixed t" "cr_rwf t \<Longrightarrow> cr_rwf t'"
    "cr_peer_disconnected t \<Longrightarrow> cr_peer_disconnected t'"
    "cr_send_in_flight t' = cr_send_in_flight t" "sq (hw w') = sq (hw w)"
  shows "cr_rx sq (t, w) (t', w')"
  using assms by (simp add: cr_rx_def)

lemma cr_rx_disconnect: "cr_rx sq s (t, w) \<Longrightarrow> cr_rx sq s (t\<lparr>cr_peer_disconnected := True\<rparr>, w)"
  by (erule cr_rx_trans) (rule cr_rx_local, simp_all add: cr_fixed_def cr_rwf_def)

subsection \<open>The receive side, step by step\<close>

lemma flush_credits_rx:
  assumes "cr_ready nic scq sq (t, w)" "flush_credits nic t w = (r, t', w')"
  shows "r = Ok () \<and> cr_rx sq (t, w) (t', w')"
proof (cases "cr_local_freed_credits t > cr_credits_sent t \<and> cr_send_in_flight t < cr_sq_capacity t")
  case True
  let ?i = "WR_ID_CREDIT_FLAG OR word_of_nat (cr_local_freed_credits t)"
  let ?wr = "wr_signaled (send_wr_new ?i (WrSendWithImm (word_of_nat (cr_local_freed_credits t))))"
  obtain r1 w1 where p: "post_send_wr nic (cr_qp t) ?wr w = (r1, w1)" by (rule prod.exhaust)
  from True assms(1) have "r1 = Ok () \<and> sq (hw w1) = sq (hw w) @ [swr_id ?wr]"
    by (intro post_send_wr_fifo [OF _ _ p]) (auto simp: cr_ready_def)
  with True p assms(2) show ?thesis
    by (auto simp: flush_credits_def Let_def cr_rx_def cr_fixed_def cr_rwf_def
        wr_signaled_def send_wr_new_def data_id_flag)
next
  case False
  with assms(2) show ?thesis by (auto simp: flush_credits_def)
qed

lemma cr_repost_doorbell_rx:
  assumes "cr_ready nic scq sq (t, w)" "cr_repost_doorbell nic t w = (r, t', w')"
  shows "r \<noteq> Panic \<and> cr_rx sq (t, w) (t', w')"
proof -
  obtain r1 idx w1 where p: "repost_doorbell nic (cr_qp t) (cr_doorbell_bufs t) (cr_doorbell_repost_idx t) w
      = (r1, idx, w1)" by (rule prod_cases3)
  have q: "quiet nic sq" and db: "cr_doorbell_repost_idx t < length (cr_doorbell_bufs t)"
    using assms(1) by (auto simp: cr_ready_def cr_rwf_def dest: fifo_quiet)
  note r1 = repost_doorbell_out [OF q db p]
  from r1 p assms(2) show ?thesis
    by (auto simp: cr_repost_doorbell_def intro!: cr_rx_local simp: cr_fixed_def cr_rwf_def)
qed

lemma cr_map_data_rx:
  assumes "cr_ready nic scq sq (t, w)" "cr_map_data offset len t = (r, t')"
  shows "\<exists>x. r = Ok x \<and> cr_rx sq (t, w) (t', w)"
proof -
  have wf: "cr_rwf t" using assms(1) by (simp add: cr_ready_def)
  from wf find_virt_Ok [of "cr_virtual_idx_map t" "cr_max_outstanding t" "cr_next_virt_idx t" "cr_max_outstanding t"]
  obtain x where x: "find_virt (cr_max_outstanding t) (cr_virtual_idx_map t) (cr_max_outstanding t)
      (cr_next_virt_idx t) = Ok x" by (auto simp: cr_rwf_def)
  show ?thesis
    using assms(2) x wf
    by (cases x) (auto simp: cr_map_data_def intro!: cr_rx_local simp: cr_fixed_def cr_rwf_def)
qed

lemma cr_release_seq_rx:
  assumes "cr_ready nic scq sq (t, w)" "cr_release_seq nic n t w = (r, t', w')"
  shows "r = Ok () \<and> cr_rx sq (t, w) (t', w')"
proof -
  have wf: "cr_rwf t" using assms(1) by (simp add: cr_ready_def)
  then have m: "n mod cr_max_outstanding t < ct_capacity (cr_recv_tracker t)" by (simp add: cr_rwf_def)
  from tracker_release_eq [OF _ m] wf obtain k tr
    where tr: "tracker_release (n mod cr_max_outstanding t) (cr_recv_tracker t) = (Ok k, tr)" "tracker_wf tr"
      "ct_capacity tr = cr_max_outstanding t" by (auto simp: cr_rwf_def chased_def Let_def)
  let ?t1 = "t\<lparr>cr_recv_tracker := tr\<rparr>"
  let ?t2 = "?t1\<lparr>cr_local_freed_credits := cr_local_freed_credits t + k\<rparr>"
  have step: "cr_rx sq (t, w) (?t1, w)" "cr_rx sq (t, w) (?t2, w)"
    using tr by (auto intro!: cr_rx_local simp: cr_fixed_def cr_rwf_def)
  show ?thesis
  proof (cases "k > 0")
    case True
    with assms(2) tr wf have "flush_credits nic ?t2 w = (r, t', w')"
      by (auto simp: cr_release_seq_def cr_rwf_def)
    from flush_credits_rx [OF cr_rx_ready [OF assms(1) step(2)] this] step(2) show ?thesis
      by (auto intro: cr_rx_trans)
  next
    case False
    with assms(2) tr wf step show ?thesis by (auto simp: cr_release_seq_def cr_rwf_def)
  qed
qed

lemma cr_take_padding_rx:
  assumes "cr_ready nic scq sq (t, w)" "cr_take_padding nic t w = (r, t', w')"
  shows "r \<noteq> Panic \<and> cr_rx sq (t, w) (t', w')"
proof -
  obtain r1 t1 w1 where p: "cr_repost_doorbell nic t w = (r1, t1, w1)" by (rule prod_cases3)
  note s1 = cr_repost_doorbell_rx [OF assms(1) p]
  let ?t1 = "t1\<lparr>cr_recv_arrival_seq := cr_recv_arrival_seq t1 + 1\<rparr>"
  have s2: "cr_rx sq (t, w) (?t1, w1)"
    by (rule cr_rx_trans [OF conjunct2 [OF s1]]) (rule cr_rx_local, simp_all add: cr_fixed_def cr_rwf_def)
  obtain r2 t2 w2 where q: "cr_release_seq nic (cr_recv_arrival_seq t1) ?t1 w1 = (r2, t2, w2)"
    by (rule prod_cases3)
  note s3 = cr_release_seq_rx [OF cr_rx_ready [OF assms(1) s2] q]
  show ?thesis
    using assms(2) p q s1 s3 cr_rx_trans [OF s2, of "(t2, w2)"]
    by (cases r1) (auto simp: cr_take_padding_def intro: cr_rx_disconnect)
qed

lemma cr_credit_update_rx: "cr_rx sq (t, w) (cr_credit_update n t, w)"
  by (rule cr_rx_local) (auto simp: cr_credit_update_def Let_def cr_fixed_def cr_rwf_def)

text \<open>The two loops over a batch of receive completions.\<close>

lemma cr_drain_loop_rx:
  "cr_ready nic scq sq (t, w) \<Longrightarrow> cr_drain_loop nic wcs t w = (r, t', w') \<Longrightarrow>
     r = Ok () \<and> cr_rx sq (t, w) (t', w')"
proof (induction wcs arbitrary: t w)
  case Nil
  then show ?case by simp
next
  case (Cons c cs)
  note rdy = Cons.prems(1)
  have cont: ?case if "cr_rx sq (t, w) (t1, w1)" "cr_drain_loop nic cs t1 w1 = (r, t', w')" for t1 w1
    using Cons.IH [OF cr_rx_ready [OF rdy that(1)] that(2)] cr_rx_trans [OF that(1)] by blast
  obtain offset len where d: "decode_ring_imm (imm_data c) = (offset, len)" by (rule prod.exhaust)
  consider (bad) "\<not> is_success c" | (pad) "is_success c" "opcode c = WcRecvRdmaWithImm" "len = 0"
    | (data) "is_success c" "opcode c = WcRecvRdmaWithImm" "len \<noteq> 0"
    | (recv) "is_success c" "opcode c = WcRecv"
    | (other) "is_success c" "opcode c \<noteq> WcRecvRdmaWithImm" "opcode c \<noteq> WcRecv" by blast
  then show ?case
  proof cases
    case bad
    with Cons.prems(2) show ?thesis by (auto intro: cr_rx_disconnect)
  next
    case pad
    obtain r1 t1 w1 where p: "cr_take_padding nic t w = (r1, t1, w1)" by (rule prod_cases3)
    note s1 = cr_take_padding_rx [OF rdy p]
    show ?thesis using pad d p s1 Cons.prems(2) cont by (cases r1) auto
  next
    case data
    obtain r1 t1 where p: "cr_map_data offset len t = (r1, t1)" by (rule prod.exhaust)
    from cr_map_data_rx [OF rdy p] obtain x where x: "r1 = Ok x" "cr_rx sq (t, w) (t1, w)" by blast
    show ?thesis
    proof (cases x)
      case None
      with data d p x Cons.prems(2) cont show ?thesis by simp
    next
      case (Some rc)
      have "cr_rx sq (t, w) (t1\<lparr>cr_recv_stash := cr_recv_stash t1 @ [rc]\<rparr>, w)"
        by (rule cr_rx_trans [OF x(2)]) (rule cr_rx_local, simp_all add: cr_fixed_def cr_rwf_def)
      from cont [OF this] Some data d p x Cons.prems(2) show ?thesis by simp
    qed
  next
    case recv
    let ?t = "if wc_with_imm c then cr_credit_update (imm_data c) t else t"
    have u: "cr_rx sq (t, w) (?t, w)" by (simp add: cr_credit_update_rx)
    obtain r1 t1 w1 where p: "cr_repost_doorbell nic ?t w = (r1, t1, w1)" by (rule prod_cases3)
    note s1 = cr_repost_doorbell_rx [OF cr_rx_ready [OF rdy u] p]
    with cr_rx_trans [OF u] have s2: "cr_rx sq (t, w) (t1, w1)" by blast
    show ?thesis using recv p s1 s2 Cons.prems(2) cont [OF s2]
      by (cases r1) (auto simp: Let_def intro: cr_rx_disconnect)
  next
    case other
    with Cons.prems(2) cont [OF cr_rx_refl] show ?thesis by simp
  qed
qed

lemma cr_recv_loop_rx:
  "cr_ready nic scq sq (t, w) \<Longrightarrow> cr_recv_loop nic room wcs out gd gc t w = (r, t', w') \<Longrightarrow>
     r \<noteq> Panic \<and> cr_rx sq (t, w) (t', w')"
proof (induction wcs arbitrary: t w out gd gc)
  case Nil
  then show ?case by auto
next
  case (Cons c cs)
  note rdy = Cons.prems(1)
  have cont: ?case if "cr_rx sq (t, w) (t1, w1)" "cr_recv_loop nic room cs o1 d1 c1 t1 w1 = (r, t', w')"
    for t1 w1 o1 d1 c1
    using Cons.IH [OF cr_rx_ready [OF rdy that(1)] that(2)] cr_rx_trans [OF that(1)] by blast
  obtain offset len where d: "decode_ring_imm (imm_data c) = (offset, len)" by (rule prod.exhaust)
  let ?oob = "offset \<ge> rb_capacity (cr_recv_ring t) \<or> (len > 0 \<and> offset + len > rb_capacity (cr_recv_ring t))"
  consider (bad) "\<not> is_success c"
    | (oob) "is_success c" "opcode c = WcRecvRdmaWithImm" "?oob"
    | (pad) "is_success c" "opcode c = WcRecvRdmaWithImm" "\<not> ?oob" "len = 0"
    | (data) "is_success c" "opcode c = WcRecvRdmaWithImm" "\<not> ?oob" "len \<noteq> 0"
    | (recv) "is_success c" "opcode c = WcRecv"
    | (other) "is_success c" "opcode c \<noteq> WcRecvRdmaWithImm" "opcode c \<noteq> WcRecv" by blast
  then show ?case
  proof cases
    case bad
    with Cons.prems(2) show ?thesis by (auto intro: cr_rx_disconnect)
  next
    case oob
    with d Cons.prems(2) show ?thesis by (auto intro: cr_rx_disconnect)
  next
    case pad
    obtain r1 t1 w1 where p: "cr_take_padding nic t w = (r1, t1, w1)" by (rule prod_cases3)
    note s1 = cr_take_padding_rx [OF rdy p]
    show ?thesis using pad d p s1 Cons.prems(2) cont by (cases r1) auto
  next
    case data
    obtain r1 t1 where p: "cr_map_data offset len t = (r1, t1)" by (rule prod.exhaust)
    from cr_map_data_rx [OF rdy p] obtain x where x: "r1 = Ok x" "cr_rx sq (t, w) (t1, w)" by blast
    show ?thesis
    proof (cases x)
      case None
      with data d p x Cons.prems(2) show ?thesis by (auto intro: cr_rx_disconnect)
    next
      case (Some rc)
      have "cr_rx sq (t, w) (t1\<lparr>cr_recv_stash := cr_recv_stash t1 @ [rc]\<rparr>, w)"
        by (rule cr_rx_trans [OF x(2)]) (rule cr_rx_local, simp_all add: cr_fixed_def cr_rwf_def)
      from cont [OF this] cont [OF x(2)] Some data d p x Cons.prems(2) show ?thesis
        by (auto split: if_splits)
    qed
  next
    case recv
    let ?t = "if wc_with_imm c then cr_credit_update (imm_data c) t else t"
    have u: "cr_rx sq (t, w) (?t, w)" by (simp add: cr_credit_update_rx)
    obtain r1 t1 w1 where p: "cr_repost_doorbell nic ?t w = (r1, t1, w1)" by (rule prod_cases3)
    note s1 = cr_repost_doorbell_rx [OF cr_rx_ready [OF rdy u] p]
    with cr_rx_trans [OF u] have s2: "cr_rx sq (t, w) (t1, w1)" by blast
    show ?thesis using recv p s1 s2 Cons.prems(2) cont [OF s2]
      by (cases r1) (auto simp: Let_def intro: cr_rx_disconnect)
  next
    case other
    with Cons.prems(2) cont [OF cr_rx_refl] show ?thesis by simp
  qed
qed

lemma drain_recv_credits_rx:
  assumes "cr_ready nic scq sq (t, w)" "src_on (cr_recv_src t) rcq" "rcq \<noteq> scq"
    and "drain_recv_credits nic t w = (r, t', w')"
  shows "r = Ok () \<and> cr_rx sq (t, w) (t', w')"
proof -
  obtain r1 w1 where p: "drain_once nic 8 (cr_recv_src t) w = (r1, w1)" by (rule prod.exhaust)
  have f: "fifo_contract nic (aq_qpn (cr_qp t)) scq (cr_sq_capacity t) sq"
    using assms(1) by (simp add: cr_ready_def)
  note d = drain_once_fifo [OF f assms(2,3) p]
  have s1: "cr_rx sq (t, w) (t, w1)" using d by (intro cr_rx_local) simp_all
  show ?thesis
  proof (cases r1)
    case (Ok wcs)
    with assms(4) p have "cr_drain_loop nic wcs t w1 = (r, t', w')" by (simp add: drain_recv_credits_def)
    from cr_drain_loop_rx [OF cr_rx_ready [OF assms(1) s1] this] cr_rx_trans [OF s1] show ?thesis by blast
  qed (use assms(4) p d s1 in \<open>auto simp: drain_recv_credits_def intro: cr_rx_disconnect\<close>)
qed

subsection \<open>Send completions free the oldest messages\<close>

text \<open>
  What reaping a batch does: \<open>k\<close> requests less in flight, and a ring that matches what the
  device still owns, unless a failed completion cut the batch short.
\<close>

definition cr_reaped :: "wc list \<Rightarrow> bool \<Rightarrow> credit_ring \<Rightarrow> credit_ring \<Rightarrow> bool" where
  "cr_reaped wcs ok t t' \<longleftrightarrow>
     (\<exists>ring pd k. t' = t\<lparr>cr_send_ring := ring, cr_peer_disconnected := pd,
                       cr_send_in_flight := cr_send_in_flight t - k\<rparr>
        \<and> k \<le> length wcs \<and> rb_mr ring = rb_mr (cr_send_ring t)
        \<and> rb_capacity ring = rb_capacity (cr_send_ring t)
        \<and> (cr_peer_disconnected t \<longrightarrow> pd)
        \<and> (\<forall>rest ms. ring_matches (cr_send_ring t) (map wr_id wcs @ rest) ms \<longrightarrow>
             \<not> ok \<and> pd \<or> (\<exists>ms'. ring_matches ring rest ms')))"

lemma cr_reapedE:
  assumes "cr_reaped wcs ok t t'"
  obtains ring pd k where "t' = t\<lparr>cr_send_ring := ring, cr_peer_disconnected := pd,
      cr_send_in_flight := cr_send_in_flight t - k\<rparr>" "k \<le> length wcs"
    "rb_mr ring = rb_mr (cr_send_ring t)" "rb_capacity ring = rb_capacity (cr_send_ring t)"
    "cr_peer_disconnected t \<longrightarrow> pd"
    "\<forall>rest ms. ring_matches (cr_send_ring t) (map wr_id wcs @ rest) ms \<longrightarrow>
       \<not> ok \<and> pd \<or> (\<exists>ms'. ring_matches ring rest ms')"
  using assms unfolding cr_reaped_def by blast

lemma process_send_completions_reaped:
  "process_send_completions wcs t = (r, t') \<Longrightarrow> r \<noteq> Panic \<and> cr_reaped wcs (is_Ok r) t t'"
proof (induction wcs arbitrary: t)
  case Nil
  then show ?case
    by (auto simp: cr_reaped_def intro!: exI [of _ "cr_send_ring t"] exI [of _ "cr_peer_disconnected t"]
        exI [of _ 0])
next
  case (Cons c cs)
  let ?r = "cr_send_ring t" and ?i = "wr_id c"
  show ?case
  proof (cases "is_success c")
    case False
    with Cons.prems show ?thesis
      by (auto simp: cr_reaped_def intro!: exI [of _ ?r] exI [of _ True] exI [of _ 0])
  next
    case True
    let ?ring = "if data_id ?i \<and> unat ?i > 0 \<and> unat ?i \<le> rb_capacity ?r then release (unat ?i) ?r else ?r"
    define t1 where "t1 = t\<lparr>cr_send_ring := ?ring, cr_send_in_flight := cr_send_in_flight t - 1\<rparr>"
    have pad: "data_id ?i \<Longrightarrow> ?i \<noteq> WR_ID_PADDING_SENTINEL" using data_id_padding by metis
    have "process_send_completions cs t1 = (r, t')"
      using Cons.prems True pad by (auto simp: t1_def Let_def credit_flag_bit split: if_splits)
    from Cons.IH [OF this] have ih: "r \<noteq> Panic" "cr_reaped cs (is_Ok r) t1 t'" by auto
    have m: "\<exists>ms'. ring_matches ?ring (map wr_id cs @ rest) ms'"
      if "ring_matches ?r (map wr_id (c # cs) @ rest) ms" for rest ms
    proof (cases "data_id ?i")
      case True
      with ring_matches_release [of ?r ?i "map wr_id cs @ rest" ms] that show ?thesis by auto
    next
      case False
      with ring_matches_skip [of ?r ?i "map wr_id cs @ rest" ms] that show ?thesis by auto
    qed
    have ring: "rb_mr ?ring = rb_mr ?r" "rb_capacity ?ring = rb_capacity ?r" by (simp_all add: release_def)
    from ih(2) obtain ring pd k where k: "t' = t1\<lparr>cr_send_ring := ring, cr_peer_disconnected := pd,
        cr_send_in_flight := cr_send_in_flight t1 - k\<rparr>" "k \<le> length cs"
      "rb_mr ring = rb_mr (cr_send_ring t1)" "rb_capacity ring = rb_capacity (cr_send_ring t1)"
      "cr_peer_disconnected t1 \<longrightarrow> pd"
      "\<forall>rest ms. ring_matches (cr_send_ring t1) (map wr_id cs @ rest) ms \<longrightarrow>
         \<not> is_Ok r \<and> pd \<or> (\<exists>ms'. ring_matches ring rest ms')" by (rule cr_reapedE)
    have "\<not> is_Ok r \<and> pd \<or> (\<exists>ms'. ring_matches ring rest ms')"
      if "ring_matches ?r (map wr_id (c # cs) @ rest) ms" for rest ms
      using m [OF that] k(6) by (auto simp: t1_def)
    with ih(1) k(1-5) ring show ?thesis
      unfolding cr_reaped_def by (auto simp: t1_def intro!: exI [of _ ring] exI [of _ pd] exI [of _ "Suc k"])
  qed
qed

subsection \<open>The invariant\<close>

text \<open>
  Beyond \<open>cr_ready\<close>: the two sources poll the two queues, and until the peer is marked
  disconnected the send ring holds exactly the data writes the device owns.
\<close>

definition cr_inv :: "'n nic \<Rightarrow> nat \<Rightarrow> nat \<Rightarrow> ('n \<Rightarrow> u64 list) \<Rightarrow> credit_ring \<times> 'n world \<Rightarrow> bool" where
  "cr_inv nic scq rcq sq s \<longleftrightarrow>
     cr_ready nic scq sq s \<and> scq \<noteq> rcq
     \<and> (case s of (t, w) \<Rightarrow>
          src_on (cr_send_src t) scq \<and> src_on (cr_recv_src t) rcq \<and> 0 < cr_remote_capacity t
          \<and> length (mr_bytes (rb_mr (cr_send_ring t))) = rb_capacity (cr_send_ring t)
          \<and> (cr_peer_disconnected t \<or> (\<exists>ms. ring_matches (cr_send_ring t) (sq (hw w)) ms)))"

lemma cr_invD:
  assumes "cr_inv nic scq rcq sq (t, w)"
  shows "cr_ready nic scq sq (t, w)" "scq \<noteq> rcq" "src_on (cr_send_src t) scq" "src_on (cr_recv_src t) rcq"
    "0 < cr_remote_capacity t" "length (mr_bytes (rb_mr (cr_send_ring t))) = rb_capacity (cr_send_ring t)"
    "cr_peer_disconnected t \<or> (\<exists>ms. ring_matches (cr_send_ring t) (sq (hw w)) ms)"
    "fifo_contract nic (aq_qpn (cr_qp t)) scq (cr_sq_capacity t) sq"
  using assms by (auto simp: cr_inv_def cr_ready_def)

text \<open>The bytes of every message under transmission are kept.\<close>

definition cr_keeps :: "('n \<Rightarrow> u64 list) \<Rightarrow> credit_ring \<times> 'n world \<Rightarrow> credit_ring \<Rightarrow> bool" where
  "cr_keeps sq s t' \<longleftrightarrow>
     (case s of (t, w) \<Rightarrow>
        \<forall>ms off pad len. ring_matches (cr_send_ring t) (sq (hw w)) ms \<and> \<not> cr_peer_disconnected t
          \<and> (off, pad, len) \<in> set ms \<longrightarrow>
          slice (mr_bytes (rb_mr (cr_send_ring t'))) off (off + len) =
          slice (mr_bytes (rb_mr (cr_send_ring t))) off (off + len))"

lemma cr_keeps_mr: "rb_mr (cr_send_ring t') = rb_mr (cr_send_ring t) \<Longrightarrow> cr_keeps sq (t, w) t'"
  by (simp add: cr_keeps_def)

lemma cr_rxD:
  assumes "cr_rx sq (t, w) (t', w')"
  shows "cr_send_ring t' = cr_send_ring t" "cr_qp t' = cr_qp t" "cr_sq_capacity t' = cr_sq_capacity t"
    "cr_send_src t' = cr_send_src t" "cr_recv_src t' = cr_recv_src t"
    "cr_max_outstanding t' = cr_max_outstanding t" "cr_config t' = cr_config t"
    "cr_remote_capacity t' = cr_remote_capacity t" "cr_recv_ring t' = cr_recv_ring t"
    "cr_peer_disconnected t \<Longrightarrow> cr_peer_disconnected t'"
    "ring_matches r (sq (hw w')) ms \<longleftrightarrow> ring_matches r (sq (hw w)) ms"
  using assms by (auto simp: cr_rx_def cr_fixed_def ring_matches_others)

lemma cr_rx_inv:
  assumes "cr_inv nic scq rcq sq (t, w)" "cr_rx sq (t, w) (t', w')"
  shows "cr_inv nic scq rcq sq (t', w')" "cr_keeps sq (t, w) t'"
  using assms cr_rx_ready [OF cr_invD(1) [OF assms(1)] assms(2)] cr_rxD [OF assms(2)]
  by (auto simp: cr_inv_def cr_keeps_mr)

text \<open>Reaping \<open>wcs\<close> from the front of the device's queue.\<close>

lemma cr_reaped_inv:
  assumes "cr_inv nic scq rcq sq (t, w)" "cr_reaped wcs ok t t'"
    and "sq (hw w) = map wr_id wcs @ sq (hw w')"
  shows "cr_inv nic scq rcq sq (t', w')" "cr_keeps sq (t, w) t'"
proof -
  from assms(2) obtain ring pd k where k: "t' = t\<lparr>cr_send_ring := ring, cr_peer_disconnected := pd,
      cr_send_in_flight := cr_send_in_flight t - k\<rparr>" "k \<le> length wcs"
    "rb_mr ring = rb_mr (cr_send_ring t)" "rb_capacity ring = rb_capacity (cr_send_ring t)"
    "cr_peer_disconnected t \<longrightarrow> pd"
    "\<forall>rest ms. ring_matches (cr_send_ring t) (map wr_id wcs @ rest) ms \<longrightarrow>
       \<not> ok \<and> pd \<or> (\<exists>ms'. ring_matches ring rest ms')" by (rule cr_reapedE)
  show "cr_keeps sq (t, w) t'" by (rule cr_keeps_mr) (simp add: k)
  have "pd \<or> (\<exists>ms. ring_matches ring (sq (hw w')) ms)"
    using cr_invD(7) [OF assms(1)] k(5,6) assms(3) by metis
  moreover have "length (sq (hw w)) \<le> cr_send_in_flight t" using cr_invD(1) [OF assms(1)]
    by (simp add: cr_ready_def)
  then have "length (sq (hw w')) \<le> cr_send_in_flight t - k" using k(2) assms(3) by simp
  ultimately show "cr_inv nic scq rcq sq (t', w')"
    using assms(1) k(3,4) by (auto simp: cr_inv_def cr_ready_def cr_rwf_def k(1))
qed

subsection \<open>Sending\<close>

text \<open>
  The padding write: either there is only one credit and the reservation is rolled back, or
  the marker is on its way (when there is padding) and a credit is left for the data.
\<close>

lemma cr_post_padding_cases:
  assumes rdy: "cr_ready nic scq sq (t, w)" "cr_send_in_flight t + 2 \<le> cr_sq_capacity t"
    and c: "0 < cr_remote_credits t"
    and res: "ring_wf (cr_send_ring t)" "reserve n (cr_send_ring t) = (Some (off, pad), ring)"
    and p: "cr_post_padding nic off pad (t\<lparr>cr_send_ring := ring\<rparr>) w = (r, t1, w1)"
  obtains (rollback) "r = Ok False" "t1 = t" "w1 = w" "0 < pad" "cr_remote_credits t < 2"
    | (post) k where "r = Ok True" "k = (if pad > 0 then 1 else 0)" "k < cr_remote_credits t"
        "t1 = t\<lparr>cr_send_ring := ring, cr_remote_credits := cr_remote_credits t - k,
               cr_send_in_flight := cr_send_in_flight t + k,
               cr_remote_write_tail := (if pad > 0 then 0 else cr_remote_write_tail t)\<rparr>"
        "sq (hw w1) = sq (hw w) @ replicate k WR_ID_PADDING_SENTINEL"
proof (cases "pad > 0")
  case False
  with p have "r = Ok True" "t1 = t\<lparr>cr_send_ring := ring\<rparr>" "w1 = w" by (auto simp: cr_post_padding_def)
  with False c show ?thesis by (intro post [of 0]) auto
next
  case True
  note rb = reserve_rollback [OF res True]
  show ?thesis
  proof (cases "cr_remote_credits t < 2")
    case low: True
    with p True have "r = Ok False" "t1 = t\<lparr>cr_send_ring := ring\<lparr>rb_tail := rb_capacity ring - pad\<rparr>\<rparr>" "w1 = w"
      by (auto simp: cr_post_padding_def rb(1))
    with low True rb(2) show ?thesis by (intro rollback) auto
  next
    case False
    let ?imm = "encode_ring_imm (cr_remote_write_tail t) 0"
    let ?wr = "wr_rdma (cr_remote_addr t + word_of_nat (cr_remote_write_tail t)) (cr_remote_rkey t)
      (wr_signaled (send_wr_new WR_ID_PADDING_SENTINEL (WrRdmaWriteWithImm ?imm)))"
    obtain r1 w2 where q: "post_send_wr nic (cr_qp t) ?wr w = (r1, w2)" by (rule prod.exhaust)
    have "r1 = Ok () \<and> sq (hw w2) = sq (hw w) @ [swr_id ?wr]"
      using rdy by (intro post_send_wr_fifo [OF _ _ q]) (auto simp: cr_ready_def)
    with p True False q show ?thesis by (intro post [of 1]) (auto simp: cr_post_padding_def Let_def)
  qed
qed

text \<open>The data write: it succeeds, and the reserved region holds the start of the message.\<close>

lemma cr_post_data_eq:
  assumes f: "fifo_contract nic (aq_qpn (cr_qp t)) scq (cr_sq_capacity t) sq"
    and room: "length (sq (hw w)) \<le> cr_send_in_flight t" "cr_send_in_flight t < cr_sq_capacity t"
    and c: "0 < cr_remote_credits t" "0 < cr_remote_capacity t"
    and b: "off + n \<le> length (mr_bytes (rb_mr (cr_send_ring t)))" "n \<le> sum_list (map length bufs)"
    and p: "cr_post_data nic bufs off pad n t w = (r, t', w')"
  shows "r = Ok n" "sq (hw w') = sq (hw w) @ [word_of_nat (pad + n)]"
    "t' = t\<lparr>cr_send_ring := (cr_send_ring t)\<lparr>rb_mr := (rb_mr (cr_send_ring t))\<lparr>mr_bytes :=
              upd_range (mr_bytes (rb_mr (cr_send_ring t))) off (take n (concat bufs))\<rparr>\<rparr>,
            cr_remote_write_tail := (cr_remote_write_tail t + n) mod cr_remote_capacity t,
            cr_remote_credits := cr_remote_credits t - 1,
            cr_send_in_flight := cr_send_in_flight t + 1\<rparr>"
proof -
  let ?m = "rb_mr (cr_send_ring t)"
  let ?m1 = "?m\<lparr>mr_bytes := upd_range (mr_bytes ?m) off (take n (concat bufs))\<rparr>"
  let ?wr = "wr_rdma (cr_remote_addr t + word_of_nat (cr_remote_write_tail t)) (cr_remote_rkey t)
      (wr_sg \<lparr>sge_addr = mr_addr ?m1 + word_of_nat off, sge_length = word_of_nat n, sge_lkey = mr_lkey ?m1\<rparr>
        (wr_signaled (send_wr_new (word_of_nat (pad + n))
          (WrRdmaWriteWithImm (encode_ring_imm (cr_remote_write_tail t) n)))))"
  have len: "n \<le> length (concat bufs)" using b(2) by (simp add: length_concat)
  have g: "gather_into (slice (mr_bytes ?m) off (off + n)) bufs = (n, take n (concat bufs))"
    using gather_into_eq [of "slice (mr_bytes ?m) off (off + n)" bufs] b(1) len by simp
  obtain r1 w1 where q: "post_send_wr nic (cr_qp t) ?wr w = (r1, w1)" by (rule prod.exhaust)
  have s: "r1 = Ok () \<and> sq (hw w1) = sq (hw w) @ [swr_id ?wr]"
    using room f by (intro post_send_wr_fifo [OF f _ q]) simp
  show "r = Ok n" "sq (hw w') = sq (hw w) @ [word_of_nat (pad + n)]"
    "t' = t\<lparr>cr_send_ring := (cr_send_ring t)\<lparr>rb_mr := ?m1\<rparr>,
            cr_remote_write_tail := (cr_remote_write_tail t + n) mod cr_remote_capacity t,
            cr_remote_credits := cr_remote_credits t - 1,
            cr_send_in_flight := cr_send_in_flight t + 1\<rparr>"
    using p s q c b(1) room(2) g by (auto simp: cr_post_data_def Let_def)
qed

text \<open>
  What an accepted send did: \<open>n\<close> bytes of the message copied into the region \<open>off\<close> of the
  ring, the padding marker (if the ring wrapped) and the data write appended to the device's
  queue, one credit spent for each.
\<close>

definition cr_accepted ::
    "('n \<Rightarrow> u64 list) \<Rightarrow> bytes list \<Rightarrow> nat \<Rightarrow> credit_ring \<times> 'n world \<Rightarrow> credit_ring \<times> 'n world \<Rightarrow> bool" where
  "cr_accepted sq bufs n s s' \<longleftrightarrow>
     (case (s, s') of ((t, w), (t', w')) \<Rightarrow>
        \<exists>off pad k. k = (if pad > 0 then 1 else 0) \<and> off + n \<le> rb_capacity (cr_send_ring t)
          \<and> slice (mr_bytes (rb_mr (cr_send_ring t'))) off (off + n) = take n (concat bufs)
          \<and> sq (hw w') = sq (hw w) @ replicate k WR_ID_PADDING_SENTINEL @ [word_of_nat (pad + n)]
          \<and> cr_remote_credits t = cr_remote_credits t' + k + 1
          \<and> cr_send_in_flight t' = cr_send_in_flight t + k + 1
          \<and> cr_remote_write_tail t' =
              ((if pad > 0 then 0 else cr_remote_write_tail t) + n) mod cr_remote_capacity t)"

lemma cr_send_reserved:
  assumes inv: "cr_inv nic scq rcq sq (t, w)" and m: "ring_matches (cr_send_ring t) (sq (hw w)) ms"
    and room: "cr_send_in_flight t + 2 \<le> cr_sq_capacity t" and c: "0 < cr_remote_credits t"
    and res: "reserve n (cr_send_ring t) = (Some (off, pad), ring)"
    and n: "n \<le> sum_list (map length bufs)"
    and p: "cr_post_padding nic off pad (t\<lparr>cr_send_ring := ring\<rparr>) w = (Ok True, t1, w1)"
    and d: "cr_post_data nic bufs off pad n t1 w1 = (r, t', w')"
  shows "r = Ok n" "cr_inv nic scq rcq sq (t', w')" "cr_accepted sq bufs n (t, w) (t', w')"
    "\<And>ms o' p' l'. ring_matches (cr_send_ring t) (sq (hw w)) ms \<Longrightarrow> (o', p', l') \<in> set ms \<Longrightarrow>
       slice (mr_bytes (rb_mr (cr_send_ring t'))) o' (o' + l') =
       slice (mr_bytes (rb_mr (cr_send_ring t))) o' (o' + l')"
proof -
  let ?m = "rb_mr (cr_send_ring t)"
  have wf: "ring_wf (cr_send_ring t)" using m by (simp add: ring_matches_def ring_holds_def)
  have ring: "rb_capacity ring = rb_capacity (cr_send_ring t)" "rb_mr ring = ?m"
    using reserve_frame [OF res] by auto
  have b: "off + n \<le> rb_capacity (cr_send_ring t)" using reserve_bounds(3) [OF wf res] by simp
  note I = cr_invD [OF inv]
  have fl: "length (sq (hw w)) \<le> cr_send_in_flight t" using I(1) by (simp add: cr_ready_def)
  from cr_post_padding_cases [OF I(1) room c wf res p] obtain k where
    k: "k = (if pad > 0 then 1 else 0)" "k < cr_remote_credits t"
    and t1: "t1 = t\<lparr>cr_send_ring := ring, cr_remote_credits := cr_remote_credits t - k,
               cr_send_in_flight := cr_send_in_flight t + k,
               cr_remote_write_tail := (if pad > 0 then 0 else cr_remote_write_tail t)\<rparr>"
    and s1: "sq (hw w1) = sq (hw w) @ replicate k WR_ID_PADDING_SENTINEL" by auto
  have k1: "k \<le> 1" using k(1) by simp
  have bt: "off + n \<le> length (mr_bytes (rb_mr (cr_send_ring t1)))" using b I(6) ring by (simp add: t1)
  note data = cr_post_data_eq [OF _ _ _ _ _ bt n d, of scq sq]
  have D: "r = Ok n" "sq (hw w') = sq (hw w1) @ [word_of_nat (pad + n)]"
    "t' = t1\<lparr>cr_send_ring := (cr_send_ring t1)\<lparr>rb_mr := (rb_mr (cr_send_ring t1))\<lparr>mr_bytes :=
              upd_range (mr_bytes (rb_mr (cr_send_ring t1))) off (take n (concat bufs))\<rparr>\<rparr>,
            cr_remote_write_tail := (cr_remote_write_tail t1 + n) mod cr_remote_capacity t1,
            cr_remote_credits := cr_remote_credits t1 - 1,
            cr_send_in_flight := cr_send_in_flight t1 + 1\<rparr>"
    using data I(5,8) fl k k1 room s1 by (auto simp: t1)
  show "r = Ok n" by (rule D(1))
  have len: "length (take n (concat bufs)) = n" using n by (simp add: length_concat)
  have "ring_matches (cr_send_ring t) (sq (hw w) @ replicate k WR_ID_PADDING_SENTINEL) ms"
    using m data_id_padding by (simp add: ring_matches_others)
  from ring_matches_post [OF this res] have m': "\<exists>ms'. ring_matches (cr_send_ring t') (sq (hw w')) ms'"
    using D(2) s1 by (auto simp: D(3) t1)
  show "cr_inv nic scq rcq sq (t', w')"
    using inv D(2) s1 m' b len room k1 fl ring I(6)
    by (auto simp: cr_inv_def cr_ready_def cr_rwf_def D(3) t1)
  have "slice (upd_range (mr_bytes ?m) off (take n (concat bufs))) off (off + n) = take n (concat bufs)"
    using slice_upd_range_same [of off "take n (concat bufs)" "mr_bytes ?m"] len b I(6) by simp
  then show "cr_accepted sq bufs n (t, w) (t', w')"
    using D(2) s1 k b ring by (auto simp: cr_accepted_def D(3) t1)
  fix ms o' p' l' assume "ring_matches (cr_send_ring t) (sq (hw w)) ms" "(o', p', l') \<in> set ms"
  from fresh_write_keeps [OF this(1) res I(6) len this(2)] ring
  show "slice (mr_bytes (rb_mr (cr_send_ring t'))) o' (o' + l') =
      slice (mr_bytes (rb_mr (cr_send_ring t))) o' (o' + l')"
    by (simp add: D(3) t1)
qed

lemma cr_send_with_credits_cases:
  assumes inv: "cr_inv nic scq rcq sq (t, w)" and m: "ring_matches (cr_send_ring t) (sq (hw w)) ms"
    and p: "cr_send_with_credits nic bufs (sum_list (map length bufs)) t w = (r, t', w')"
  obtains (no_room) "r = Ok 0" "t' = t" "w' = w"
    | (sent) n where "r = Ok n" "0 < n"
        "n = min (min (min (sum_list (map length bufs)) (cc_max_message_size (cr_config t)))
               (cr_remote_capacity t)) 0xFFFF"
        "cr_accepted sq bufs n (t, w) (t', w')" "cr_inv nic scq rcq sq (t', w')"
        "\<forall>ms o' p' l'. ring_matches (cr_send_ring t) (sq (hw w)) ms \<and> (o', p', l') \<in> set ms \<longrightarrow>
           slice (mr_bytes (rb_mr (cr_send_ring t'))) o' (o' + l') =
           slice (mr_bytes (rb_mr (cr_send_ring t))) o' (o' + l')"
proof -
  let ?tot = "sum_list (map length bufs)"
  let ?n = "min (min (min ?tot (cc_max_message_size (cr_config t))) (cr_remote_capacity t)) 0xFFFF"
  show ?thesis
  proof (cases "cr_remote_credits t = 0 \<or> cr_send_in_flight t + 2 > cr_sq_capacity t
      \<or> fst (reserve ?n (cr_send_ring t)) = None")
    case True
    with p have "r = Ok 0" "t' = t" "w' = w"
      by (auto simp: cr_send_with_credits_def Let_def split: if_splits prod.splits option.splits)
    then show ?thesis by (rule no_room)
  next
    case False
    then obtain off pad ring where res: "reserve ?n (cr_send_ring t) = (Some (off, pad), ring)"
      and c: "0 < cr_remote_credits t" "cr_send_in_flight t + 2 \<le> cr_sq_capacity t"
      by (cases "reserve ?n (cr_send_ring t)") auto
    obtain r2 t2 w2 where q: "cr_post_padding nic off pad (t\<lparr>cr_send_ring := ring\<rparr>) w = (r2, t2, w2)"
      by (rule prod_cases3)
    have p1: "and_then (r2, t2, w2) (\<lambda>go (t1, w). if go then cr_post_data nic bufs off pad ?n t1 w
        else (Ok 0, t1, w)) = (r, t', w')"
      using p False res q by (simp add: cr_send_with_credits_def Let_def)
    have wf: "ring_wf (cr_send_ring t)" using m by (simp add: ring_matches_def ring_holds_def)
    from cr_post_padding_cases [OF cr_invD(1) [OF inv] c(2,1) wf res q]
    consider "r2 = Ok False" "t2 = t" "w2 = w" | "r2 = Ok True" by blast
    then show ?thesis
    proof cases
      case 1
      with p1 have "r = Ok 0" "t' = t" "w' = w" by simp_all
      then show ?thesis by (rule no_room)
    next
      case 2
      with p1 have pd: "cr_post_data nic bufs off pad ?n t2 w2 = (r, t', w')" by simp
      have n: "?n \<le> ?tot" "0 < ?n" using res by (auto simp: reserve_def split: if_splits)
      note S = cr_send_reserved [OF inv m c(2,1) res n(1) q [unfolded 2] pd]
      show ?thesis by (rule sent [OF S(1) n(2) refl S(3,2)]) (use S(4) in blast)
    qed
  qed
qed

lemma cr_send_gather_cases:
  assumes inv: "cr_inv nic scq rcq sq (t, w)" and p: "cr_send_gather nic bufs t w = (r, t', w')"
  obtains (gone) "cr_peer_disconnected t" "r = Err (WorkCompletionErr 5 0)" "t' = t" "w' = w"
    | (no_room) "\<not> cr_peer_disconnected t" "r = Ok 0" "cr_rx sq (t, w) (t', w')"
    | (sent) n t1 w1 where "\<not> cr_peer_disconnected t" "r = Ok n" "0 < n"
        "n = min (min (min (sum_list (map length bufs)) (cc_max_message_size (cr_config t)))
               (cr_remote_capacity t)) 0xFFFF"
        "cr_rx sq (t, w) (t1, w1)"
        "if 0 < cr_remote_credits t then (t1, w1) = (t, w) else drain_recv_credits nic t w = (Ok (), t1, w1)"
        "cr_accepted sq bufs n (t1, w1) (t', w')" "cr_inv nic scq rcq sq (t', w')" "cr_keeps sq (t, w) t'"
proof (cases "cr_peer_disconnected t")
  case True
  with p have "r = Err (WorkCompletionErr 5 0)" "t' = t" "w' = w" by (simp_all add: cr_send_gather_def)
  with True show ?thesis by (rule gone)
next
  case pd: False
  let ?tot = "sum_list (map length bufs)"
  note I = cr_invD [OF inv]
  from I(7) pd obtain ms where m: "ring_matches (cr_send_ring t) (sq (hw w)) ms" by blast
  show ?thesis
  proof (cases "?tot = 0")
    case True
    with p pd have "r = Ok 0" "t' = t" "w' = w" by (simp_all add: cr_send_gather_def)
    with pd show ?thesis by (intro no_room) simp_all
  next
    case tot: False
    obtain r1 t1 w1 where d: "(if cr_remote_credits t = 0 then drain_recv_credits nic t w
        else (Ok (), t, w)) = (r1, t1, w1)" by (rule prod_cases3)
    have x: "r1 = Ok ()" "cr_rx sq (t, w) (t1, w1)"
      using d drain_recv_credits_rx [OF I(1,4) not_sym [OF I(2)]] by (auto split: if_splits)
    note R = cr_rxD [OF x(2)]
    have p1: "cr_send_with_credits nic bufs ?tot t1 w1 = (r, t', w')"
      using p unfolding cr_send_gather_def Let_def if_not_P [OF pd] if_not_P [OF tot] d x(1)
        and_then_simps prod.case .
    have m1: "ring_matches (cr_send_ring t1) (sq (hw w1)) ms" using m R by simp
    have drained: "if 0 < cr_remote_credits t then (t1, w1) = (t, w)
        else drain_recv_credits nic t w = (Ok (), t1, w1)" using d x(1) by auto
    show ?thesis
    proof (rule cr_send_with_credits_cases [OF cr_rx_inv(1) [OF inv x(2)] m1 p1])
      assume "r = Ok 0" "t' = t1" "w' = w1"
      with no_room pd x(2) show ?thesis by blast
    next
      fix n
      assume S: "r = Ok n" "0 < n" "n = min (min (min ?tot (cc_max_message_size (cr_config t1))) (cr_remote_capacity t1)) 0xFFFF"
        "cr_accepted sq bufs n (t1, w1) (t', w')" "cr_inv nic scq rcq sq (t', w')"
        "\<forall>ms o' p' l'. ring_matches (cr_send_ring t1) (sq (hw w1)) ms \<and> (o', p', l') \<in> set ms \<longrightarrow>
           slice (mr_bytes (rb_mr (cr_send_ring t'))) o' (o' + l') =
           slice (mr_bytes (rb_mr (cr_send_ring t1))) o' (o' + l')"
      have "cr_keeps sq (t, w) t'" using S(6) R by (auto simp: cr_keeps_def)
      with sent [OF pd S(1,2) S(3) [unfolded R(7,8)] x(2) drained S(4,5)] show ?thesis by blast
    qed
  qed
qed

subsection \<open>Every method keeps the invariant\<close>

text \<open>
  The loop that reaps send completions returns: every batch shortens the device's queue.
\<close>

lemma drain_send_body_inv:
  assumes "cr_inv nic scq rcq sq (t, w)" "drain_send_body nic (t, w) = Some x"
  shows "case x of
      Inl (t', w') \<Rightarrow> cr_inv nic scq rcq sq (t', w') \<and> rb_mr (cr_send_ring t') = rb_mr (cr_send_ring t)
        \<and> length (sq (hw w')) < length (sq (hw w)) \<and> cr_recv_src t' = cr_recv_src t
    | Inr (r, t', w') \<Rightarrow> r \<noteq> Panic \<and> cr_inv nic scq rcq sq (t', w')
        \<and> rb_mr (cr_send_ring t') = rb_mr (cr_send_ring t)"
proof -
  note I = cr_invD [OF assms(1)]
  obtain r1 w1 where d: "try_drain nic 8 (cr_send_src t) w = (r1, w1)" by (rule prod.exhaust)
  note f = try_drain_fifo [OF I(8,3) d]
  show ?thesis
  proof (cases r1)
    case (Ok wcs)
    obtain r2 t2 where p: "process_send_completions wcs t = (r2, t2)" by (rule prod.exhaust)
    from process_send_completions_reaped [OF this]
    have r2: "r2 \<noteq> Panic" "cr_reaped wcs (is_Ok r2) t t2" by auto
    have s: "sq (hw w) = map wr_id wcs @ sq (hw w1)" using f(2) Ok by simp
    note J = cr_reaped_inv(1) [OF assms(1) r2(2) s]
    have mr: "rb_mr (cr_send_ring t2) = rb_mr (cr_send_ring t)" "cr_recv_src t2 = cr_recv_src t"
      using r2(2) by (auto elim!: cr_reapedE)
    show ?thesis
    proof (cases "wcs = []")
      case True
      with s have "cr_inv nic scq rcq sq (t, w1)" using assms(1) by (simp add: cr_inv_def cr_ready_def)
      with assms(2) d Ok True show ?thesis by (auto simp: drain_send_body_def)
    next
      case False
      with assms(2) d Ok p r2(1) J mr s show ?thesis
        by (cases r2) (auto simp: drain_send_body_def)
    qed
  next
    case (Err e)
    with f have "cr_inv nic scq rcq sq (t, w1)" using assms(1) by (simp add: cr_inv_def cr_ready_def)
    with assms(2) d Err show ?thesis by (auto simp: drain_send_body_def)
  qed (use f in simp)
qed

lemma drain_send_cq_inv:
  assumes "cr_inv nic scq rcq sq (t, w)" "drain_send_cq nic t w = Some (r, t', w')"
  shows "r \<noteq> Panic \<and> cr_inv nic scq rcq sq (t', w') \<and> rb_mr (cr_send_ring t') = rb_mr (cr_send_ring t)"
proof -
  let ?P = "\<lambda>(t1, w1). cr_inv nic scq rcq sq (t1, w1) \<and> rb_mr (cr_send_ring t1) = rb_mr (cr_send_ring t)"
  let ?Q = "\<lambda>(r1 :: unit res, t1, w1). r1 \<noteq> Panic \<and> cr_inv nic scq rcq sq (t1, w1)
      \<and> rb_mr (cr_send_ring t1) = rb_mr (cr_send_ring t)"
  have "?Q (r, t', w')"
  proof (rule loop_inv [where P = ?P and Q = ?Q])
    show "loop (drain_send_body nic) (t, w) = Some (r, t', w')" using assms(2) by (simp add: drain_send_cq_def)
  next
    fix s s' assume "?P s" "drain_send_body nic s = Some (Inl s')"
    then show "?P s'" by (cases s; cases s') (auto dest: drain_send_body_inv)
  next
    fix s q assume "?P s" "drain_send_body nic s = Some (Inr q)"
    then show "?Q q" by (cases s; cases q) (auto dest: drain_send_body_inv)
  qed (use assms(1) in simp)
  then show ?thesis by simp
qed

lemma drain_send_cq_returns:
  assumes "cr_inv nic scq rcq sq (t, w)"
  shows "\<exists>r. drain_send_cq nic t w = Some r"
  unfolding drain_send_cq_def
proof (rule loop_returns [where P = "cr_inv nic scq rcq sq" and m = "\<lambda>(t, w). length (sq (hw w))"])
  fix s assume P: "cr_inv nic scq rcq sq s"
  obtain t w where s: "s = (t, w)" by (rule prod.exhaust)
  obtain x where x: "drain_send_body nic (t, w) = Some x" by (simp add: drain_send_body_def)
  from drain_send_body_inv [OF P [unfolded s] x] x
  show "\<exists>x. drain_send_body nic s = Some x \<and> (\<forall>s'. x = Inl s' \<longrightarrow>
      cr_inv nic scq rcq sq s' \<and> (case s' of (t, w) \<Rightarrow> length (sq (hw w))) < (case s of (t, w) \<Rightarrow> length (sq (hw w))))"
    by (auto simp: s)
qed (rule assms)

lemma cr_inv_src:
  "cr_inv nic scq rcq sq (t, w) \<Longrightarrow> src_on src scq \<Longrightarrow> cr_inv nic scq rcq sq (t\<lparr>cr_send_src := src\<rparr>, w)"
  "cr_inv nic scq rcq sq (t, w) \<Longrightarrow> src_on src rcq \<Longrightarrow> cr_inv nic scq rcq sq (t\<lparr>cr_recv_src := src\<rparr>, w)"
  by (simp_all add: cr_inv_def cr_ready_def cr_rwf_def)

lemma cr_inv_sq:
  "cr_inv nic scq rcq sq (t, w) \<Longrightarrow> sq (hw w') = sq (hw w) \<Longrightarrow> cr_inv nic scq rcq sq (t, w')"
  by (simp add: cr_inv_def cr_ready_def)

text \<open>Flushing credits after the completions of a batch, as both poll methods do.\<close>

lemma flush_credits_inv:
  assumes "cr_inv nic scq rcq sq (t, w)" "flush_credits nic t w = (r, t', w')"
  shows "r = Ok ()" "cr_inv nic scq rcq sq (t', w')" "cr_send_ring t' = cr_send_ring t"
    "cr_recv_src t' = cr_recv_src t"
proof -
  have x: "r = Ok ()" "cr_rx sq (t, w) (t', w')" using flush_credits_rx [OF cr_invD(1) [OF assms(1)] assms(2)] by auto
  show "r = Ok ()" "cr_inv nic scq rcq sq (t', w')" "cr_send_ring t' = cr_send_ring t" "cr_recv_src t' = cr_recv_src t"
    using x cr_rx_inv(1) [OF assms(1) x(2)] cr_rxD [OF x(2)] by auto
qed

lemma cr_poll_send_completion_inv:
  assumes inv: "cr_inv nic scq rcq sq (t, w)"
    and p: "cr_poll_send_completion nic task t w = Some (res, t', w')"
  shows "res \<noteq> Ready Panic \<and> cr_inv nic scq rcq sq (t', w') \<and> rb_mr (cr_send_ring t') = rb_mr (cr_send_ring t)"
proof -
  note I = cr_invD [OF inv]
  from p obtain q src w1 where pc: "poll_completions nic task 8 (cr_send_src t) w = Some (q, src, w1)"
    by (auto simp: cr_poll_send_completion_def split: option.splits)
  note f = poll_completions_fifo [OF I(8,3) pc]
  let ?t = "t\<lparr>cr_send_src := src\<rparr>"
  note inv1 = cr_inv_src(1) [OF inv f(2)]
  show ?thesis
  proof (cases "\<exists>wcs. q = Ready (Ok wcs)")
    case False
    then have "reaped q = []" by (auto simp: reaped_def split: poll.splits outcome.splits)
    with f(3) have "sq (hw w1) = sq (hw w)" by simp
    with cr_inv_sq [OF inv1, of w1] False f(1) p pc show ?thesis
      by (auto simp: cr_poll_send_completion_def Let_def split: poll.splits outcome.splits)
  next
    case True
    then obtain wcs where wcs: "q = Ready (Ok wcs)" by blast
    obtain r2 t2 where ps: "process_send_completions wcs ?t = (r2, t2)" by (rule prod.exhaust)
    from process_send_completions_reaped [OF ps]
    have r2: "r2 \<noteq> Panic" "cr_reaped wcs (is_Ok r2) ?t t2" by auto
    have s: "sq (hw w) = map wr_id wcs @ sq (hw w1)" using f(3) wcs by simp
    note J = cr_reaped_inv(1) [OF inv1 r2(2) s]
    have mr: "rb_mr (cr_send_ring t2) = rb_mr (cr_send_ring t)" using r2(2) by (auto elim!: cr_reapedE)
    obtain r3 t3 w3 where fl: "flush_credits nic t2 w1 = (r3, t3, w3)" by (rule prod_cases3)
    note F = flush_credits_inv [OF J fl]
    show ?thesis using p pc wcs ps r2(1) J mr fl F
      by (cases r2) (auto simp: cr_poll_send_completion_def)
  qed
qed

lemma cr_poll_recv_body_inv:
  assumes inv: "cr_inv nic scq rcq sq (t, w)"
    and p: "cr_poll_recv_body nic task room (out, t, w) = Some x"
  shows "case x of
      Inl (out', t', w') \<Rightarrow> cr_inv nic scq rcq sq (t', w') \<and> cr_send_ring t' = cr_send_ring t
    | Inr (res, t', w') \<Rightarrow> res \<noteq> Ready Panic \<and> cr_inv nic scq rcq sq (t', w')
        \<and> cr_send_ring t' = cr_send_ring t"
proof -
  note I = cr_invD [OF inv]
  from p obtain q src w1 where pc: "poll_completions nic task 8 (cr_recv_src t) w = Some (q, src, w1)"
    by (auto simp: cr_poll_recv_body_def split: option.splits)
  note f = poll_completions_fifo [OF I(8,4) pc]
  have inv1: "cr_inv nic scq rcq sq (t\<lparr>cr_recv_src := src\<rparr>, w1)"
    using cr_inv_sq [OF cr_inv_src(2) [OF inv f(2)]] f(4) I(2) by simp
  show ?thesis
  proof (cases "\<exists>wcs. q = Ready (Ok wcs)")
    case False
    with inv1 f(1) p pc show ?thesis
      by (auto simp: cr_poll_recv_body_def Let_def split: poll.splits outcome.splits)
  next
    case True
    then obtain wcs where wcs: "q = Ready (Ok wcs)" by blast
    obtain r2 t2 w2 where l: "cr_recv_loop nic room wcs out False False (t\<lparr>cr_recv_src := src\<rparr>) w1 = (r2, t2, w2)"
      by (rule prod_cases3)
    from cr_recv_loop_rx [OF cr_invD(1) [OF inv1] l]
    have r2: "r2 \<noteq> Panic" "cr_rx sq (t\<lparr>cr_recv_src := src\<rparr>, w1) (t2, w2)" by auto
    from cr_rx_inv(1) [OF inv1 r2(2)] cr_rxD(1) [OF r2(2)] r2(1) p pc wcs l show ?thesis
      by (cases r2) (auto simp: cr_poll_recv_body_def split: if_splits)
  qed
qed

lemma cr_poll_recv_loop_inv:
  assumes inv: "cr_inv nic scq rcq sq (t, w)"
    and l: "loop (cr_poll_recv_body nic task room) (out, t, w) = Some (res, t', w')"
  shows "res \<noteq> Ready Panic \<and> cr_inv nic scq rcq sq (t', w') \<and> cr_send_ring t' = cr_send_ring t"
proof -
  let ?P = "\<lambda>(out1 :: recv_completion list, t1, w1). cr_inv nic scq rcq sq (t1, w1) \<and> cr_send_ring t1 = cr_send_ring t"
  let ?Q = "\<lambda>(res1 :: recv_completion list res poll, t1, w1). res1 \<noteq> Ready Panic
      \<and> cr_inv nic scq rcq sq (t1, w1) \<and> cr_send_ring t1 = cr_send_ring t"
  have "?Q (res, t', w')"
  proof (rule loop_inv [OF l, where P = ?P and Q = ?Q])
    fix s s' assume "?P s" "cr_poll_recv_body nic task room s = Some (Inl s')"
    then show "?P s'" by (cases s; cases s') (auto dest: cr_poll_recv_body_inv)
  next
    fix s q assume "?P s" "cr_poll_recv_body nic task room s = Some (Inr q)"
    then show "?Q q" by (cases s; cases q) (auto dest: cr_poll_recv_body_inv)
  qed (use inv in simp)
  then show ?thesis by simp
qed

lemma cr_poll_recv_inv:
  assumes inv: "cr_inv nic scq rcq sq (t, w)" and p: "cr_poll_recv nic task room t w = Some (res, t', w')"
  shows "res \<noteq> Ready Panic \<and> cr_inv nic scq rcq sq (t', w') \<and> rb_mr (cr_send_ring t') = rb_mr (cr_send_ring t)"
proof -
  let ?t = "t\<lparr>cr_recv_stash := drop room (cr_recv_stash t)\<rparr>" and ?out = "take room (cr_recv_stash t)"
  have x: "cr_rx sq (t, w) (?t, w)" by (rule cr_rx_local) (simp_all add: cr_fixed_def cr_rwf_def)
  note inv1 = cr_rx_inv(1) [OF inv x]
  show ?thesis
  proof (cases "length ?out \<ge> room")
    case True
    with p inv1 show ?thesis by (auto simp: cr_poll_recv_def Let_def)
  next
    case False
    obtain r1 t1 w1 where d: "drain_send_cq nic ?t w = Some (r1, t1, w1)"
      using drain_send_cq_returns [OF inv1] by (metis prod_cases3)
    note D = drain_send_cq_inv [OF inv1 d]
    have pd: "cr_inv nic scq rcq sq (t1\<lparr>cr_peer_disconnected := True\<rparr>, w1)"
      using D cr_rx_inv(1) cr_rx_disconnect [OF cr_rx_refl] by blast
    obtain r2 t2 w2 where fl: "flush_credits nic t1 w1 = (r2, t2, w2)" by (rule prod_cases3)
    note F = flush_credits_inv [OF conjunct1 [OF conjunct2 [OF D]] fl]
    show ?thesis
    proof (cases r1)
      case (Ok u)
      with p d fl F(1) False have "loop (cr_poll_recv_body nic task room) (?out, t2, w2) = Some (res, t', w')"
        by (simp add: cr_poll_recv_def Let_def)
      from cr_poll_recv_loop_inv [OF F(2) this] F(3) D show ?thesis by simp
    qed (use p d D pd False in \<open>auto simp: cr_poll_recv_def Let_def\<close>)
  qed
qed

lemma cr_repost_recv_inv:
  assumes inv: "cr_inv nic scq rcq sq (t, w)" and p: "cr_repost_recv nic i t w = (r, t', w')"
  shows "cr_inv nic scq rcq sq (t', w') \<and> cr_send_ring t' = cr_send_ring t
    \<and> (i < length (cr_virtual_idx_map t) \<and> cr_virtual_idx_map t ! i \<noteq> None \<longrightarrow> r \<noteq> Panic)"
proof (cases "i < length (cr_virtual_idx_map t) \<and> cr_virtual_idx_map t ! i \<noteq> None")
  case False
  then consider "length (cr_virtual_idx_map t) \<le> i" | "cr_virtual_idx_map t ! i = None" by linarith
  then have "t' = t" "w' = w" using p by (cases; auto simp: cr_repost_recv_def split: if_splits)+
  with False inv show ?thesis by blast
next
  case True
  then obtain off len n where v: "cr_virtual_idx_map t ! i = Some (off, len, n)" by auto
  let ?t = "t\<lparr>cr_virtual_idx_map := (cr_virtual_idx_map t)[i := None]\<rparr>"
  have x: "cr_rx sq (t, w) (?t, w)" by (rule cr_rx_local) (simp_all add: cr_fixed_def cr_rwf_def)
  note rdy = cr_rx_ready [OF cr_invD(1) [OF inv] x]
  obtain r1 t1 w1 where d: "cr_repost_doorbell nic ?t w = (r1, t1, w1)" by (rule prod_cases3)
  from cr_repost_doorbell_rx [OF rdy d] have y: "r1 \<noteq> Panic" "cr_rx sq (t, w) (t1, w1)"
    using cr_rx_trans [OF x] by auto
  obtain r2 t2 w2 where rl: "cr_release_seq nic n t1 w1 = (r2, t2, w2)" by (rule prod_cases3)
  from cr_release_seq_rx [OF cr_rx_ready [OF cr_invD(1) [OF inv] y(2)] rl]
  have z: "r2 = Ok ()" "cr_rx sq (t, w) (t2, w2)" using cr_rx_trans [OF y(2)] by auto
  have "(r, t', w') = (if is_Ok r1 then (r2, t2, w2) else (r1, t1, w1))"
    using p True v d rl by (cases r1) (auto simp: cr_repost_recv_def)
  with y z cr_rx_inv(1) [OF inv y(2)] cr_rx_inv(1) [OF inv z(2)] cr_rxD(1) [OF y(2)] cr_rxD(1) [OF z(2)]
  show ?thesis by (auto split: if_splits)
qed

lemma cr_disconnects_inv:
  assumes "cr_inv nic scq rcq sq (t, w)"
  shows "cr_poll_disconnect nic t w = Some (b, t', w') \<Longrightarrow>
      cr_inv nic scq rcq sq (t', w') \<and> cr_send_ring t' = cr_send_ring t"
    and "cr_disconnect nic t w = (r, t', w') \<Longrightarrow>
      cr_inv nic scq rcq sq (t', w') \<and> cr_send_ring t' = cr_send_ring t"
proof -
  note q = fifo_quiet [OF cr_invD(8) [OF assms]]
  {
    assume "cr_poll_disconnect nic t w = Some (b, t', w')"
    then obtain pd where p: "poll_cm_disconnect nic (cr_event_channel t) (cr_peer_disconnected t) w = Some (b, pd, w')"
      "t' = t\<lparr>cr_peer_disconnected := pd\<rparr>" by (auto simp: cr_poll_disconnect_def)
    have "cr_peer_disconnected t \<Longrightarrow> pd" using p(1) by (auto simp: poll_cm_disconnect_def)
    with poll_cm_disconnect_out [OF q p(1)] have "cr_rx sq (t, w) (t', w')"
      by (intro cr_rx_local) (auto simp: p(2) cr_fixed_def cr_rwf_def)
    from cr_rx_inv(1) [OF assms this] cr_rxD(1) [OF this]
    show "cr_inv nic scq rcq sq (t', w') \<and> cr_send_ring t' = cr_send_ring t" by simp
  next
    assume d: "cr_disconnect nic t w = (r, t', w')"
    obtain r1 w1 where c: "cm_disconnect nic (cr_cm_id t) w = (r1, w1)" by (rule prod.exhaust)
    from d c have "(w' = w1 \<or> w' = w) \<and> (t' = t \<or> t' = t\<lparr>cr_disconnected := True\<rparr>)"
      by (auto simp: cr_disconnect_def split: if_splits outcome.splits)
    with cm_disconnect_out [OF q c] have "cr_rx sq (t, w) (t', w')"
      by (intro cr_rx_local) (auto simp: cr_fixed_def cr_rwf_def)
    from cr_rx_inv(1) [OF assms this] cr_rxD(1) [OF this]
    show "cr_inv nic scq rcq sq (t', w') \<and> cr_send_ring t' = cr_send_ring t" by simp
  }
qed

subsection \<open>The transport's methods as steps\<close>

inductive cr_step :: "'n nic \<Rightarrow> credit_ring \<times> 'n world \<Rightarrow> credit_ring \<times> 'n world \<Rightarrow> bool" for nic where
  send_copy: "cr_send_copy nic data t w = (r, t', w') \<Longrightarrow> cr_step nic (t, w) (t', w')"
| send_gather: "cr_send_gather nic bufs t w = (r, t', w') \<Longrightarrow> cr_step nic (t, w) (t', w')"
| poll_send: "cr_poll_send_completion nic task t w = Some (p, t', w') \<Longrightarrow> cr_step nic (t, w) (t', w')"
| poll_recv: "cr_poll_recv nic task n t w = Some (q, t', w') \<Longrightarrow> cr_step nic (t, w) (t', w')"
| repost: "cr_repost_recv nic i t w = (u, t', w') \<Longrightarrow> cr_step nic (t, w) (t', w')"
| poll_disconnect: "cr_poll_disconnect nic t w = Some (b, t', w') \<Longrightarrow> cr_step nic (t, w) (t', w')"
| disconnect: "cr_disconnect nic t w = (u, t', w') \<Longrightarrow> cr_step nic (t, w) (t', w')"

lemma cr_send_gather_inv:
  assumes "cr_inv nic scq rcq sq (t, w)" "cr_send_gather nic bufs t w = (r, t', w')"
  shows "cr_inv nic scq rcq sq (t', w') \<and> cr_keeps sq (t, w) t'"
proof (rule cr_send_gather_cases [OF assms])
  assume "cr_rx sq (t, w) (t', w')"
  with cr_rx_inv [OF assms(1)] show ?thesis by blast
qed (use assms(1) in \<open>auto simp: cr_keeps_mr\<close>)

lemma cr_step_inv:
  assumes "cr_step nic s s'" "cr_inv nic scq rcq sq s"
  shows "cr_inv nic scq rcq sq s' \<and> cr_keeps sq s (fst s')"
  using assms
proof (cases rule: cr_step.cases)
  case (send_copy data t w r t' w')
  then have "cr_send_gather nic [data] t w = (r, t', w')" by (simp add: cr_send_copy_def)
  from cr_send_gather_inv [OF _ this] assms(2) send_copy show ?thesis by simp
next
  case (send_gather bufs t w r t' w')
  from cr_send_gather_inv [OF _ this(3)] assms(2) send_gather show ?thesis by simp
qed (use assms(2) in \<open>auto intro!: cr_keeps_mr dest: cr_poll_send_completion_inv cr_poll_recv_inv
      cr_repost_recv_inv cr_disconnects_inv\<close>)

lemma cr_steps_inv:
  "(cr_step nic)\<^sup>*\<^sup>* s s' \<Longrightarrow> cr_inv nic scq rcq sq s \<Longrightarrow> cr_inv nic scq rcq sq s'"
  by (induction rule: rtranclp_induct) (auto dest: cr_step_inv)

text \<open>The transport as \<open>from_parts\<close> builds it, over an idle send queue of the size it asked for.\<close>

definition cr_start ::
    "'n nic \<Rightarrow> nat \<Rightarrow> nat \<Rightarrow> ('n \<Rightarrow> u64 list) \<Rightarrow> credit_ring \<times> 'n world \<Rightarrow> bool" where
  "cr_start nic scq rcq sq s \<longleftrightarrow>
     (\<exists>qp a b ch cmid smr rmr mw doorbells raddr rkey rcap mo c w.
        s = (cr_from_parts qp (ArmPark a CqIdle) (ArmPark b CqIdle) ch cmid smr rmr mw doorbells
               raddr rkey rcap mo c, w)
        \<and> ac_cq a = scq \<and> ac_cq b = rcq \<and> scq \<noteq> rcq
        \<and> fifo_contract nic (aq_qpn qp) scq (mo + CREDIT_RING_SQ_HEADROOM) sq \<and> sq (hw w) = []
        \<and> 0 < mo \<and> doorbells \<noteq> [] \<and> 0 < rcap
        \<and> length (mr_bytes smr) = cc_ring_capacity c \<and> 0 < cc_ring_capacity c \<and> cc_ring_capacity c < 2 ^ 63)"

lemma cr_start_inv: "cr_start nic scq rcq sq s \<Longrightarrow> cr_inv nic scq rcq sq s"
  by (auto simp: cr_start_def cr_inv_def cr_ready_def cr_rwf_def cr_from_parts_def src_on_def
      tracker_wf_new tracker_new_def [THEN arg_cong [where f = ct_capacity]]
      intro!: ring_matches_new exI [of _ "[]"])
    (auto simp: tracker_new_def ring_new_def)

lemma cr_reach_inv:
  "cr_start nic scq rcq sq s0 \<Longrightarrow> (cr_step nic)\<^sup>*\<^sup>* s0 s \<Longrightarrow> cr_inv nic scq rcq sq s"
  using cr_start_inv cr_steps_inv by blast

subsection \<open>Properties\<close>

text \<open>C2: No write under transmission. From a freshly built credit-ring transport, after any
  sequence of trait-method calls, either the peer is marked disconnected or the send ring holds
  exactly the data writes the device still owns, in the order of its queue; and the next call
  leaves the bytes of every one of them unchanged.\<close>

theorem cr_no_overwrite:
  assumes "cr_start nic scq rcq sq s0" "(cr_step nic)\<^sup>*\<^sup>* s0 (t, w)" "cr_step nic (t, w) (t', w')"
    and "\<not> cr_peer_disconnected t"
  shows "\<exists>ms. ring_matches (cr_send_ring t) (sq (hw w)) ms \<and>
    (\<forall>(off, pad, len) \<in> set ms.
       slice (mr_bytes (rb_mr (cr_send_ring t'))) off (off + len) =
       slice (mr_bytes (rb_mr (cr_send_ring t))) off (off + len))"
proof -
  have inv: "cr_inv nic scq rcq sq (t, w)" by (rule cr_reach_inv [OF assms(1,2)])
  from cr_invD(7) [OF inv] assms(4) obtain ms where "ring_matches (cr_send_ring t) (sq (hw w)) ms" by blast
  moreover have "cr_keeps sq (t, w) t'" using cr_step_inv [OF assms(3) inv] by simp
  ultimately show ?thesis using assms(4) by (fastforce simp: cr_keeps_def)
qed

definition mr8 :: mr where
  "mr8 = \<lparr>mr_addr = 4096, mr_lkey = 1, mr_rkey = 2, mr_bytes = [0, 0, 0, 0, 0, 0, 0, 0]\<rparr>"

definition cr_cfg8 :: credit_ring_config where
  "cr_cfg8 = \<lparr>cc_ring_capacity = 8, cc_max_message_size = 3, cc_max_in_flight = None,
     cc_token_timeout = 5, cc_max_inline_data = 0, cc_mw_mode = Auto\<rparr>"

definition cr_t0 :: credit_ring where
  "cr_t0 = cr_from_parts (new_poster 7) (ArmPark (acq_n 0) CqIdle) (ArmPark (acq_n 1) CqIdle) 2 3
     mr8 mr8 None [mr2, mr2] 0 9 8 2 cr_cfg8"

lemma cr_t0_start: "cr_start fifo_nic 0 1 id (cr_t0, sim_world [])"
  unfolding cr_start_def cr_t0_def using fifo_nic_contract
  by (intro exI conjI) (rule refl, auto simp: acq_n_def sim_world_def mr8_def cr_cfg8_def)

lemma cr_t0_fields:
  "cr_peer_disconnected cr_t0 = False" "cr_remote_credits cr_t0 = 2" "cr_send_in_flight cr_t0 = 0"
  "cr_sq_capacity cr_t0 = 4" "cr_config cr_t0 = cr_cfg8" "cr_remote_capacity cr_t0 = 8"
  "cr_send_ring cr_t0 = ring_new mr8 8" "cr_qp cr_t0 = new_poster 7" "cr_remote_write_tail cr_t0 = 0"
  "cr_remote_addr cr_t0 = 0" "cr_remote_rkey cr_t0 = 9"
  by (simp_all add: cr_t0_def cr_from_parts_def cr_cfg8_def CREDIT_RING_SQ_HEADROOM_def)

lemma ring8:
  "reserve (Suc (Suc (Suc 0))) (ring_new m 8) = (Some (0, 0), (ring_new m 8)\<lparr>rb_tail := 3\<rparr>)"
  "reserve (Suc 0) (ring_new m 8\<lparr>rb_tail := 3\<rparr>) = (Some (3, 0), ring_new m 8\<lparr>rb_tail := 4\<rparr>)"
  "rb_mr (ring_new m 8) = m" "ring_new m 8\<lparr>rb_tail := k, rb_mr := m'\<rparr> = ring_new m' 8\<lparr>rb_tail := k\<rparr>"
  "mr_bytes mr8 = [0, 0, 0, 0, 0, 0, 0, 0]"
  by (simp_all add: reserve_def ring_new_def available_def used_def contiguous_free_def mr8_def)

lemma fifo_post: "post_send_wr fifo_nic (new_poster q) wr w = (Ok (), w\<lparr>hw := hw w @ [swr_id wr]\<rparr>)"
  by (simp add: post_send_wr_def fifo_nic_def sim_nic_def new_poster_def on_hw_def from_ret_def account_def)

text \<open>A run on the simulated device: three bytes of four are accepted, then one more.\<close>

definition cr_t1 :: "nat res \<times> credit_ring \<times> u64 list world" where
  "cr_t1 = cr_send_gather fifo_nic [[1, 2], [3, 4]] cr_t0 (sim_world [])"

lemma cr_t1_eq:
  "cr_t1 = (Ok 3,
     cr_t0\<lparr>cr_send_ring := ring_new (mr8\<lparr>mr_bytes := [1, 2, 3, 0, 0, 0, 0, 0]\<rparr>) 8\<lparr>rb_tail := 3\<rparr>,
           cr_remote_write_tail := 3, cr_remote_credits := 1, cr_send_in_flight := 1\<rparr>,
     sim_world [3])"
  by (simp add: cr_t1_def cr_send_gather_def cr_send_with_credits_def cr_t0_fields cr_cfg8_def ring8 cr_post_padding_def cr_post_data_def
      fifo_post Let_def gather_into_eq slice_def upd_range_def sim_world_def)

definition cr_t2 :: "nat res \<times> credit_ring \<times> u64 list world" where
  "cr_t2 = cr_send_gather fifo_nic [[5]] (fst (snd cr_t1)) (snd (snd cr_t1))"

lemma cr_t2_eq:
  "cr_t2 = (Ok 1,
     cr_t0\<lparr>cr_send_ring := ring_new (mr8\<lparr>mr_bytes := [1, 2, 3, 5, 0, 0, 0, 0]\<rparr>) 8\<lparr>rb_tail := 4\<rparr>,
           cr_remote_write_tail := 4, cr_remote_credits := 0, cr_send_in_flight := 2\<rparr>,
     sim_world [3, 1])"
  by (simp add: cr_t2_def cr_t1_eq cr_send_gather_def cr_send_with_credits_def cr_t0_fields cr_cfg8_def ring8 cr_post_padding_def
      cr_post_data_def fifo_post Let_def gather_into_eq slice_def upd_range_def sim_world_def)

lemma cr_t1_run: "(cr_step fifo_nic)\<^sup>*\<^sup>* (cr_t0, sim_world []) (snd cr_t1)"
  and cr_t2_step: "cr_step fifo_nic (snd cr_t1) (snd cr_t2)"
proof -
  have "cr_step fifo_nic (cr_t0, sim_world []) (snd cr_t1)"
    by (cases cr_t1) (auto simp: cr_t1_def intro: cr_step.send_gather)
  then show "(cr_step fifo_nic)\<^sup>*\<^sup>* (cr_t0, sim_world []) (snd cr_t1)" by blast
  show "cr_step fifo_nic (snd cr_t1) (snd cr_t2)"
    by (metis cr_step.send_gather cr_t2_def prod.collapse)
qed

theorem cr_no_overwrite_witness:
  "\<exists>ms. ring_matches (cr_send_ring (fst (snd cr_t1))) [3] ms \<and>
     map (\<lambda>(off, pad, len). slice (mr_bytes (rb_mr (cr_send_ring (fst (snd cr_t2))))) off (off + len)) ms =
     map (\<lambda>(off, pad, len). slice [1, 2, 3, 0, 0, 0, 0, 0] off (off + len)) ms"
proof -
  have "\<not> cr_peer_disconnected (fst (snd cr_t1))" by (simp add: cr_t1_eq cr_t0_fields)
  from cr_no_overwrite [OF cr_t0_start _ _ this, of "snd (snd cr_t1)" "fst (snd cr_t2)" "snd (snd cr_t2)"]
    cr_t1_run cr_t2_step
  obtain ms where "ring_matches (cr_send_ring (fst (snd cr_t1))) (hw (snd (snd cr_t1))) ms"
    and k: "\<forall>(off, pad, len) \<in> set ms.
      slice (mr_bytes (rb_mr (cr_send_ring (fst (snd cr_t2))))) off (off + len) =
      slice (mr_bytes (rb_mr (cr_send_ring (fst (snd cr_t1))))) off (off + len)" by auto
  moreover have "hw (snd (snd cr_t1)) = [3]" "mr_bytes (rb_mr (cr_send_ring (fst (snd cr_t1)))) = [1, 2, 3, 0, 0, 0, 0, 0]"
    by (simp_all add: cr_t1_eq sim_world_def ring8)
  ultimately show ?thesis by (intro exI [of _ ms]) (auto intro!: map_cong)
qed

text \<open>C22: Counters bound the queue. After any sequence of trait-method calls on a fresh
  transport the device owns no more send requests than \<open>send_in_flight\<close> counts, and these are
  at most the \<open>max_outstanding + 2\<close> the queue pair was created with; the slot map, the tracker
  and the doorbell index stay well formed, so none of their uses can go out of range.\<close>

theorem cr_queue_bound:
  assumes "cr_start nic scq rcq sq s0" "(cr_step nic)\<^sup>*\<^sup>* s0 (t, w)"
  shows "length (sq (hw w)) \<le> cr_sends_in_flight t \<and> cr_sends_in_flight t \<le> cr_sq_capacity t
    \<and> length (cr_virtual_idx_map t) = cr_recv_window t \<and> cr_next_virt_idx t < cr_recv_window t
    \<and> tracker_wf (cr_recv_tracker t) \<and> ct_capacity (cr_recv_tracker t) = cr_recv_window t
    \<and> cr_doorbell_repost_idx t < length (cr_doorbell_bufs t)"
  using cr_invD(1) [OF cr_reach_inv [OF assms]]
  by (auto simp: cr_ready_def cr_rwf_def cr_sends_in_flight_def cr_recv_window_def)

theorem cr_queue_bound_witness:
  "length (hw (snd (snd cr_t1))) \<le> cr_sends_in_flight (fst (snd cr_t1))
     \<and> cr_sends_in_flight (fst (snd cr_t1)) \<le> 4"
  using cr_queue_bound [OF cr_t0_start, of "fst (snd cr_t1)" "snd (snd cr_t1)"] cr_t1_run
  by (simp add: cr_t1_eq cr_t0_fields)





end
