(* ===== verification/ReadRing.thy ===== *)
theory ReadRing
  imports CreditRing CoreDriver
begin

section \<open>The read-ring transport\<close>

text \<open>
  \<^verbatim>\<open>read_ring_transport.rs\<close>: the ring transport whose sender learns the receiver's
  head by an RDMA read of a four-byte offset buffer. It runs with its own completion queues or
  on a core driver; setup, rollback and drop differ between the two, and all of them are
  modelled. The offset buffer (the first word of \<open>_offset_mr\<close>, an \<open>AtomicU32\<close> that only
  this side writes) is the field \<open>rr_offset_buffer\<close>; the landing buffer of the read is
  written by the device and read through \<open>host_memory\<close>.

  The lemmas show the bound on outstanding work requests, that a message under transmission
  is not overwritten, that the receiver's head moves over exactly the released prefix, and
  what the drop hands to the driver.
\<close>

subsection \<open>Configuration\<close>

definition READ_RING_SQ_HEADROOM :: nat where "READ_RING_SQ_HEADROOM = 3"
definition SEND_COPY_MAX_WRS :: nat where "SEND_COPY_MAX_WRS = 3"
definition WR_ID_READ_SENTINEL :: u64 where "WR_ID_READ_SENTINEL = - 1 - 30"
definition WR_ID_OFFSET_MW_BIND :: u64 where "WR_ID_OFFSET_MW_BIND = - 1 - 11"

record read_ring_config =
  rg_ring_capacity :: nat
  rg_max_message_size :: nat
  rg_max_in_flight :: "nat option"
  rg_token_timeout :: nat
  rg_max_inline_data :: u32
  rg_min_free_threshold :: nat
  rg_mw_mode :: memory_window_mode

definition rg_datagram :: read_ring_config where
  "rg_datagram =
     \<lparr>rg_ring_capacity = 65536, rg_max_message_size = 1500, rg_max_in_flight = None,
      rg_token_timeout = 5, rg_max_inline_data = 0, rg_min_free_threshold = 128,
      rg_mw_mode = Auto\<rparr>"

definition rg_with_memory_window_mode :: "memory_window_mode \<Rightarrow> read_ring_config \<Rightarrow> read_ring_config" where
  "rg_with_memory_window_mode mode c = c\<lparr>rg_mw_mode := mode\<rparr>"

definition rg_with_max_in_flight :: "nat \<Rightarrow> read_ring_config \<Rightarrow> read_ring_config" where
  "rg_with_max_in_flight n c = c\<lparr>rg_max_in_flight := Some n\<rparr>"

record read_ring_wr_budget =
  rb_max_outstanding :: nat
  rb_send_wrs :: u32
  rb_recv_wrs :: u32

definition wr_budget :: "(nat \<times> nat) option \<Rightarrow> read_ring_config \<Rightarrow> read_ring_wr_budget" where
  "wr_budget device_attr c =
     (let device_limit = (case device_attr of Some (a, b) \<Rightarrow> min a b | None \<Rightarrow> USIZE_MAX);
          max_outstanding = clamp_max_outstanding (rg_ring_capacity c) (rg_max_message_size c)
            (rg_max_in_flight c) READ_RING_SQ_HEADROOM device_limit
      in \<lparr>rb_max_outstanding = max_outstanding,
          rb_send_wrs = word_of_nat (max_outstanding + READ_RING_SQ_HEADROOM),
          rb_recv_wrs = word_of_nat (max_outstanding + 2)\<rparr>)"

subsection \<open>State\<close>

record read_ring =
  rr_disconnected :: bool
  rr_peer_disconnected :: bool
  rr_virtual_idx_map :: "(nat \<times> nat \<times> nat) option list"
  rr_next_virt_idx :: nat
  rr_max_outstanding :: nat
  rr_recv_arrival_seq :: nat
  rr_recv_stash :: "recv_completion list"
  rr_cached_remote_head :: nat
  rr_read_in_flight :: bool
  rr_remote_offset_va :: u64
  rr_remote_offset_rkey :: u32
  rr_slot_lengths :: "nat list"
  rr_head_slot_idx :: nat
  rr_send_in_flight :: nat
  rr_sq_capacity :: nat
  rr_offset_mw :: "u32 option"
  rr_recv_mw :: "u32 option"
  rr_qp :: async_qp
  rr_send_src :: source
  rr_recv_src :: source
  rr_send_ring :: ring_buffer
  rr_recv_ring :: ring_buffer
  rr_read_buf :: mr
  rr_offset_buffer :: u32
  rr_remote_addr :: u64
  rr_remote_rkey :: u32
  rr_remote_capacity :: nat
  rr_remote_write_tail :: nat
  rr_doorbell_bufs :: "mr list"
  rr_doorbell_repost_idx :: nat
  rr_recv_tracker :: completion_tracker
  rr_config :: read_ring_config
  rr_event_channel :: nat
  rr_cm_id :: u32

datatype lifecycle =
    LcArmPark
  | LcBusy (lc_slot: nat) (lc_lease: "nat option")

text \<open>The wrapper: the inner transport, taken by the drop, and the completion mode.\<close>

record read_ring_transport =
  rt_inner :: "read_ring option"
  rt_lifecycle :: lifecycle

definition rr_from_parts ::
    "async_qp \<Rightarrow> source \<Rightarrow> source \<Rightarrow> nat \<Rightarrow> u32 \<Rightarrow> mr \<Rightarrow> mr \<Rightarrow> u32 option \<Rightarrow> u32 option \<Rightarrow> mr \<Rightarrow>
       mr list \<Rightarrow> read_ring_token \<Rightarrow> nat \<Rightarrow> read_ring_config \<Rightarrow> read_ring" where
  "rr_from_parts qp ssrc rsrc ch cmid smr rmr recv_mw offset_mw read_buf doorbells tok max_outstanding c =
     \<lparr>rr_disconnected = False, rr_peer_disconnected = False,
      rr_virtual_idx_map = replicate max_outstanding None, rr_next_virt_idx = 0,
      rr_max_outstanding = max_outstanding, rr_recv_arrival_seq = 0, rr_recv_stash = [],
      rr_cached_remote_head = 0, rr_read_in_flight = False,
      rr_remote_offset_va = rtok_offset_va tok, rr_remote_offset_rkey = rtok_offset_rkey tok,
      rr_slot_lengths = replicate max_outstanding 0, rr_head_slot_idx = 0,
      rr_send_in_flight = 0, rr_sq_capacity = max_outstanding + READ_RING_SQ_HEADROOM,
      rr_offset_mw = offset_mw, rr_recv_mw = recv_mw, rr_qp = qp,
      rr_send_src = ssrc, rr_recv_src = rsrc,
      rr_send_ring = ring_new smr (rg_ring_capacity c),
      rr_recv_ring = ring_new rmr (rg_ring_capacity c),
      rr_read_buf = read_buf, rr_offset_buffer = 0,
      rr_remote_addr = rtok_ring_va tok, rr_remote_rkey = rtok_ring_rkey tok,
      rr_remote_capacity = unat (rtok_ring_capacity tok), rr_remote_write_tail = 0,
      rr_doorbell_bufs = doorbells, rr_doorbell_repost_idx = 0,
      rr_recv_tracker = tracker_new max_outstanding, rr_config = c,
      rr_event_channel = ch, rr_cm_id = cmid\<rparr>"

definition set_reclaim_lease :: "nat \<Rightarrow> read_ring_transport \<Rightarrow> unit res \<times> read_ring_transport" where
  "set_reclaim_lease l t =
     (case rt_lifecycle t of
        LcBusy i None \<Rightarrow> (Ok (), t\<lparr>rt_lifecycle := LcBusy i (Some l)\<rparr>)
      | LcBusy i (Some _) \<Rightarrow> (Panic, t)
      | LcArmPark \<Rightarrow> (Panic, t))"

subsection \<open>Token exchange and windows\<close>

definition check_read_token :: "read_ring_token \<Rightarrow> read_ring_token res" where
  "check_read_token t =
     (if rtok_version t \<noteq> READ_RING_TOKEN_VERSION then
        Err (InvalidArg ''unsupported read ring token version'')
      else if rtok_ring_capacity t = 0 then Err (InvalidArg ''peer ring capacity is 0'')
      else if unat (rtok_ring_capacity t) > 65536 then
        Err (InvalidArg ''peer ring capacity too large'')
      else Ok t)"

definition complete_read_ring_token_exchange ::
    "'n nic \<Rightarrow> nat \<Rightarrow> async_qp \<Rightarrow> source \<Rightarrow> read_ring_token \<Rightarrow> mr \<Rightarrow> 'n world \<Rightarrow>
       (read_ring_token res \<times> source \<times> 'n world) option" where
  "complete_read_ring_token_exchange nic task qp recv_src our_token token_recv_mr w =
     and_then_opt (exchange_setup_token nic task qp recv_src (read_token_to_bytes our_token) w)
       (\<lambda>_ (src, w).
          let buf = host_memory nic token_recv_mr (hw w) in
          if length buf \<noteq> READ_RING_TOKEN_SIZE then Some (Panic, src, w)
          else Some (check_read_token (read_token_from_bytes buf), src, w))"

definition bind_offset_mw :: "'n nic \<Rightarrow> async_qp \<Rightarrow> mr \<Rightarrow> nat \<Rightarrow> 'n world \<Rightarrow> u32 res \<times> 'n world" where
  "bind_offset_mw nic qp offset_mr offset_size w =
     (if \<not> supports_mw_type2 nic (hw w) then (Panic, w)
      else
        case on_hw (ibv_alloc_mw nic) w of
          (Inl e, w) \<Rightarrow> (Err (Verbs e), w)
        | (Inr mw_rkey, w) \<Rightarrow>
            and_then (post_send_wr nic qp
                (wr_bind_mw mw_rkey (mr_addr offset_mr) (word_of_nat offset_size) REMOTE_READ
                  (wr_signaled (send_wr_new WR_ID_OFFSET_MW_BIND WrBindMw))) w)
              (\<lambda>_ w. (Ok mw_rkey, w)))"

subsection \<open>Completion backend\<close>

datatype setup_backend =
    BkArmPark async_cq async_cq
  | BkBusy (bk_send_cap: nat) (bk_recv_cap: nat)

text \<open>
  \<open>driver\<close> is the core driver the handle refers to, if there is one. The state threaded
  through setup is the driver and the world.
\<close>

definition backend_new ::
    "'n cm_endpoint \<Rightarrow> core_driver option \<Rightarrow> nat \<Rightarrow> nat \<Rightarrow> 'n world \<Rightarrow> setup_backend res \<times> 'n world" where
  "backend_new ep driver send_depth recv_depth w =
     (case driver of
        None \<Rightarrow>
          and_then (ep_cq ep (word_of_nat send_depth) w) (\<lambda>scq w.
          and_then (ep_cq ep (word_of_nat recv_depth) w) (\<lambda>rcq w. (Ok (BkArmPark scq rcq), w)))
      | Some d \<Rightarrow> (Ok (BkBusy send_depth recv_depth), w))"

definition backend_cqs :: "setup_backend \<Rightarrow> core_driver option \<Rightarrow> (nat \<times> nat) option" where
  "backend_cqs b driver =
     (case b of
        BkArmPark scq rcq \<Rightarrow> Some (ac_cq scq, ac_cq rcq)
      | BkBusy _ _ \<Rightarrow> map_option (\<lambda>d. (cd_send_cq d, cd_recv_cq d)) driver)"

text \<open>
  \<open>into_sources\<close>: in busy mode a fresh slot (number \<open>fresh\<close> of the heap) is created and
  registered with the driver.
\<close>

definition into_sources ::
    "nat \<Rightarrow> u32 \<Rightarrow> setup_backend \<Rightarrow> core_driver option \<times> 'n world \<Rightarrow>
       (source \<times> source \<times> nat option) res \<times> core_driver option \<times> 'n world" where
  "into_sources fresh qp_num b s =
     (let (driver, w) = s in
      case (b, driver) of
        (BkArmPark scq rcq, _) \<Rightarrow> (Ok (ArmPark scq CqIdle, ArmPark rcq CqIdle, None), driver, w)
      | (BkBusy _ _, None) \<Rightarrow> (Panic, driver, w)
      | (BkBusy send_cap recv_cap, Some d) \<Rightarrow>
          (case conn_slot_new qp_num send_cap recv_cap of
             Ok sl \<Rightarrow>
               let w = upd_slot fresh (\<lambda>_. sl) w; (r, d) = register fresh d w in
               (case r of
                  Ok _ \<Rightarrow> (Ok (Driver fresh Send, Driver fresh Recv, Some fresh), Some d, w)
                | Err e \<Rightarrow> (Err e, Some d, w)
                | Panic \<Rightarrow> (Panic, Some d, w))
           | _ \<Rightarrow> (Panic, driver, w)))"

subsection \<open>The setup transaction\<close>

record pending_resources =
  pr_offset_mw :: "u32 option"
  pr_recv_mw :: "u32 option"
  pr_qp :: async_qp
  pr_send_src :: source
  pr_recv_src :: source
  pr_send_mr :: mr
  pr_recv_mr :: mr
  pr_offset_mr :: mr
  pr_read_buf :: mr
  pr_token_recv_mr :: mr
  pr_doorbell_bufs :: "mr list"
  pr_cm :: "(nat \<times> u32) option"

record pending_read_ring =
  pp_res :: "pending_resources option"
  pp_lifecycle :: lifecycle
  pp_max_outstanding :: nat
  pp_use_mr_rkey :: bool
  pp_config :: read_ring_config

definition pending_begin ::
    "nat \<Rightarrow> setup_backend \<Rightarrow> u32 \<Rightarrow> async_qp \<Rightarrow> mr \<Rightarrow> mr \<Rightarrow> mr \<Rightarrow> mr \<Rightarrow> mr \<Rightarrow> mr list \<Rightarrow> nat \<Rightarrow> bool \<Rightarrow>
       read_ring_config \<Rightarrow> core_driver option \<times> 'n world \<Rightarrow>
       pending_read_ring res \<times> core_driver option \<times> 'n world" where
  "pending_begin fresh b qp_num qp smr rmr omr rbuf tmr doorbells max_outstanding use_mr_rkey c s =
     and_then (into_sources fresh qp_num b s) (\<lambda>(ssrc, rsrc, slot) s.
       let (qp, lc) = (case slot of
             Some i \<Rightarrow> (set_accounting i qp, LcBusy i None)
           | None \<Rightarrow> (qp, LcArmPark))
       in (Ok \<lparr>pp_res = Some \<lparr>pr_offset_mw = None, pr_recv_mw = None, pr_qp = qp,
                 pr_send_src = ssrc, pr_recv_src = rsrc, pr_send_mr = smr, pr_recv_mr = rmr,
                 pr_offset_mr = omr, pr_read_buf = rbuf, pr_token_recv_mr = tmr,
                 pr_doorbell_bufs = doorbells, pr_cm = None\<rparr>,
               pp_lifecycle = lc, pp_max_outstanding = max_outstanding,
               pp_use_mr_rkey = use_mr_rkey, pp_config = c\<rparr>, s))"

definition pending_post_token_recv ::
    "'n nic \<Rightarrow> pending_read_ring \<Rightarrow> 'n world \<Rightarrow> unit res \<times> 'n world" where
  "pending_post_token_recv nic p w =
     (case pp_res p of
        None \<Rightarrow> (Panic, w)
      | Some r \<Rightarrow>
          let m = pr_token_recv_mr r;
              sg = \<lparr>sge_addr = mr_addr m, sge_length = word_of_nat READ_RING_TOKEN_SIZE,
                    sge_lkey = mr_lkey m\<rparr>
          in post_recv_wr nic (pr_qp r) (recv_sg sg (recv_wr_new (- 1))) w)"

definition pending_attach_cm :: "nat \<Rightarrow> u32 \<Rightarrow> pending_read_ring \<Rightarrow> pending_read_ring res" where
  "pending_attach_cm ch cmid p =
     (case pp_res p of
        None \<Rightarrow> Panic
      | Some r \<Rightarrow> Ok (p\<lparr>pp_res := Some (r\<lparr>pr_cm := Some (ch, cmid)\<rparr>)\<rparr>))"

text \<open>Binding the two windows, or taking the keys of the regions.\<close>

definition bind_windows ::
    "'n nic \<Rightarrow> bool \<Rightarrow> nat \<Rightarrow> pending_resources \<Rightarrow> 'n world \<Rightarrow>
       (u32 option \<times> u32 \<times> u32 option \<times> u32) res \<times> 'n world" where
  "bind_windows nic use_mr_rkey cap r w =
     (if use_mr_rkey then (Ok (None, mr_rkey (pr_recv_mr r), None, mr_rkey (pr_offset_mr r)), w)
      else
        and_then (bind_recv_mw nic (pr_qp r) (pr_recv_mr r) cap w) (\<lambda>k1 w.
        and_then (bind_offset_mw nic (pr_qp r) (pr_offset_mr r) 64 w) (\<lambda>k2 w.
          (Ok (Some k1, k1, Some k2, k2), w))))"

definition rr_finish ::
    "'n nic \<Rightarrow> nat \<Rightarrow> pending_read_ring \<Rightarrow> 'n world \<Rightarrow>
       (read_ring_token res \<times> pending_read_ring \<times> 'n world) option" where
  "rr_finish nic task p w =
     (let cap = rg_ring_capacity (pp_config p);
          setup_wrs = (if pp_use_mr_rkey p then [WR_ID_TOKEN_SEND]
                       else [WR_ID_TOKEN_SEND, WR_ID_RECV_MW_BIND, WR_ID_OFFSET_MW_BIND]);
          put = (\<lambda>r. p\<lparr>pp_res := Some r\<rparr>)
      in case pp_res p of
           None \<Rightarrow> Some (Panic, p, w)
         | Some r \<Rightarrow>
             and_then_opt
               (Some (let (x, w) = bind_windows nic (pp_use_mr_rkey p) cap r w in (x, p, w)))
               (\<lambda>(mw1, k1, mw2, k2) (p, w).
             let r = r\<lparr>pr_recv_mw := mw1, pr_offset_mw := mw2\<rparr>;
                 our_token = \<lparr>rtok_version = READ_RING_TOKEN_VERSION, rtok_reserved = [0, 0, 0],
                   rtok_ring_va = mr_addr (pr_recv_mr r), rtok_ring_capacity = word_of_nat cap,
                   rtok_ring_rkey = k1, rtok_offset_va = mr_addr (pr_offset_mr r),
                   rtok_offset_rkey = k2\<rparr> in
             and_then_opt
               (map_option (\<lambda>(x, src, w). (x, put (r\<lparr>pr_recv_src := src\<rparr>), w))
                 (complete_read_ring_token_exchange nic task (pr_qp r) (pr_recv_src r) our_token
                    (pr_token_recv_mr r) w))
               (\<lambda>peer_token (p, w).
             let r = the (pp_res p) in
             and_then_opt
               (map_option (\<lambda>(x, src, w). (x, put (r\<lparr>pr_send_src := src\<rparr>), w))
                 (drain_ring_setup_sends nic task setup_wrs (pr_send_src r) w))
               (\<lambda>_ (p, w).
             let (d, w) = post_doorbells nic (pr_qp r) 0 (pr_doorbell_bufs r) w in
             Some (and_then (d, p, w) (\<lambda>_ s. (Ok peer_token, s)))))))"

definition rr_commit ::
    "read_ring_token \<Rightarrow> pending_read_ring \<Rightarrow> 'n world \<Rightarrow>
       read_ring_transport res \<times> pending_read_ring \<times> 'n world" where
  "rr_commit tok p w =
     (case pp_res p of
        None \<Rightarrow> (Panic, p, w)
      | Some r \<Rightarrow>
          let lc = pp_lifecycle p;
              p = p\<lparr>pp_res := None, pp_lifecycle := LcArmPark\<rparr>;
              w = (case lc of LcBusy i _ \<Rightarrow> upd_slot i (set_state Established) w | LcArmPark \<Rightarrow> w)
          in (case pr_cm r of
               None \<Rightarrow> (Panic, p, w)
             | Some (ch, cmid) \<Rightarrow>
                 (Ok \<lparr>rt_inner = Some (rr_from_parts (pr_qp r) (pr_send_src r) (pr_recv_src r) ch cmid
                        (pr_send_mr r) (pr_recv_mr r) (pr_recv_mw r) (pr_offset_mw r) (pr_read_buf r)
                        (pr_doorbell_bufs r) tok (pp_max_outstanding p) (pp_config p)),
                      rt_lifecycle = lc\<rparr>, p, w)))"

text \<open>
  The rollback. The resources handed to the driver are named by their queue pair.
\<close>

definition rr_pending_drop ::
    "'n nic \<Rightarrow> pending_read_ring \<Rightarrow> core_driver option \<times> 'n world \<Rightarrow> core_driver option \<times> 'n world" where
  "rr_pending_drop nic p s =
     (let (driver, w) = s in
      case pp_res p of
        None \<Rightarrow> (driver, w)
      | Some r \<Rightarrow>
          (case (pp_lifecycle p, pr_cm r) of
             (LcBusy i lease, Some (ch, cmid)) \<Rightarrow>
               let w = upd_slot i (set_state Closing) w;
                   w = snd (cm_disconnect nic cmid w);
                   w = snd (to_error nic (pr_qp r) w)
               in (map_option (reclaim i (unat (aq_qpn (pr_qp r))) lease) driver, w)
           | (LcBusy i lease, None) \<Rightarrow>
               let w = snd (to_error nic (pr_qp r) w)
               in (map_option (unregister (cs_qp_num (slots w i))) driver, w)
           | (LcArmPark, _) \<Rightarrow>
               let w = snd (to_error nic (pr_qp r) w)
               in (driver, drain_flushed nic (pr_send_src r) (pr_recv_src r) w)))"

definition rr_qp_attr :: "read_ring_config \<Rightarrow> nat \<Rightarrow> qp_init_attr" where
  "rr_qp_attr c max_outstanding =
     \<lparr>qa_qp_type = Rc, qa_max_send_wr = word_of_nat (max_outstanding + READ_RING_SQ_HEADROOM),
      qa_max_recv_wr = word_of_nat (max_outstanding + 2), qa_max_send_sge = 1,
      qa_max_recv_sge = 1,
      qa_max_inline_data = max (rg_max_inline_data c) (word_of_nat READ_RING_TOKEN_SIZE),
      qa_sq_sig_all = True\<rparr>"

text \<open>Creating the queue pair against the backend's queues.\<close>

definition ep_qp_on ::
    "'n cm_endpoint \<Rightarrow> qp_init_attr \<Rightarrow> (nat \<times> nat) option \<Rightarrow> 'n world \<Rightarrow> u32 res \<times> 'n world" where
  "ep_qp_on ep attr cqs w =
     (case cqs of
        None \<Rightarrow> (Panic, w)
      | Some (s, r) \<Rightarrow>
          (case on_hw (ep_create_qp ep attr s r) w of
             (Inl e, w) \<Rightarrow> (Err (Verbs e), w)
           | (Inr qpn, w) \<Rightarrow> (Ok qpn, w)))"

text \<open>A call that does not touch the driver, in a computation that threads it.\<close>

definition keep_driver :: "'d \<Rightarrow> 'a \<times> 'w \<Rightarrow> 'a \<times> 'd \<times> 'w" where
  "keep_driver driver x = (let (r, w) = x in (r, driver, w))"

definition prepare_pending ::
    "'n nic \<Rightarrow> 'n cm_endpoint \<Rightarrow> nat \<Rightarrow> read_ring_config \<Rightarrow> core_driver option \<Rightarrow> 'n world \<Rightarrow>
       pending_read_ring res \<times> core_driver option \<times> 'n world" where
  "prepare_pending nic ep fresh c driver w =
     (let dev = ibv_query_device nic (hw w) in
      if \<not> ep_verbs_context ep (hw w) then (Err (InvalidArg ''no verbs context''), driver, w)
      else
        and_then (keep_driver driver (and_then (ep_pd ep w) (\<lambda>_ w.
          (resolve_mr_rkey (map_option fst dev) (supports_mw_type2 nic (hw w)) (rg_mw_mode c), w))))
          (\<lambda>use_mr_rkey (driver, w).
        let max_outstanding = effective_max_outstanding (map_option snd dev) (rg_ring_capacity c)
              (rg_max_message_size c) (rg_max_in_flight c) READ_RING_SQ_HEADROOM;
            send_cq_depth = max_outstanding + READ_RING_SQ_HEADROOM;
            recv_cq_depth = max_outstanding + 2;
            mw_bind = (if use_mr_rkey then 0 else MW_BIND) in
        and_then (keep_driver driver (and_then (backend_new ep driver send_cq_depth recv_cq_depth w) (\<lambda>b w.
          and_then (ep_qp_on ep (rr_qp_attr c max_outstanding) (backend_cqs b driver) w) (\<lambda>qp_num w.
          and_then (reg_mr_owned nic (replicate (rg_ring_capacity c) 0) LOCAL_WRITE w) (\<lambda>smr w.
          and_then (reg_mr_owned nic (replicate (rg_ring_capacity c) 0)
                      (LOCAL_WRITE OR REMOTE_WRITE OR mw_bind) w) (\<lambda>rmr w.
          and_then (reg_mr_owned nic (replicate 64 0) (LOCAL_WRITE OR REMOTE_READ OR mw_bind) w) (\<lambda>omr w.
          and_then (reg_mr_owned nic (replicate 4 0) LOCAL_WRITE w) (\<lambda>rbuf w.
          and_then (reg_buffers nic max_outstanding 4 w) (\<lambda>doorbells w.
          and_then (reg_mr_owned nic (replicate READ_RING_TOKEN_SIZE 0) LOCAL_WRITE w) (\<lambda>tmr w.
            (Ok (b, qp_num, smr, rmr, omr, rbuf, doorbells, tmr), w)))))))))))
          (\<lambda>(b, qp_num, smr, rmr, omr, rbuf, doorbells, tmr) (driver, w).
        and_then (pending_begin fresh b qp_num (new_poster qp_num) smr rmr omr rbuf tmr doorbells
                    max_outstanding use_mr_rkey c (driver, w))
          (\<lambda>p (driver, w).
        case pending_post_token_recv nic p w of
          (Ok _, w) \<Rightarrow> (Ok p, driver, w)
        | (Err e, w) \<Rightarrow> (Err e, rr_pending_drop nic p (driver, w))
        | (Panic, w) \<Rightarrow> (Panic, rr_pending_drop nic p (driver, w))))))"

text \<open>The end of \<open>connect_inner\<close> and \<open>accept_inner\<close>.\<close>

definition rr_complete ::
    "'n nic \<Rightarrow> nat \<Rightarrow> nat \<Rightarrow> u32 \<Rightarrow> pending_read_ring \<Rightarrow> core_driver option \<times> 'n world \<Rightarrow>
       (read_ring_transport res \<times> core_driver option \<times> 'n world) option" where
  "rr_complete nic task ch cmid p s =
     (let (driver, w) = s in
      case pending_attach_cm ch cmid p of
        Ok p \<Rightarrow>
          (case rr_finish nic task p w of
             None \<Rightarrow> None
           | Some (Ok tok, p, w) \<Rightarrow>
               let (t, p, w) = rr_commit tok p w in Some (t, rr_pending_drop nic p (driver, w))
           | Some (Err e, p, w) \<Rightarrow> Some (Err e, rr_pending_drop nic p (driver, w))
           | Some (Panic, p, w) \<Rightarrow> Some (Panic, rr_pending_drop nic p (driver, w)))
      | _ \<Rightarrow> Some (Panic, rr_pending_drop nic p (driver, w)))"

definition rr_connect ::
    "'n nic \<Rightarrow> nat \<Rightarrow> bool \<Rightarrow> ('n world \<Rightarrow> 'n cm_endpoint res \<times> 'n world) \<Rightarrow>
       ('n world \<Rightarrow> unit res \<times> 'n world) \<Rightarrow> ('n world \<Rightarrow> (nat \<times> u32) res \<times> 'n world) \<Rightarrow> nat \<Rightarrow>
       read_ring_config \<Rightarrow> core_driver option \<Rightarrow> 'n world \<Rightarrow>
       (read_ring_transport res \<times> core_driver option \<times> 'n world) option" where
  "rr_connect nic task any_iwarp resolve handshake reg fresh c driver w =
     (if any_iwarp then Some (Err (InvalidArg ''ring transport requires InfiniBand/RoCE''), driver, w)
      else
        and_then_opt (Some (let (x, w) = resolve w in (x, driver, w))) (\<lambda>ep (driver, w).
        and_then_opt (Some (prepare_pending nic ep fresh c driver w)) (\<lambda>p (driver, w).
          case and_then (handshake w) (\<lambda>_ w. reg w) of
            (Err e, w) \<Rightarrow> Some (Err e, rr_pending_drop nic p (driver, w))
          | (Panic, w) \<Rightarrow> Some (Panic, rr_pending_drop nic p (driver, w))
          | (Ok (ch, cmid), w) \<Rightarrow> rr_complete nic task ch cmid p (driver, w))))"

definition rr_accept ::
    "'n nic \<Rightarrow> nat \<Rightarrow> bool \<Rightarrow> ('n world \<Rightarrow> 'n cm_endpoint res \<times> 'n world) \<Rightarrow>
       ('n world \<Rightarrow> unit res \<times> 'n world) \<Rightarrow> ('n world \<Rightarrow> unit res \<times> 'n world) \<Rightarrow>
       ('n world \<Rightarrow> nat res \<times> 'n world) \<Rightarrow> (nat \<Rightarrow> 'n world \<Rightarrow> u32 res \<times> 'n world) \<Rightarrow> nat \<Rightarrow>
       read_ring_config \<Rightarrow> core_driver option \<Rightarrow> 'n world \<Rightarrow>
       (read_ring_transport res \<times> core_driver option \<times> 'n world) option" where
  "rr_accept nic task any_iwarp get_request reply await_established new_channel migrate fresh c driver w =
     (if any_iwarp then Some (Err (InvalidArg ''ring transport requires InfiniBand/RoCE''), driver, w)
      else
        and_then_opt (Some (let (x, w) = get_request w in (x, driver, w))) (\<lambda>ep (driver, w).
        and_then_opt (Some (prepare_pending nic ep fresh c driver w)) (\<lambda>p (driver, w).
          case and_then (reply w) (\<lambda>_ w. and_then (await_established w) (\<lambda>_ w.
                 and_then (new_channel w) (\<lambda>ch w. and_then (migrate ch w) (\<lambda>cmid w.
                   (Ok (ch, cmid), w))))) of
            (Err e, w) \<Rightarrow> Some (Err e, rr_pending_drop nic p (driver, w))
          | (Panic, w) \<Rightarrow> Some (Panic, rr_pending_drop nic p (driver, w))
          | (Ok (ch, cmid), w) \<Rightarrow> rr_complete nic task ch cmid p (driver, w))))"

subsection \<open>Flow control\<close>

text \<open>
  The cached head is what the peer's memory held: it is not checked against the capacity, and
  a value above it makes the subtraction overflow.
\<close>

definition remote_free_space :: "read_ring \<Rightarrow> nat res" where
  "remote_free_space t =
     (if rr_remote_write_tail t \<ge> rr_cached_remote_head t then
        Ok (rr_remote_capacity t - (rr_remote_write_tail t - rr_cached_remote_head t + 1))
      else if rr_cached_remote_head t > rr_remote_capacity t then Panic
      else Ok (rr_remote_capacity t
               - (rr_remote_capacity t - rr_cached_remote_head t + rr_remote_write_tail t + 1)))"

definition rr_repost_doorbell :: "'n nic \<Rightarrow> read_ring \<Rightarrow> 'n world \<Rightarrow> unit res \<times> read_ring \<times> 'n world" where
  "rr_repost_doorbell nic t w =
     (let (r, idx, w) = repost_doorbell nic (rr_qp t) (rr_doorbell_bufs t) (rr_doorbell_repost_idx t) w
      in (r, t\<lparr>rr_doorbell_repost_idx := idx\<rparr>, w))"

definition post_offset_read :: "'n nic \<Rightarrow> read_ring \<Rightarrow> 'n world \<Rightarrow> unit res \<times> read_ring \<times> 'n world" where
  "post_offset_read nic t w =
     (let sg = \<lparr>sge_addr = mr_addr (rr_read_buf t), sge_length = 4, sge_lkey = mr_lkey (rr_read_buf t)\<rparr>;
          wr = wr_rdma (rr_remote_offset_va t) (rr_remote_offset_rkey t)
            (wr_sg sg (wr_signaled (send_wr_new WR_ID_READ_SENTINEL WrRdmaRead)))
      in case post_send_wr nic (rr_qp t) wr w of
           (Ok _, w) \<Rightarrow> (Ok (), t\<lparr>rr_read_in_flight := True\<rparr>, w)
         | (Err e, w) \<Rightarrow> (Err e, t, w)
         | (Panic, w) \<Rightarrow> (Panic, t, w))"

text \<open>\<open>from_ne_bytes\<close> on a little-endian host.\<close>

definition update_cached_remote_head :: "'n nic \<Rightarrow> read_ring \<Rightarrow> 'n world \<Rightarrow> unit res \<times> read_ring" where
  "update_cached_remote_head nic t w =
     (let mem = host_memory nic (rr_read_buf t) (hw w) in
      if length mem < 4 then (Panic, t)
      else (Ok (), t\<lparr>rr_cached_remote_head := unat (from_le (take 4 mem) :: u32)\<rparr>))"

text \<open>The loop of \<open>advance_recv_head\<close>, \<open>k\<close> slots to go; then the store to the offset buffer.\<close>

fun advance_loop :: "nat \<Rightarrow> read_ring \<Rightarrow> unit res \<times> read_ring" where
  "advance_loop 0 t = (Ok (), t)"
| "advance_loop (Suc k) t =
     (if rr_head_slot_idx t \<ge> length (rr_slot_lengths t) then (Panic, t)
      else
        advance_loop k
          (t\<lparr>rr_recv_ring := release (rr_slot_lengths t ! rr_head_slot_idx t) (rr_recv_ring t),
             rr_head_slot_idx := (rr_head_slot_idx t + 1) mod rr_max_outstanding t\<rparr>))"

definition advance_recv_head :: "nat \<Rightarrow> read_ring \<Rightarrow> unit res \<times> read_ring" where
  "advance_recv_head contiguous t =
     and_then (advance_loop contiguous t) (\<lambda>_ t.
       (Ok (), t\<lparr>rr_offset_buffer := word_of_nat (rb_head (rr_recv_ring t))\<rparr>))"

subsection \<open>Sending\<close>

text \<open>\<open>if !self.read_in_flight { self.post_offset_read()?; } return Ok(0)\<close>.\<close>

definition rr_blocked :: "'n nic \<Rightarrow> read_ring \<Rightarrow> 'n world \<Rightarrow> nat res \<times> read_ring \<times> 'n world" where
  "rr_blocked nic t w =
     (if \<not> rr_read_in_flight t then and_then (post_offset_read nic t w) (\<lambda>_ s. (Ok 0, s))
      else (Ok 0, t, w))"

text \<open>The padding write of a send that wraps.\<close>

definition rr_post_padding :: "'n nic \<Rightarrow> read_ring \<Rightarrow> 'n world \<Rightarrow> unit res \<times> read_ring \<times> 'n world" where
  "rr_post_padding nic t w =
     (let pad_remote_offset = rr_remote_write_tail t;
          imm = encode_ring_imm pad_remote_offset 0;
          pad_wr = wr_rdma (rr_remote_addr t + word_of_nat pad_remote_offset) (rr_remote_rkey t)
            (wr_signaled (send_wr_new WR_ID_PADDING_SENTINEL (WrRdmaWriteWithImm imm)))
      in case post_send_wr nic (rr_qp t) pad_wr w of
           (Ok _, w) \<Rightarrow>
             (Ok (), t\<lparr>rr_send_in_flight := rr_send_in_flight t + 1, rr_remote_write_tail := 0\<rparr>, w)
         | (Err e, w) \<Rightarrow> (Err e, t, w)
         | (Panic, w) \<Rightarrow> (Panic, t, w))"

text \<open>The read posted when the space left is getting low; its failure marks the peer disconnected.\<close>

definition rr_proactive_read ::
    "'n nic \<Rightarrow> nat \<Rightarrow> read_ring \<Rightarrow> 'n world \<Rightarrow> unit res \<times> read_ring \<times> 'n world" where
  "rr_proactive_read nic data_len t w =
     (if rr_read_in_flight t then (Ok (), t, w)
      else
        and_then (remote_free_space t, t, w) (\<lambda>remaining (t, w).
          if remaining < data_len * 2 + rg_min_free_threshold (rr_config t) then
            (case post_offset_read nic t w of
               (Err e, t, w) \<Rightarrow> (Ok (), t\<lparr>rr_peer_disconnected := True\<rparr>, w)
             | (r, t, w) \<Rightarrow> (r, t, w))
          else (Ok (), t, w)))"

text \<open>The copy, the data write and the proactive read.\<close>

definition rr_post_data ::
    "'n nic \<Rightarrow> bytes list \<Rightarrow> nat \<Rightarrow> nat \<Rightarrow> nat \<Rightarrow> read_ring \<Rightarrow> 'n world \<Rightarrow> nat res \<times> read_ring \<times> 'n world" where
  "rr_post_data nic bufs local_offset padding data_len t w =
     (let m = rb_mr (rr_send_ring t) in
      if local_offset + data_len > length (mr_bytes m) then (Panic, t, w)
      else
        let (_, content) = gather_into (slice (mr_bytes m) local_offset (local_offset + data_len)) bufs;
            m = m\<lparr>mr_bytes := upd_range (mr_bytes m) local_offset content\<rparr>;
            t = t\<lparr>rr_send_ring := (rr_send_ring t)\<lparr>rb_mr := m\<rparr>\<rparr>;
            remote_offset = rr_remote_write_tail t;
            imm = encode_ring_imm remote_offset data_len;
            sg = \<lparr>sge_addr = mr_addr m + word_of_nat local_offset, sge_length = word_of_nat data_len,
                  sge_lkey = mr_lkey m\<rparr>;
            release_len = padding + data_len;
            wr = wr_rdma (rr_remote_addr t + word_of_nat remote_offset) (rr_remote_rkey t)
              (wr_sg sg (wr_signaled (send_wr_new (word_of_nat release_len) (WrRdmaWriteWithImm imm))))
        in case post_send_wr nic (rr_qp t) wr w of
             (Ok _, w) \<Rightarrow>
               if rr_remote_capacity t = 0 then (Panic, t, w)
               else
                 let t = t\<lparr>rr_remote_write_tail := (remote_offset + data_len) mod rr_remote_capacity t,
                           rr_send_in_flight := rr_send_in_flight t + 1\<rparr>
                 in and_then (rr_proactive_read nic data_len t w) (\<lambda>_ (t, w).
                      (if rr_send_in_flight t + of_bool (rr_read_in_flight t) \<le> rr_sq_capacity t
                       then Ok data_len else Panic, t, w))
           | (Err e, w) \<Rightarrow> (Err e, t, w)
           | (Panic, w) \<Rightarrow> (Panic, t, w))"

text \<open>A send with \<open>free\<close> bytes free in the peer's ring: reserve, or wait for the peer's head.\<close>

definition rr_send_in_space ::
    "'n nic \<Rightarrow> bytes list \<Rightarrow> nat \<Rightarrow> nat \<Rightarrow> read_ring \<Rightarrow> 'n world \<Rightarrow> nat res \<times> read_ring \<times> 'n world" where
  "rr_send_in_space nic bufs data_len free t w =
     (let threshold = rg_min_free_threshold (rr_config t) in
      if free < data_len + threshold then rr_blocked nic t w
      else
        case reserve data_len (rr_send_ring t) of
          (None, _) \<Rightarrow> (Ok 0, t, w)
        | (Some (local_offset, padding), r) \<Rightarrow>
            let t = t\<lparr>rr_send_ring := r\<rparr> in
            if padding > 0 \<and> free < padding + data_len + threshold then
              rr_blocked nic
                (t\<lparr>rr_send_ring := r\<lparr>rb_tail :=
                    (if local_offset = 0 then rb_capacity r - padding else local_offset)\<rparr>\<rparr>) w
            else
              and_then (if padding > 0 then rr_post_padding nic t w else (Ok (), t, w))
                (\<lambda>_ (t, w). rr_post_data nic bufs local_offset padding data_len t w))"

definition rr_send_gather ::
    "'n nic \<Rightarrow> bytes list \<Rightarrow> read_ring \<Rightarrow> 'n world \<Rightarrow> nat res \<times> read_ring \<times> 'n world" where
  "rr_send_gather nic bufs t w =
     (if rr_peer_disconnected t then (Err (WorkCompletionErr 5 0), t, w)
      else
        let total_len = sum_list (map length bufs);
            sq_used = rr_send_in_flight t + of_bool (rr_read_in_flight t) in
        if total_len = 0 then (Ok 0, t, w)
        else if sq_used + SEND_COPY_MAX_WRS > rr_max_outstanding t then rr_blocked nic t w
        else
          and_then (remote_free_space t, t, w) (\<lambda>free (t, w).
            let data_len = min (min (min total_len (rg_max_message_size (rr_config t)))
                                 (rr_remote_capacity t)) 0xFFFF
            in rr_send_in_space nic bufs data_len free t w))"

definition rr_send_copy ::
    "'n nic \<Rightarrow> bytes \<Rightarrow> read_ring \<Rightarrow> 'n world \<Rightarrow> nat res \<times> read_ring \<times> 'n world" where
  "rr_send_copy nic data t w = rr_send_gather nic [data] t w"

text \<open>The loop over a batch of send completions; every successful one is progress.\<close>

fun rr_reap_sends :: "'n nic \<Rightarrow> wc list \<Rightarrow> bool \<Rightarrow> read_ring \<Rightarrow> 'n world \<Rightarrow> bool res \<times> read_ring" where
  "rr_reap_sends nic [] got_write t w = (Ok got_write, t)"
| "rr_reap_sends nic (c # cs) got_write t w =
     (if \<not> is_success c then (Err (wc_error c), t\<lparr>rr_peer_disconnected := True\<rparr>)
      else if wr_id c = WR_ID_READ_SENTINEL then
        and_then (update_cached_remote_head nic t w) (\<lambda>_ t.
          rr_reap_sends nic cs True (t\<lparr>rr_read_in_flight := False\<rparr>) w)
      else if wr_id c = WR_ID_PADDING_SENTINEL then
        rr_reap_sends nic cs True (t\<lparr>rr_send_in_flight := rr_send_in_flight t - 1\<rparr>) w
      else
        let data_len = unat (wr_id c);
            t = (if data_len > 0 \<and> data_len \<le> rb_capacity (rr_send_ring t) then
                   t\<lparr>rr_send_ring := release data_len (rr_send_ring t)\<rparr> else t)
        in rr_reap_sends nic cs True (t\<lparr>rr_send_in_flight := rr_send_in_flight t - 1\<rparr>) w)"

definition rr_poll_send_body ::
    "'n nic \<Rightarrow> nat \<Rightarrow> read_ring \<times> 'n world \<Rightarrow>
       ((read_ring \<times> 'n world) + (unit res poll \<times> read_ring \<times> 'n world)) option" where
  "rr_poll_send_body nic task s =
     (let (t, w) = s in
      case poll_completions nic task 8 (rr_send_src t) w of
        None \<Rightarrow> None
      | Some (p, src, w) \<Rightarrow>
          let t = t\<lparr>rr_send_src := src\<rparr> in
          (case p of
             Pending \<Rightarrow> Some (Inr (Pending, t, w))
           | Ready (Err e) \<Rightarrow> Some (Inr (Ready (Err e), t, w))
           | Ready Panic \<Rightarrow> Some (Inr (Ready Panic, t, w))
           | Ready (Ok wcs) \<Rightarrow>
               (case rr_reap_sends nic wcs False t w of
                  (Ok got_write, t) \<Rightarrow>
                    Some (if got_write then Inr (Ready (Ok ()), t, w) else Inl (t, w))
                | (Err e, t) \<Rightarrow> Some (Inr (Ready (Err e), t, w))
                | (Panic, t) \<Rightarrow> Some (Inr (Ready Panic, t, w)))))"

definition rr_poll_send_completion ::
    "'n nic \<Rightarrow> nat \<Rightarrow> read_ring \<Rightarrow> 'n world \<Rightarrow> (unit res poll \<times> read_ring \<times> 'n world) option" where
  "rr_poll_send_completion nic task t w = loop (rr_poll_send_body nic task) (t, w)"

definition rr_sends_in_flight :: "read_ring \<Rightarrow> nat" where
  "rr_sends_in_flight t = rr_send_in_flight t"

definition rr_recv_window :: "read_ring \<Rightarrow> nat" where
  "rr_recv_window t = rr_max_outstanding t"

subsection \<open>Receiving\<close>

text \<open>Releasing arrival number \<open>sq\<close>: the tracker, then the head.\<close>

definition rr_release_seq :: "nat \<Rightarrow> read_ring \<Rightarrow> unit res \<times> read_ring" where
  "rr_release_seq sq t =
     (if rr_max_outstanding t = 0 then (Panic, t)
      else
        let (r, tr) = tracker_release (sq mod rr_max_outstanding t) (rr_recv_tracker t);
            t = t\<lparr>rr_recv_tracker := tr\<rparr>
        in case r of
             Ok contiguous \<Rightarrow> if contiguous > 0 then advance_recv_head contiguous t else (Ok (), t)
           | Err e \<Rightarrow> (Err e, t)
           | Panic \<Rightarrow> (Panic, t))"

text \<open>A padding marker at \<open>offset\<close>: the skipped bytes up to the end are its length.\<close>

definition rr_take_padding ::
    "'n nic \<Rightarrow> nat \<Rightarrow> read_ring \<Rightarrow> 'n world \<Rightarrow> unit res \<times> read_ring \<times> 'n world" where
  "rr_take_padding nic offset t w =
     (let pad_len = rb_capacity (rr_recv_ring t) - offset in
      case rr_repost_doorbell nic t w of
        (Err e, t, w) \<Rightarrow>
          (Err (InvalidArg ''repost_doorbell failed''), t\<lparr>rr_peer_disconnected := True\<rparr>, w)
      | (Panic, t, w) \<Rightarrow> (Panic, t, w)
      | (Ok _, t, w) \<Rightarrow>
          let sq = rr_recv_arrival_seq t;
              t = t\<lparr>rr_recv_arrival_seq := sq + 1\<rparr>;
              slot = sq mod rr_max_outstanding t in
          if rr_max_outstanding t = 0 \<or> slot \<ge> length (rr_slot_lengths t) then (Panic, t, w)
          else
            let (r, t) = rr_release_seq sq (t\<lparr>rr_slot_lengths := (rr_slot_lengths t)[slot := pad_len]\<rparr>)
            in (r, t, w))"

text \<open>A message: it takes a virtual index and an arrival number, and the doorbell is reposted at once.\<close>

definition rr_take_data ::
    "'n nic \<Rightarrow> nat \<Rightarrow> nat \<Rightarrow> read_ring \<Rightarrow> 'n world \<Rightarrow> recv_completion res \<times> read_ring \<times> 'n world" where
  "rr_take_data nic offset len t w =
     (case find_virt (rr_max_outstanding t) (rr_virtual_idx_map t) (rr_max_outstanding t)
             (rr_next_virt_idx t) of
        Ok None \<Rightarrow>
          (Err (InvalidArg ''recv virtual index map exhausted''), t\<lparr>rr_peer_disconnected := True\<rparr>, w)
      | Ok (Some v) \<Rightarrow>
          let sq = rr_recv_arrival_seq t;
              slot = sq mod rr_max_outstanding t;
              t = t\<lparr>rr_recv_arrival_seq := sq + 1,
                    rr_virtual_idx_map := (rr_virtual_idx_map t)[v := Some (offset, len, sq)]\<rparr> in
          if slot \<ge> length (rr_slot_lengths t) then (Panic, t, w)
          else
            let t = t\<lparr>rr_slot_lengths := (rr_slot_lengths t)[slot := len],
                      rr_next_virt_idx := (v + 1) mod rr_max_outstanding t\<rparr> in
            (case rr_repost_doorbell nic t w of
               (Ok _, t, w) \<Rightarrow> (Ok \<lparr>rc_buf_idx = v, rc_byte_len = len\<rparr>, t, w)
             | (Err e, t, w) \<Rightarrow>
                 (Err (InvalidArg ''repost_doorbell failed''), t\<lparr>rr_peer_disconnected := True\<rparr>, w)
             | (Panic, t, w) \<Rightarrow> (Panic, t, w))
      | Err e \<Rightarrow> (Err e, t, w)
      | Panic \<Rightarrow> (Panic, t, w))"

fun rr_recv_loop ::
    "'n nic \<Rightarrow> nat \<Rightarrow> wc list \<Rightarrow> recv_completion list \<Rightarrow> bool \<Rightarrow> read_ring \<Rightarrow> 'n world \<Rightarrow>
       (recv_completion list \<times> bool) res \<times> read_ring \<times> 'n world" where
  "rr_recv_loop nic room [] out got_data t w = (Ok (out, got_data), t, w)"
| "rr_recv_loop nic room (c # cs) out got_data t w =
     (if \<not> is_success c then (Err (wc_error c), t\<lparr>rr_peer_disconnected := True\<rparr>, w)
      else if opcode c = WcRecvRdmaWithImm then
        (let (offset, len) = decode_ring_imm (imm_data c) in
         if offset \<ge> rb_capacity (rr_recv_ring t)
            \<or> (len > 0 \<and> offset + len > rb_capacity (rr_recv_ring t)) then
           (Err (InvalidArg ''recv ring offset/length out of bounds''),
            t\<lparr>rr_peer_disconnected := True\<rparr>, w)
         else if len = 0 then
           (case rr_take_padding nic offset t w of
              (Ok _, t, w) \<Rightarrow> rr_recv_loop nic room cs out got_data t w
            | (Err e, t, w) \<Rightarrow> (Err e, t, w)
            | (Panic, t, w) \<Rightarrow> (Panic, t, w))
         else
           (case rr_take_data nic offset len t w of
              (Ok rc, t, w) \<Rightarrow>
                if length out < room then rr_recv_loop nic room cs (out @ [rc]) True t w
                else rr_recv_loop nic room cs out True
                       (t\<lparr>rr_recv_stash := rr_recv_stash t @ [rc]\<rparr>) w
            | (Err e, t, w) \<Rightarrow> (Err e, t, w)
            | (Panic, t, w) \<Rightarrow> (Panic, t, w)))
      else rr_recv_loop nic room cs out got_data t w)"

definition rr_poll_recv_body ::
    "'n nic \<Rightarrow> nat \<Rightarrow> nat \<Rightarrow> recv_completion list \<times> read_ring \<times> 'n world \<Rightarrow>
       ((recv_completion list \<times> read_ring \<times> 'n world)
        + (recv_completion list res poll \<times> read_ring \<times> 'n world)) option" where
  "rr_poll_recv_body nic task room s =
     (let (out, t, w) = s in
      case poll_completions nic task 8 (rr_recv_src t) w of
        None \<Rightarrow> None
      | Some (p, src, w) \<Rightarrow>
          let t = t\<lparr>rr_recv_src := src\<rparr> in
          (case p of
             Pending \<Rightarrow> Some (Inr (if length out > 0 then Ready (Ok out) else Pending, t, w))
           | Ready (Err e) \<Rightarrow> Some (Inr (Ready (Err e), t, w))
           | Ready Panic \<Rightarrow> Some (Inr (Ready Panic, t, w))
           | Ready (Ok wcs) \<Rightarrow>
               (case rr_recv_loop nic room wcs out False t w of
                  (Err e, t, w) \<Rightarrow> Some (Inr (Ready (Err e), t, w))
                | (Panic, t, w) \<Rightarrow> Some (Inr (Ready Panic, t, w))
                | (Ok (out, got_data), t, w) \<Rightarrow>
                    if length out > 0 \<or> got_data then Some (Inr (Ready (Ok out), t, w))
                    else Some (Inl (out, t, w)))))"

definition rr_poll_recv ::
    "'n nic \<Rightarrow> nat \<Rightarrow> nat \<Rightarrow> read_ring \<Rightarrow> 'n world \<Rightarrow>
       (recv_completion list res poll \<times> read_ring \<times> 'n world) option" where
  "rr_poll_recv nic task room t w =
     (let out = take room (rr_recv_stash t);
          t = t\<lparr>rr_recv_stash := drop room (rr_recv_stash t)\<rparr>
      in if length out \<ge> room then Some (Ready (Ok out), t, w)
         else loop (rr_poll_recv_body nic task room) (out, t, w))"

definition rr_recv_buf :: "'n nic \<Rightarrow> nat \<Rightarrow> read_ring \<Rightarrow> 'n world \<Rightarrow> bytes res" where
  "rr_recv_buf nic buf_idx t w =
     (if buf_idx \<ge> length (rr_virtual_idx_map t) then Panic
      else
        case rr_virtual_idx_map t ! buf_idx of
          None \<Rightarrow> Panic
        | Some (offset, len, _) \<Rightarrow>
            let mem = host_memory nic (rb_mr (rr_recv_ring t)) (hw w) in
            if offset + len > length mem then Panic else Ok (slice mem offset (offset + len)))"

definition rr_repost_recv :: "nat \<Rightarrow> read_ring \<Rightarrow> 'n world \<Rightarrow> unit res \<times> read_ring \<times> 'n world" where
  "rr_repost_recv buf_idx t w =
     (if buf_idx \<ge> length (rr_virtual_idx_map t) then (Panic, t, w)
      else
        case rr_virtual_idx_map t ! buf_idx of
          None \<Rightarrow> (Panic, t, w)
        | Some (_, _, arrival_seq) \<Rightarrow>
            let (r, t) = rr_release_seq arrival_seq
                  (t\<lparr>rr_virtual_idx_map := (rr_virtual_idx_map t)[buf_idx := None]\<rparr>)
            in (r, t, w))"

subsection \<open>Disconnect and drop\<close>

definition rr_poll_disconnect ::
    "'n nic \<Rightarrow> read_ring \<Rightarrow> 'n world \<Rightarrow> (bool \<times> read_ring \<times> 'n world) option" where
  "rr_poll_disconnect nic t w =
     map_option (\<lambda>(b, pd, w). (b, t\<lparr>rr_peer_disconnected := pd\<rparr>, w))
       (poll_cm_disconnect nic (rr_event_channel t) (rr_peer_disconnected t) w)"

definition rr_disconnect :: "'n nic \<Rightarrow> read_ring \<Rightarrow> 'n world \<Rightarrow> unit res \<times> read_ring \<times> 'n world" where
  "rr_disconnect nic t w =
     (if \<not> rr_disconnected t then
        (case cm_disconnect nic (rr_cm_id t) w of
           (Ok _, w) \<Rightarrow> (Ok (), t\<lparr>rr_disconnected := True\<rparr>, w)
         | (Err e, w) \<Rightarrow> (Err e, t, w)
         | (Panic, w) \<Rightarrow> (Panic, t, w))
      else (Ok (), t, w))"

text \<open>The bounded drain: what is still expected on each queue, \<open>k\<close> polls left.\<close>

definition drain_side :: "'n nic \<Rightarrow> source \<Rightarrow> nat \<Rightarrow> 'n world \<Rightarrow> nat \<times> 'n world" where
  "drain_side nic src expected w =
     (if expected > 0 then
        (case try_drain nic 16 src w of
           (Ok wcs, w) \<Rightarrow> (expected - length wcs, w)
         | (_, w) \<Rightarrow> (0, w))
      else (expected, w))"

fun teardown_loop :: "'n nic \<Rightarrow> nat \<Rightarrow> source \<Rightarrow> source \<Rightarrow> nat \<Rightarrow> nat \<Rightarrow> 'n world \<Rightarrow> nat \<times> nat \<times> 'n world" where
  "teardown_loop nic 0 ssrc rsrc s r w = (s, r, w)"
| "teardown_loop nic (Suc k) ssrc rsrc s r w =
     (if s = 0 \<and> r = 0 then (s, r, w)
      else
        let (s, w) = drain_side nic ssrc s w;
            (r, w) = drain_side nic rsrc r w
        in teardown_loop nic k ssrc rsrc s r w)"

definition drain_teardown :: "'n nic \<Rightarrow> read_ring \<Rightarrow> 'n world \<Rightarrow> nat \<times> nat \<times> 'n world" where
  \<comment> \<open>what was not reaped on either queue, and the world\<close>
  "drain_teardown nic t w =
     (let w = (if \<not> rr_disconnected t then snd (cm_disconnect nic (rr_cm_id t) w) else w);
          w = snd (to_error nic (rr_qp t) w)
      in teardown_loop nic TEARDOWN_DRAIN_POLLS (rr_send_src t) (rr_recv_src t)
           (rr_send_in_flight t + of_bool (rr_read_in_flight t)) (rr_max_outstanding t) w)"

definition rr_drop ::
    "'n nic \<Rightarrow> read_ring_transport \<Rightarrow> core_driver option \<times> 'n world \<Rightarrow>
       read_ring_transport \<times> core_driver option \<times> 'n world" where
  "rr_drop nic rt s =
     (let (driver, w) = s in
      case rt_inner rt of
        None \<Rightarrow> (rt, driver, w)
      | Some t \<Rightarrow>
          let lc = rt_lifecycle rt; rt = \<lparr>rt_inner = None, rt_lifecycle = LcArmPark\<rparr> in
          (case lc of
             LcBusy i lease \<Rightarrow>
               let w = upd_slot i (set_state Closing) w;
                   w = (if \<not> rr_disconnected t then snd (cm_disconnect nic (rr_cm_id t) w) else w);
                   w = snd (to_error nic (rr_qp t) w)
               in (rt, map_option (reclaim i (unat (aq_qpn (rr_qp t))) lease) driver, w)
           | LcArmPark \<Rightarrow> (rt, driver, snd (snd (drain_teardown nic t w)))))"

text \<open>The wrapper's methods delegate to the inner transport, which must not have been taken.\<close>

definition rt_delegate ::
    "(read_ring \<Rightarrow> 'n world \<Rightarrow> 'a res \<times> read_ring \<times> 'n world) \<Rightarrow> read_ring_transport \<Rightarrow> 'n world \<Rightarrow>
       'a res \<times> read_ring_transport \<times> 'n world" where
  "rt_delegate f rt w =
     (case rt_inner rt of
        None \<Rightarrow> (Panic, rt, w)
      | Some t \<Rightarrow> let (r, t, w) = f t w in (r, rt\<lparr>rt_inner := Some t\<rparr>, w))"

end
