(* ===== verification/ReadRingInv.thy ===== *)
theory ReadRingInv
  imports ReadRing Tracker
begin

section \<open>The read ring: invariants and properties\<close>

text \<open>
  What holds of the read-ring transport on its own completion queues, over any device that
  completes send requests in order and refuses a post only when its queue is full: data and
  padding writes and the one outstanding read fit the send queue, so no post is refused; the
  send ring holds exactly the data writes the device still owns; the receive head moves over
  exactly the messages released. A peer that publishes a head beyond its ring can make a send
  panic; nothing else can.
\<close>

subsection \<open>Well-formed receive side\<close>

definition rr_rwf :: "read_ring \<Rightarrow> bool" where
  "rr_rwf t \<longleftrightarrow>
     0 < rr_max_outstanding t \<and> length (rr_virtual_idx_map t) = rr_max_outstanding t
     \<and> rr_next_virt_idx t < rr_max_outstanding t \<and> tracker_wf (rr_recv_tracker t)
     \<and> ct_capacity (rr_recv_tracker t) = rr_max_outstanding t
     \<and> length (rr_slot_lengths t) = rr_max_outstanding t \<and> rr_head_slot_idx t < rr_max_outstanding t
     \<and> rr_doorbell_repost_idx t < length (rr_doorbell_bufs t) \<and> ring_wf (rr_recv_ring t)"

text \<open>Writes and the read the device owns are counted.\<close>

definition rr_counts :: "read_ring \<Rightarrow> u64 list \<Rightarrow> bool" where
  "rr_counts t ids \<longleftrightarrow>
     length (filter (\<lambda>i. i \<noteq> WR_ID_READ_SENTINEL) ids) \<le> rr_send_in_flight t
     \<and> length (filter (\<lambda>i. i = WR_ID_READ_SENTINEL) ids) \<le> of_bool (rr_read_in_flight t)"

definition rr_ready :: "'n nic \<Rightarrow> nat \<Rightarrow> ('n \<Rightarrow> u64 list) \<Rightarrow> read_ring \<times> 'n world \<Rightarrow> bool" where
  "rr_ready nic scq sq s \<longleftrightarrow>
     (case s of (t, w) \<Rightarrow>
        fifo_contract nic (aq_qpn (rr_qp t)) scq (rr_sq_capacity t) sq \<and> rr_rwf t
        \<and> rr_sq_capacity t = rr_max_outstanding t + READ_RING_SQ_HEADROOM
        \<and> rr_send_in_flight t \<le> rr_max_outstanding t \<and> rr_counts t (sq (hw w)))"

lemma rr_counts_length: "rr_counts t ids \<Longrightarrow> length ids \<le> rr_send_in_flight t + of_bool (rr_read_in_flight t)"
  using sum_length_filter_compl [of "\<lambda>i. i \<noteq> WR_ID_READ_SENTINEL" ids] by (simp add: rr_counts_def)

text \<open>The parts of the transport that receiving leaves alone.\<close>

definition rr_fixed :: "read_ring \<Rightarrow> ring_buffer \<times> async_qp \<times> nat \<times> source \<times> source \<times> nat
    \<times> read_ring_config \<times> nat \<times> nat \<times> bool \<times> nat \<times> nat \<times> mr" where
  "rr_fixed t = (rr_send_ring t, rr_qp t, rr_sq_capacity t, rr_send_src t, rr_recv_src t,
     rr_max_outstanding t, rr_config t, rr_remote_capacity t, rr_send_in_flight t, rr_read_in_flight t,
     rr_cached_remote_head t, rr_remote_write_tail t, rr_read_buf t)"

definition rr_rx :: "('n \<Rightarrow> u64 list) \<Rightarrow> read_ring \<times> 'n world \<Rightarrow> read_ring \<times> 'n world \<Rightarrow> bool" where
  "rr_rx sq s s' \<longleftrightarrow>
     (case (s, s') of ((t, w), (t', w')) \<Rightarrow>
        rr_fixed t' = rr_fixed t \<and> (rr_rwf t \<longrightarrow> rr_rwf t')
        \<and> (rr_peer_disconnected t \<longrightarrow> rr_peer_disconnected t') \<and> sq (hw w') = sq (hw w))"

lemma rr_rx_refl [simp]: "rr_rx sq s s"
  by (cases s) (simp add: rr_rx_def)

lemma rr_rx_trans: "rr_rx sq s1 s2 \<Longrightarrow> rr_rx sq s2 s3 \<Longrightarrow> rr_rx sq s1 s3"
  by (cases s1; cases s2; cases s3) (auto simp: rr_rx_def)

lemma rr_rx_ready: "rr_ready nic scq sq s \<Longrightarrow> rr_rx sq s s' \<Longrightarrow> rr_ready nic scq sq s'"
  by (cases s; cases s') (auto simp: rr_ready_def rr_rx_def rr_fixed_def rr_counts_def)

lemma rr_rx_local:
  assumes "rr_fixed t' = rr_fixed t" "rr_rwf t \<Longrightarrow> rr_rwf t'"
    "rr_peer_disconnected t \<Longrightarrow> rr_peer_disconnected t'" "sq (hw w') = sq (hw w)"
  shows "rr_rx sq (t, w) (t', w')"
  using assms by (simp add: rr_rx_def)

lemma rr_rx_disconnect: "rr_rx sq s (t, w) \<Longrightarrow> rr_rx sq s (t\<lparr>rr_peer_disconnected := True\<rparr>, w)"
  by (erule rr_rx_trans) (rule rr_rx_local, simp_all add: rr_fixed_def rr_rwf_def)

lemma rr_repost_doorbell_rx:
  assumes "rr_ready nic scq sq (t, w)" "rr_repost_doorbell nic t w = (r, t', w')"
  shows "r \<noteq> Panic \<and> rr_rx sq (t, w) (t', w')"
proof -
  obtain r1 idx w1 where p: "repost_doorbell nic (rr_qp t) (rr_doorbell_bufs t) (rr_doorbell_repost_idx t) w
      = (r1, idx, w1)" by (rule prod_cases3)
  have q: "quiet nic sq" and db: "rr_doorbell_repost_idx t < length (rr_doorbell_bufs t)"
    using assms(1) by (auto simp: rr_ready_def rr_rwf_def dest: fifo_quiet)
  from repost_doorbell_out [OF q db p] p assms(2) show ?thesis
    by (auto simp: rr_repost_doorbell_def intro!: rr_rx_local simp: rr_fixed_def rr_rwf_def)
qed

text \<open>
  Advancing the head by \<open>k\<close> slots: the ring's head moves by the sum of their lengths and is
  published in the offset buffer.
\<close>

definition slot_sum :: "nat list \<Rightarrow> nat \<Rightarrow> nat \<Rightarrow> nat" where
  "slot_sum ls h k = sum_list (map (\<lambda>i. ls ! ((h + i) mod length ls)) [0..<k])"

lemma advance_loop_eq:
  "rr_head_slot_idx t < length (rr_slot_lengths t) \<Longrightarrow> length (rr_slot_lengths t) = rr_max_outstanding t \<Longrightarrow>
     rb_head (rr_recv_ring t) < rb_capacity (rr_recv_ring t) \<Longrightarrow>
     advance_loop k t = (Ok (), t\<lparr>rr_recv_ring := release (slot_sum (rr_slot_lengths t) (rr_head_slot_idx t) k)
            (rr_recv_ring t),
          rr_head_slot_idx := (rr_head_slot_idx t + k) mod rr_max_outstanding t\<rparr>)"
proof (induction k arbitrary: t)
  case 0
  then show ?case by (simp add: slot_sum_def release_def)
next
  case (Suc k)
  let ?n = "rr_max_outstanding t" and ?ls = "rr_slot_lengths t" and ?h = "rr_head_slot_idx t"
  let ?t = "t\<lparr>rr_recv_ring := release (?ls ! ?h) (rr_recv_ring t), rr_head_slot_idx := (?h + 1) mod ?n\<rparr>"
  have n: "0 < ?n" using Suc.prems by linarith
  have "slot_sum ?ls ?h (Suc k) = ?ls ! ?h + slot_sum ?ls ((?h + 1) mod ?n) k"
    using Suc.prems(1,2)
    by (simp add: slot_sum_def upt_conv_Cons map_Suc_upt [symmetric] o_def mod_simps del: upt_Suc)
  moreover have "advance_loop k ?t = (Ok (), ?t\<lparr>rr_recv_ring :=
        release (slot_sum ?ls ((?h + 1) mod ?n) k) (rr_recv_ring ?t),
      rr_head_slot_idx := ((?h + 1) mod ?n + k) mod ?n\<rparr>)"
    using Suc.IH [of ?t] Suc.prems n by (simp add: release_def)
  ultimately show ?case
    using Suc.prems(1) by (simp add: release_def mod_simps add.assoc)
qed

lemma advance_recv_head_eq:
  assumes "rr_rwf t"
  shows "advance_recv_head k t =
    (let ring = release (slot_sum (rr_slot_lengths t) (rr_head_slot_idx t) k) (rr_recv_ring t) in
     (Ok (), t\<lparr>rr_recv_ring := ring, rr_head_slot_idx := (rr_head_slot_idx t + k) mod rr_max_outstanding t,
               rr_offset_buffer := word_of_nat (rb_head ring)\<rparr>))"
  using assms by (simp add: advance_recv_head_def advance_loop_eq rr_rwf_def ring_wf_def Let_def)

lemma rr_release_seq_rx:
  assumes "rr_ready nic scq sq (t, w)" "rr_release_seq n t = (r, t')"
  shows "r = Ok () \<and> rr_rx sq (t, w) (t', w)"
proof -
  have wf: "rr_rwf t" using assms(1) by (simp add: rr_ready_def)
  then have m: "n mod rr_max_outstanding t < ct_capacity (rr_recv_tracker t)" by (simp add: rr_rwf_def)
  from tracker_release_eq [OF _ m] wf obtain k tr
    where tr: "tracker_release (n mod rr_max_outstanding t) (rr_recv_tracker t) = (Ok k, tr)" "tracker_wf tr"
      "ct_capacity tr = rr_max_outstanding t" by (auto simp: rr_rwf_def chased_def Let_def)
  let ?t1 = "t\<lparr>rr_recv_tracker := tr\<rparr>"
  have wf1: "rr_rwf ?t1" using wf tr by (simp add: rr_rwf_def)
  have "r = Ok ()" "rr_fixed t' = rr_fixed t" "rr_rwf t'" "rr_peer_disconnected t' = rr_peer_disconnected t"
    using assms(2) tr wf wf1 ring_wf_release
    by (auto simp: rr_release_seq_def advance_recv_head_eq [OF wf1] Let_def rr_fixed_def rr_rwf_def split: if_splits)
  then show ?thesis by (auto intro!: rr_rx_local)
qed

lemma rr_take_padding_rx:
  assumes "rr_ready nic scq sq (t, w)" "rr_take_padding nic offset t w = (r, t', w')"
  shows "r \<noteq> Panic \<and> rr_rx sq (t, w) (t', w')"
proof -
  obtain r1 t1 w1 where p: "rr_repost_doorbell nic t w = (r1, t1, w1)" by (rule prod_cases3)
  note s1 = rr_repost_doorbell_rx [OF assms(1) p]
  let ?n = "rr_recv_arrival_seq t1"
  let ?t1 = "t1\<lparr>rr_recv_arrival_seq := ?n + 1, rr_slot_lengths :=
      (rr_slot_lengths t1)[?n mod rr_max_outstanding t1 := rb_capacity (rr_recv_ring t) - offset]\<rparr>"
  have s2: "rr_rx sq (t, w) (?t1, w1)"
    by (rule rr_rx_trans [OF conjunct2 [OF s1]]) (rule rr_rx_local, simp_all add: rr_fixed_def rr_rwf_def)
  have wf: "rr_max_outstanding t1 \<noteq> 0" "length (rr_slot_lengths t1) = rr_max_outstanding t1"
    using rr_rx_ready [OF assms(1) conjunct2 [OF s1]] by (auto simp: rr_ready_def rr_rwf_def)
  have lt: "\<not> rr_max_outstanding t1 \<le> ?n mod rr_max_outstanding t1" using wf(1) by (simp add: not_le)
  obtain r2 t2 where q: "rr_release_seq ?n ?t1 = (r2, t2)" by (rule prod.exhaust)
  note s3 = rr_release_seq_rx [OF rr_rx_ready [OF assms(1) s2] q]
  show ?thesis
    using assms(2) p q s1 s3 wf lt rr_rx_trans [OF s2, of "(t2, w1)"]
    by (cases r1) (auto simp: rr_take_padding_def Let_def intro: rr_rx_disconnect)
qed

lemma rr_take_data_rx:
  assumes "rr_ready nic scq sq (t, w)" "rr_take_data nic offset len t w = (r, t', w')"
  shows "r \<noteq> Panic \<and> rr_rx sq (t, w) (t', w')"
proof -
  have wf: "rr_rwf t" using assms(1) by (simp add: rr_ready_def)
  let ?n = "rr_max_outstanding t" and ?k = "rr_recv_arrival_seq t"
  from wf find_virt_Ok [of "rr_virtual_idx_map t" ?n "rr_next_virt_idx t" ?n]
  obtain x where x: "find_virt ?n (rr_virtual_idx_map t) ?n (rr_next_virt_idx t) = Ok x" by (auto simp: rr_rwf_def)
  show ?thesis
  proof (cases x)
    case None
    with assms(2) x show ?thesis by (auto simp: rr_take_data_def intro: rr_rx_disconnect)
  next
    case (Some v)
    let ?t = "t\<lparr>rr_recv_arrival_seq := ?k + 1,
        rr_virtual_idx_map := (rr_virtual_idx_map t)[v := Some (offset, len, ?k)],
        rr_slot_lengths := (rr_slot_lengths t)[?k mod ?n := len], rr_next_virt_idx := (v + 1) mod ?n\<rparr>"
    have s1: "rr_rx sq (t, w) (?t, w)"
      by (rule rr_rx_local) (simp_all add: rr_fixed_def rr_rwf_def)
    obtain r1 t1 w1 where p: "rr_repost_doorbell nic ?t w = (r1, t1, w1)" by (rule prod_cases3)
    note s2 = rr_repost_doorbell_rx [OF rr_rx_ready [OF assms(1) s1] p]
    have "\<not> length (rr_slot_lengths t) \<le> ?k mod ?n" using wf by (simp add: rr_rwf_def not_le)
    with assms(2) x Some p s2 rr_rx_trans [OF s1] show ?thesis
      by (cases r1) (auto simp: rr_take_data_def Let_def intro: rr_rx_disconnect)
  qed
qed

lemma rr_recv_loop_rx:
  "rr_ready nic scq sq (t, w) \<Longrightarrow> rr_recv_loop nic room wcs out gd t w = (r, t', w') \<Longrightarrow>
     r \<noteq> Panic \<and> rr_rx sq (t, w) (t', w')"
proof (induction wcs arbitrary: t w out gd)
  case Nil
  then show ?case by auto
next
  case (Cons c cs)
  note rdy = Cons.prems(1)
  have cont: ?case if "rr_rx sq (t, w) (t1, w1)" "rr_recv_loop nic room cs o1 d1 t1 w1 = (r, t', w')" for t1 w1 o1 d1
    using Cons.IH [OF rr_rx_ready [OF rdy that(1)] that(2)] rr_rx_trans [OF that(1)] by blast
  obtain offset len where d: "decode_ring_imm (imm_data c) = (offset, len)" by (rule prod.exhaust)
  let ?oob = "offset \<ge> rb_capacity (rr_recv_ring t) \<or> (len > 0 \<and> offset + len > rb_capacity (rr_recv_ring t))"
  consider (bad) "\<not> is_success c"
    | (oob) "is_success c" "opcode c = WcRecvRdmaWithImm" "?oob"
    | (pad) "is_success c" "opcode c = WcRecvRdmaWithImm" "\<not> ?oob" "len = 0"
    | (data) "is_success c" "opcode c = WcRecvRdmaWithImm" "\<not> ?oob" "len \<noteq> 0"
    | (other) "is_success c" "opcode c \<noteq> WcRecvRdmaWithImm" by blast
  then show ?case
  proof cases
    case bad
    with Cons.prems(2) show ?thesis by (auto intro: rr_rx_disconnect)
  next
    case oob
    with d Cons.prems(2) show ?thesis by (auto intro: rr_rx_disconnect)
  next
    case pad
    obtain r1 t1 w1 where p: "rr_take_padding nic offset t w = (r1, t1, w1)" by (rule prod_cases3)
    note s1 = rr_take_padding_rx [OF rdy p]
    show ?thesis using pad d p s1 Cons.prems(2) cont by (cases r1) auto
  next
    case data
    obtain r1 t1 w1 where p: "rr_take_data nic offset len t w = (r1, t1, w1)" by (rule prod_cases3)
    note s1 = rr_take_data_rx [OF rdy p]
    show ?thesis
    proof (cases r1)
      case (Ok rc)
      have "rr_rx sq (t, w) (t1\<lparr>rr_recv_stash := rr_recv_stash t1 @ [rc]\<rparr>, w1)"
        by (rule rr_rx_trans [OF conjunct2 [OF s1]]) (rule rr_rx_local, simp_all add: rr_fixed_def rr_rwf_def)
      from cont [OF this] cont [OF conjunct2 [OF s1]] Ok data d p Cons.prems(2) show ?thesis
        by (auto split: if_splits)
    qed (use data d p s1 Cons.prems(2) in auto)
  next
    case other
    with Cons.prems(2) cont [OF rr_rx_refl] show ?thesis by simp
  qed
qed

subsection \<open>Send completions free the oldest messages\<close>

text \<open>What reaping leaves alone.\<close>

definition rr_still :: "read_ring \<Rightarrow> async_qp \<times> nat \<times> source \<times> source \<times> nat \<times> read_ring_config \<times> nat \<times> mr
    \<times> mr \<times> nat \<times> nat \<times> nat \<times> bool" where
  "rr_still t = (rr_qp t, rr_sq_capacity t, rr_send_src t, rr_recv_src t, rr_max_outstanding t,
     rr_config t, rr_remote_capacity t, rr_read_buf t, rb_mr (rr_send_ring t), rb_capacity (rr_send_ring t),
     rb_tail (rr_send_ring t), rr_remote_write_tail t, rr_rwf t)"

definition rr_reaped :: "wc list \<Rightarrow> bool \<Rightarrow> read_ring \<Rightarrow> read_ring \<Rightarrow> bool" where
  "rr_reaped wcs ok t t' \<longleftrightarrow>
     rr_still t' = rr_still t \<and> rr_send_in_flight t' \<le> rr_send_in_flight t
     \<and> (rr_peer_disconnected t \<longrightarrow> rr_peer_disconnected t')
     \<and> (\<forall>rest. rr_counts t (map wr_id wcs @ rest) \<longrightarrow> rr_counts t' rest)
     \<and> (\<forall>rest ms. ring_matches (rr_send_ring t) (map wr_id wcs @ rest) ms \<longrightarrow>
          \<not> ok \<and> rr_peer_disconnected t' \<or> (\<exists>ms'. ring_matches (rr_send_ring t') rest ms'))"

lemma rr_reaped_refl: "rr_reaped [] True t t"
  unfolding rr_reaped_def by auto

lemma rr_reaped_fail: "rr_reaped wcs False t (t\<lparr>rr_peer_disconnected := True\<rparr>)"
  unfolding rr_reaped_def by (simp add: rr_counts_def rr_still_def rr_rwf_def)

lemma rr_reaped_cons:
  assumes "rr_reaped [c] True t t1" "rr_reaped cs ok t1 t'"
  shows "rr_reaped (c # cs) ok t t'"
proof -
  have "\<not> ok \<and> rr_peer_disconnected t' \<or> (\<exists>ms'. ring_matches (rr_send_ring t') rest ms')"
    if "ring_matches (rr_send_ring t) (map wr_id (c # cs) @ rest) ms" for rest ms
  proof -
    from assms(1) that obtain ms1 where "ring_matches (rr_send_ring t1) (map wr_id cs @ rest) ms1"
      unfolding rr_reaped_def by fastforce
    with assms(2) show ?thesis unfolding rr_reaped_def by blast
  qed
  with assms show ?thesis unfolding rr_reaped_def by simp
qed

lemma data_id_read: "\<not> data_id WR_ID_READ_SENTINEL"
  by (simp add: data_id_def WR_ID_READ_SENTINEL_def)

lemma sentinels_differ: "WR_ID_PADDING_SENTINEL \<noteq> WR_ID_READ_SENTINEL"
  by (simp add: WR_ID_PADDING_SENTINEL_def WR_ID_READ_SENTINEL_def)

lemma unat_not_data: "\<not> data_id i \<Longrightarrow> 2 ^ 63 \<le> unat i"
proof (rule ccontr)
  assume nd: "\<not> data_id i" and "\<not> 2 ^ 63 \<le> unat i"
  then have "data_id (word_of_nat (unat i))" by (intro data_id_of_nat) simp
  with nd show False by simp
qed

text \<open>Memory the device writes keeps its size; the landing buffer of the read holds a word.\<close>

definition mem_contract :: "'n nic \<Rightarrow> bool" where
  "mem_contract nic \<longleftrightarrow> (\<forall>m n. length (host_memory nic m n) = length (mr_bytes m))"

lemma rr_reaped_one:
  shows "wr_id c = WR_ID_READ_SENTINEL \<Longrightarrow>
      rr_reaped [c] True t (t\<lparr>rr_cached_remote_head := h, rr_read_in_flight := False\<rparr>)"
    and "wr_id c = WR_ID_PADDING_SENTINEL \<Longrightarrow>
      rr_reaped [c] True t (t\<lparr>rr_send_in_flight := rr_send_in_flight t - 1\<rparr>)"
    and "wr_id c \<noteq> WR_ID_READ_SENTINEL \<Longrightarrow>
      rr_reaped [c] True t (t\<lparr>rr_send_ring :=
          (if unat (wr_id c) > 0 \<and> unat (wr_id c) \<le> rb_capacity (rr_send_ring t)
           then release (unat (wr_id c)) (rr_send_ring t) else rr_send_ring t),
        rr_send_in_flight := rr_send_in_flight t - 1\<rparr>)"
proof -
  assume i: "wr_id c = WR_ID_READ_SENTINEL"
  show "rr_reaped [c] True t (t\<lparr>rr_cached_remote_head := h, rr_read_in_flight := False\<rparr>)"
    unfolding rr_reaped_def using data_id_read
    by (auto simp: i rr_counts_def rr_still_def rr_rwf_def dest: ring_matches_skip)
next
  assume i: "wr_id c = WR_ID_PADDING_SENTINEL"
  show "rr_reaped [c] True t (t\<lparr>rr_send_in_flight := rr_send_in_flight t - 1\<rparr>)"
    unfolding rr_reaped_def using data_id_padding
    by (auto simp: i rr_counts_def rr_still_def rr_rwf_def sentinels_differ dest: ring_matches_skip)
next
  let ?i = "wr_id c" and ?r = "rr_send_ring t"
  let ?ring = "if unat ?i > 0 \<and> unat ?i \<le> rb_capacity ?r then release (unat ?i) ?r else ?r"
  assume i: "?i \<noteq> WR_ID_READ_SENTINEL"
  have m: "\<exists>ms'. ring_matches ?ring rest ms'" if "ring_matches ?r (?i # rest) ms" for rest ms
  proof (cases "data_id ?i")
    case True
    with ring_matches_release [OF that] show ?thesis by auto
  next
    case False
    with ring_matches_skip [OF that] unat_not_data [OF False] that show ?thesis
      by (auto simp: ring_matches_def)
  qed
  have ring: "rb_mr ?ring = rb_mr ?r" "rb_capacity ?ring = rb_capacity ?r" "rb_tail ?ring = rb_tail ?r" by (simp_all add: release_def)
  define ring where "ring = ?ring"
  have "rr_reaped [c] True t (t\<lparr>rr_send_ring := ring, rr_send_in_flight := rr_send_in_flight t - 1\<rparr>)"
    unfolding rr_reaped_def using i m ring
    by (auto simp: rr_counts_def rr_still_def rr_rwf_def simp flip: ring_def)
  then show "rr_reaped [c] True t (t\<lparr>rr_send_ring := ?ring, rr_send_in_flight := rr_send_in_flight t - 1\<rparr>)"
    by (simp only: ring_def)
qed

lemma rr_reap_sends_reaped:
  assumes "mem_contract nic"
  shows "4 \<le> length (mr_bytes (rr_read_buf t)) \<Longrightarrow> rr_reap_sends nic wcs gw t w = (r, t') \<Longrightarrow>
     r \<noteq> Panic \<and> rr_reaped wcs (is_Ok r) t t'"
proof (induction wcs arbitrary: t gw)
  case Nil
  then show ?case by (auto simp: rr_reaped_refl)
next
  case (Cons c cs)
  have go: ?case if "rr_reaped [c] True t t1" "rr_reap_sends nic cs True t1 w = (r, t')"
    "rr_read_buf t1 = rr_read_buf t" for t1
    using Cons.IH [OF _ that(2)] that(1,3) Cons.prems(1) rr_reaped_cons by auto
  consider (bad) "\<not> is_success c" | (read) "is_success c" "wr_id c = WR_ID_READ_SENTINEL"
    | (pad) "is_success c" "wr_id c \<noteq> WR_ID_READ_SENTINEL" "wr_id c = WR_ID_PADDING_SENTINEL"
    | (data) "is_success c" "wr_id c \<noteq> WR_ID_READ_SENTINEL" "wr_id c \<noteq> WR_ID_PADDING_SENTINEL" by blast
  then show ?case
  proof cases
    case bad
    with Cons.prems(2) show ?thesis by (auto simp: rr_reaped_fail)
  next
    case read
    let ?mem = "host_memory nic (rr_read_buf t) (hw w)"
    have "\<not> length ?mem < 4" using assms Cons.prems(1) by (simp add: mem_contract_def)
    with read Cons.prems(2) have "rr_reap_sends nic cs True
        (t\<lparr>rr_cached_remote_head := unat (from_le (take 4 ?mem) :: u32), rr_read_in_flight := False\<rparr>) w = (r, t')"
      by (simp add: update_cached_remote_head_def Let_def del: from_le.simps)
    from go [OF rr_reaped_one(1) [OF read(2)] this] show ?thesis by simp
  next
    case pad
    with Cons.prems(2) go [OF rr_reaped_one(2) [OF pad(3)]] show ?thesis by simp
  next
    case data
    then have "rr_reap_sends nic cs True (t\<lparr>rr_send_ring :=
          (if unat (wr_id c) > 0 \<and> unat (wr_id c) \<le> rb_capacity (rr_send_ring t)
           then release (unat (wr_id c)) (rr_send_ring t) else rr_send_ring t),
        rr_send_in_flight := rr_send_in_flight t - 1\<rparr>) w = (r, t')"
      using Cons.prems(2) by (auto simp: Let_def split: if_splits)
    from go [OF rr_reaped_one(3) [OF data(2)] this] show ?thesis by simp
  qed
qed

subsection \<open>The invariant\<close>

text \<open>With rings of one size on both sides the write cursor follows the local tail.\<close>

definition rr_mirror :: "read_ring \<Rightarrow> bool" where
  "rr_mirror t \<longleftrightarrow>
     (rr_remote_capacity t = rb_capacity (rr_send_ring t) \<longrightarrow> rr_remote_write_tail t = rb_tail (rr_send_ring t))"

definition rr_inv :: "'n nic \<Rightarrow> nat \<Rightarrow> nat \<Rightarrow> ('n \<Rightarrow> u64 list) \<Rightarrow> read_ring \<times> 'n world \<Rightarrow> bool" where
  "rr_inv nic scq rcq sq s \<longleftrightarrow>
     rr_ready nic scq sq s \<and> scq \<noteq> rcq \<and> mem_contract nic
     \<and> (case s of (t, w) \<Rightarrow>
          src_on (rr_send_src t) scq \<and> src_on (rr_recv_src t) rcq \<and> 0 < rr_remote_capacity t
          \<and> 4 \<le> length (mr_bytes (rr_read_buf t))
          \<and> length (mr_bytes (rb_mr (rr_send_ring t))) = rb_capacity (rr_send_ring t) \<and> rr_mirror t
          \<and> (rr_peer_disconnected t \<or> (\<exists>ms. ring_matches (rr_send_ring t) (sq (hw w)) ms)))"

lemma rr_invD:
  assumes "rr_inv nic scq rcq sq (t, w)"
  shows "rr_ready nic scq sq (t, w)" "scq \<noteq> rcq" "src_on (rr_send_src t) scq" "src_on (rr_recv_src t) rcq"
    "0 < rr_remote_capacity t" "length (mr_bytes (rb_mr (rr_send_ring t))) = rb_capacity (rr_send_ring t)"
    "rr_peer_disconnected t \<or> (\<exists>ms. ring_matches (rr_send_ring t) (sq (hw w)) ms)"
    "fifo_contract nic (aq_qpn (rr_qp t)) scq (rr_sq_capacity t) sq"
    "mem_contract nic" "4 \<le> length (mr_bytes (rr_read_buf t))"
    "rr_sq_capacity t = rr_max_outstanding t + 3" "rr_send_in_flight t \<le> rr_max_outstanding t"
    "rr_counts t (sq (hw w))" "rr_mirror t"
  using assms by (auto simp: rr_inv_def rr_ready_def READ_RING_SQ_HEADROOM_def)

definition rr_keeps :: "('n \<Rightarrow> u64 list) \<Rightarrow> read_ring \<times> 'n world \<Rightarrow> read_ring \<Rightarrow> bool" where
  "rr_keeps sq s t' \<longleftrightarrow>
     (case s of (t, w) \<Rightarrow>
        \<forall>ms off pad len. ring_matches (rr_send_ring t) (sq (hw w)) ms \<and> \<not> rr_peer_disconnected t
          \<and> (off, pad, len) \<in> set ms \<longrightarrow>
          slice (mr_bytes (rb_mr (rr_send_ring t'))) off (off + len) =
          slice (mr_bytes (rb_mr (rr_send_ring t))) off (off + len))"

lemma rr_keeps_mr: "rb_mr (rr_send_ring t') = rb_mr (rr_send_ring t) \<Longrightarrow> rr_keeps sq (t, w) t'"
  by (simp add: rr_keeps_def)

lemma rr_rxD:
  assumes "rr_rx sq (t, w) (t', w')"
  shows "rr_send_ring t' = rr_send_ring t" "rr_send_src t' = rr_send_src t" "rr_recv_src t' = rr_recv_src t"
    "rr_remote_capacity t' = rr_remote_capacity t" "rr_read_buf t' = rr_read_buf t"
    "rr_peer_disconnected t \<Longrightarrow> rr_peer_disconnected t'" "sq (hw w') = sq (hw w)"
    "rr_mirror t' = rr_mirror t"
  using assms by (auto simp: rr_rx_def rr_fixed_def rr_mirror_def)

lemma rr_rx_inv:
  assumes "rr_inv nic scq rcq sq (t, w)" "rr_rx sq (t, w) (t', w')"
  shows "rr_inv nic scq rcq sq (t', w')" "rr_keeps sq (t, w) t'"
  using assms rr_rx_ready [OF rr_invD(1) [OF assms(1)] assms(2)] rr_rxD [OF assms(2)]
  by (auto simp: rr_inv_def rr_keeps_mr)

lemma rr_reaped_inv:
  assumes "rr_inv nic scq rcq sq (t, w)" "rr_reaped wcs ok t t'"
    and "sq (hw w) = map wr_id wcs @ sq (hw w')"
  shows "rr_inv nic scq rcq sq (t', w')" "rb_mr (rr_send_ring t') = rb_mr (rr_send_ring t)"
    "rr_recv_src t' = rr_recv_src t"
proof -
  note I = rr_invD [OF assms(1)]
  show "rb_mr (rr_send_ring t') = rb_mr (rr_send_ring t)" "rr_recv_src t' = rr_recv_src t"
    using assms(2) by (simp_all add: rr_reaped_def rr_still_def)
  have "rr_peer_disconnected t' \<or> (\<exists>ms. ring_matches (rr_send_ring t') (sq (hw w')) ms)"
    using I(7) assms(2,3) unfolding rr_reaped_def by metis
  moreover have "rr_counts t' (sq (hw w'))" using I(13) assms(2,3) by (simp add: rr_reaped_def)
  ultimately show "rr_inv nic scq rcq sq (t', w')"
    using assms(1,2) by (auto simp: rr_inv_def rr_ready_def rr_reaped_def rr_still_def rr_mirror_def)
qed

subsection \<open>Sending\<close>

text \<open>Possibly the read of the peer's head is posted; it always is accepted.\<close>

definition rr_read_maybe :: "('n \<Rightarrow> u64 list) \<Rightarrow> read_ring \<times> 'n world \<Rightarrow> read_ring \<times> 'n world \<Rightarrow> bool" where
  "rr_read_maybe sq s s' \<longleftrightarrow>
     s' = s \<or> (case (s, s') of ((t, w), (t', w')) \<Rightarrow>
       \<not> rr_read_in_flight t \<and> t' = t\<lparr>rr_read_in_flight := True\<rparr>
       \<and> sq (hw w') = sq (hw w) @ [WR_ID_READ_SENTINEL])"

lemma rr_read_maybe_inv:
  assumes "rr_inv nic scq rcq sq s" "rr_read_maybe sq s s'"
  shows "rr_inv nic scq rcq sq s'" "rr_keeps sq s (fst s')"
proof -
  show "rr_keeps sq s (fst s')"
    using assms(2) by (cases s; cases s') (auto simp: rr_read_maybe_def intro: rr_keeps_mr)
  show "rr_inv nic scq rcq sq s'"
    using assms
    by (cases s; cases s')
      (auto simp: rr_read_maybe_def rr_inv_def rr_ready_def rr_rwf_def rr_counts_def rr_mirror_def
        dest: ring_matches_post_other [OF _ data_id_read])
qed

lemma post_offset_read_maybe:
  assumes "fifo_contract nic (aq_qpn (rr_qp t)) scq (rr_sq_capacity t) sq" "\<not> rr_read_in_flight t"
    and "rr_send_in_flight t < rr_sq_capacity t" "rr_counts t (sq (hw w))"
    and "post_offset_read nic t w = (r, t', w')"
  shows "r = Ok () \<and> rr_read_maybe sq (t, w) (t', w')"
proof -
  let ?b = "rr_read_buf t"
  let ?wr = "wr_rdma (rr_remote_offset_va t) (rr_remote_offset_rkey t)
      (wr_sg \<lparr>sge_addr = mr_addr ?b, sge_length = 4, sge_lkey = mr_lkey ?b\<rparr>
        (wr_signaled (send_wr_new WR_ID_READ_SENTINEL WrRdmaRead)))"
  obtain r1 w1 where p: "post_send_wr nic (rr_qp t) ?wr w = (r1, w1)" by (rule prod.exhaust)
  have "length (sq (hw w)) < rr_sq_capacity t" using rr_counts_length [OF assms(4)] assms(2,3) by simp
  from post_send_wr_fifo [OF assms(1) this p] p assms(2,5) show ?thesis
    by (auto simp: post_offset_read_def Let_def rr_read_maybe_def)
qed

lemma rr_blocked_maybe:
  assumes "rr_inv nic scq rcq sq (t, w)" "rr_blocked nic t w = (r, t', w')"
  shows "r = Ok 0 \<and> rr_read_maybe sq (t, w) (t', w')"
proof (cases "rr_read_in_flight t")
  case True
  with assms(2) show ?thesis by (auto simp: rr_blocked_def rr_read_maybe_def)
next
  case False
  note I = rr_invD [OF assms(1)]
  obtain r1 t1 w1 where p: "post_offset_read nic t w = (r1, t1, w1)" by (rule prod_cases3)
  from post_offset_read_maybe [OF I(8) False _ I(13) p] I(11,12) False p assms(2) show ?thesis
    by (auto simp: rr_blocked_def)
qed

lemma rr_proactive_read_maybe:
  assumes "fifo_contract nic (aq_qpn (rr_qp t)) scq (rr_sq_capacity t) sq"
    and "rr_send_in_flight t < rr_sq_capacity t" "rr_counts t (sq (hw w))"
    and "rr_proactive_read nic n t w = (r, t', w')"
  shows "r = Ok () \<and> rr_read_maybe sq (t, w) (t', w')
    \<or> r = Panic \<and> remote_free_space t = Panic \<and> t' = t \<and> w' = w"
proof (cases "rr_read_in_flight t")
  case True
  with assms(4) show ?thesis by (auto simp: rr_proactive_read_def rr_read_maybe_def)
next
  case False
  obtain r1 t1 w1 where p: "post_offset_read nic t w = (r1, t1, w1)" by (rule prod_cases3)
  note q = post_offset_read_maybe [OF assms(1) False assms(2,3) p]
  have "remote_free_space t \<noteq> Err e" for e by (simp add: remote_free_space_def)
  with q p False assms(4) show ?thesis
    by (cases "remote_free_space t") (auto simp: rr_proactive_read_def rr_read_maybe_def split: if_splits)
qed

text \<open>The free space computes unless the cached head lies beyond the peer's ring.\<close>

lemma remote_free_space_Ok: "rr_cached_remote_head t \<le> rr_remote_capacity t \<Longrightarrow> remote_free_space t \<noteq> Panic"
  by (simp add: remote_free_space_def)

lemma rr_post_padding_eq:
  assumes "fifo_contract nic (aq_qpn (rr_qp t)) scq (rr_sq_capacity t) sq"
    and "length (sq (hw w)) < rr_sq_capacity t" "rr_post_padding nic t w = (r, t', w')"
  shows "r = Ok () \<and> t' = t\<lparr>rr_send_in_flight := rr_send_in_flight t + 1, rr_remote_write_tail := 0\<rparr>
    \<and> sq (hw w') = sq (hw w) @ [WR_ID_PADDING_SENTINEL]"
proof -
  let ?wr = "wr_rdma (rr_remote_addr t + word_of_nat (rr_remote_write_tail t)) (rr_remote_rkey t)
    (wr_signaled (send_wr_new WR_ID_PADDING_SENTINEL
      (WrRdmaWriteWithImm (encode_ring_imm (rr_remote_write_tail t) 0))))"
  obtain r1 w1 where p: "post_send_wr nic (rr_qp t) ?wr w = (r1, w1)" by (rule prod.exhaust)
  from post_send_wr_fifo [OF assms(1,2) p] p assms(3) show ?thesis
    by (auto simp: rr_post_padding_def Let_def)
qed

text \<open>The state right after the data write was posted, before the proactive read.\<close>

definition rr_written :: "bytes list \<Rightarrow> nat \<Rightarrow> nat \<Rightarrow> read_ring \<Rightarrow> read_ring" where
  "rr_written bufs off n t =
     t\<lparr>rr_send_ring := (rr_send_ring t)\<lparr>rb_mr := (rb_mr (rr_send_ring t))\<lparr>mr_bytes :=
           upd_range (mr_bytes (rb_mr (rr_send_ring t))) off (take n (concat bufs))\<rparr>\<rparr>,
       rr_remote_write_tail := (rr_remote_write_tail t + n) mod rr_remote_capacity t,
       rr_send_in_flight := rr_send_in_flight t + 1\<rparr>"

lemma rr_post_data_eq:
  assumes f: "fifo_contract nic (aq_qpn (rr_qp t)) scq (rr_sq_capacity t) sq"
    and room: "rr_counts t (sq (hw w))" "rr_send_in_flight t + 2 < rr_sq_capacity t"
    and c: "0 < rr_remote_capacity t" "word_of_nat (pad + n) \<noteq> WR_ID_READ_SENTINEL"
    and b: "off + n \<le> length (mr_bytes (rb_mr (rr_send_ring t)))" "n \<le> sum_list (map length bufs)"
    and p: "rr_post_data nic bufs off pad n t w = (r, t', w')"
  obtains w1 where "sq (hw w1) = sq (hw w) @ [word_of_nat (pad + n)]"
    "r = Ok n \<and> rr_read_maybe sq (rr_written bufs off n t, w1) (t', w')
     \<or> r = Panic \<and> remote_free_space (rr_written bufs off n t) = Panic \<and> t' = rr_written bufs off n t \<and> w' = w1"
proof -
  let ?m = "rb_mr (rr_send_ring t)" and ?t = "rr_written bufs off n t"
  let ?m1 = "?m\<lparr>mr_bytes := upd_range (mr_bytes ?m) off (take n (concat bufs))\<rparr>"
  let ?wr = "wr_rdma (rr_remote_addr t + word_of_nat (rr_remote_write_tail t)) (rr_remote_rkey t)
      (wr_sg \<lparr>sge_addr = mr_addr ?m1 + word_of_nat off, sge_length = word_of_nat n, sge_lkey = mr_lkey ?m1\<rparr>
        (wr_signaled (send_wr_new (word_of_nat (pad + n))
          (WrRdmaWriteWithImm (encode_ring_imm (rr_remote_write_tail t) n)))))"
  have len: "n \<le> length (concat bufs)" using b(2) by (simp add: length_concat)
  have g: "gather_into (slice (mr_bytes ?m) off (off + n)) bufs = (n, take n (concat bufs))"
    using gather_into_eq [of "slice (mr_bytes ?m) off (off + n)" bufs] b(1) len by simp
  obtain r1 w1 where q: "post_send_wr nic (rr_qp t) ?wr w = (r1, w1)" by (rule prod.exhaust)
  have l: "length (sq (hw w)) < rr_sq_capacity t"
    using rr_counts_length [OF room(1)] room(2) by (cases "rr_read_in_flight t") simp_all
  from post_send_wr_fifo [OF f l q] have s: "r1 = Ok ()" "sq (hw w1) = sq (hw w) @ [word_of_nat (pad + n)]" by auto
  obtain r2 t2 w2 where pr: "rr_proactive_read nic n ?t w1 = (r2, t2, w2)" by (rule prod_cases3)
  have f1: "fifo_contract nic (aq_qpn (rr_qp ?t)) scq (rr_sq_capacity ?t) sq" "rr_send_in_flight ?t < rr_sq_capacity ?t"
    "rr_counts ?t (sq (hw w1))"
    using f room c(2) s(2) by (auto simp: rr_written_def rr_counts_def)
  note R = rr_proactive_read_maybe [OF f1 pr]
  have p1: "and_then (rr_proactive_read nic n ?t w1) (\<lambda>_ (t, w).
      (if rr_send_in_flight t + of_bool (rr_read_in_flight t) \<le> rr_sq_capacity t then Ok n else Panic, t, w)) = (r, t', w')"
    using p s q c b(1) g by (auto simp: rr_post_data_def rr_written_def Let_def)
  have bound: "rr_send_in_flight t2 + of_bool (rr_read_in_flight t2) \<le> rr_sq_capacity t2"
    if "rr_read_maybe sq (?t, w1) (t2, w2)"
    using that room(2) by (auto simp: rr_read_maybe_def rr_written_def)
  from R p1 pr bound have "r = Ok n \<and> rr_read_maybe sq (?t, w1) (t', w')
     \<or> r = Panic \<and> remote_free_space ?t = Panic \<and> t' = ?t \<and> w' = w1" by auto
  with s(2) show thesis by (rule that)
qed

text \<open>What an accepted send did.\<close>

definition rr_accepted ::
    "('n \<Rightarrow> u64 list) \<Rightarrow> bytes list \<Rightarrow> nat \<Rightarrow> read_ring \<times> 'n world \<Rightarrow> read_ring \<times> 'n world \<Rightarrow> bool" where
  "rr_accepted sq bufs n s s' \<longleftrightarrow>
     (case (s, s') of ((t, w), (t', w')) \<Rightarrow>
        \<exists>off pad k reads. k = (if pad > 0 then 1 else 0) \<and> off + n \<le> rb_capacity (rr_send_ring t)
          \<and> off = (if pad > 0 then 0 else rb_tail (rr_send_ring t))
          \<and> rb_tail (rr_send_ring t') = (off + n) mod rb_capacity (rr_send_ring t)
          \<and> slice (mr_bytes (rb_mr (rr_send_ring t'))) off (off + n) = take n (concat bufs)
          \<and> sq (hw w') = sq (hw w) @ replicate k WR_ID_PADDING_SENTINEL @ [word_of_nat (pad + n)] @ reads
          \<and> reads = (if rr_read_in_flight t' \<and> \<not> rr_read_in_flight t then [WR_ID_READ_SENTINEL] else [])
          \<and> rr_send_in_flight t' = rr_send_in_flight t + k + 1
          \<and> rr_remote_write_tail t' =
              ((if pad > 0 then 0 else rr_remote_write_tail t) + n) mod rr_remote_capacity t)"

lemma rr_written_inv:
  assumes inv: "rr_inv nic scq rcq sq (t, w)" and m: "ring_matches (rr_send_ring t) (sq (hw w)) ms"
    and room: "rr_send_in_flight t + 3 \<le> rr_max_outstanding t"
    and res: "reserve n (rr_send_ring t) = (Some (off, pad), ring)" and n: "n \<le> sum_list (map length bufs)"
    and t1: "t1 = t\<lparr>rr_send_ring := ring, rr_send_in_flight := rr_send_in_flight t + k,
              rr_remote_write_tail := (if pad > 0 then 0 else rr_remote_write_tail t)\<rparr>" and k: "k \<le> 1"
    and s2: "sq (hw w2) = sq (hw w) @ replicate k WR_ID_PADDING_SENTINEL @ [word_of_nat (pad + n)]"
  shows "rr_inv nic scq rcq sq (rr_written bufs off n t1, w2)"
    "slice (mr_bytes (rb_mr (rr_send_ring (rr_written bufs off n t1)))) off (off + n) = take n (concat bufs)"
    "\<And>ms o' p' l'. ring_matches (rr_send_ring t) (sq (hw w)) ms \<Longrightarrow> (o', p', l') \<in> set ms \<Longrightarrow>
       slice (mr_bytes (rb_mr (rr_send_ring (rr_written bufs off n t1)))) o' (o' + l') =
       slice (mr_bytes (rb_mr (rr_send_ring t))) o' (o' + l')"
proof -
  let ?m = "rb_mr (rr_send_ring t)"
  note I = rr_invD [OF inv]
  have wf: "ring_wf (rr_send_ring t)" using m by (simp add: ring_matches_def ring_holds_def)
  have ring: "rb_capacity ring = rb_capacity (rr_send_ring t)" "rb_mr ring = ?m"
    using reserve_frame [OF res] by auto
  have b: "off + n \<le> rb_capacity (rr_send_ring t)" using reserve_bounds(3) [OF wf res] by simp
  have len: "length (take n (concat bufs)) = n" using n by (simp add: length_concat)
  have m1: "ring_matches (rr_send_ring t) (sq (hw w) @ replicate k WR_ID_PADDING_SENTINEL) ms"
    using m data_id_padding by (simp add: ring_matches_others)
  note m2 = ring_matches_post [OF m1 res]
  have "\<exists>ms'. ring_matches (rr_send_ring (rr_written bufs off n t1)) (sq (hw w2)) ms'"
    using m2 s2 by (auto simp: rr_written_def t1)
  moreover have "word_of_nat (pad + n) \<noteq> WR_ID_READ_SENTINEL"
  proof -
    have "pad + n < 2 ^ 63"
      using msg_size_le [of ring "ms @ [(off, pad, n)]" "(off, pad, n)"] m2 by (simp add: ring_matches_def)
    from data_id_of_nat [OF this] data_id_read show ?thesis by metis
  qed
  moreover have "rr_mirror (rr_written bufs off n t1)"
    using I(14) reserve_bounds(6,7) [OF wf res] ring by (auto simp: rr_mirror_def rr_written_def t1)
  ultimately show "rr_inv nic scq rcq sq (rr_written bufs off n t1, w2)"
    using inv s2 b len room k ring I(6) sentinels_differ
    by (auto simp: rr_inv_def rr_ready_def rr_rwf_def rr_counts_def rr_written_def t1)
  have "slice (upd_range (mr_bytes ?m) off (take n (concat bufs))) off (off + n) = take n (concat bufs)"
    using slice_upd_range_same [of off "take n (concat bufs)" "mr_bytes ?m"] len b I(6) by simp
  then show "slice (mr_bytes (rb_mr (rr_send_ring (rr_written bufs off n t1)))) off (off + n) = take n (concat bufs)"
    using ring by (simp add: rr_written_def t1)
  fix ms o' p' l' assume "ring_matches (rr_send_ring t) (sq (hw w)) ms" "(o', p', l') \<in> set ms"
  from fresh_write_keeps [OF this(1) res I(6) len this(2)] ring
  show "slice (mr_bytes (rb_mr (rr_send_ring (rr_written bufs off n t1)))) o' (o' + l') =
       slice (mr_bytes (rb_mr (rr_send_ring t))) o' (o' + l')"
    by (simp add: rr_written_def t1)
qed

lemma rr_send_reserved:
  assumes inv: "rr_inv nic scq rcq sq (t, w)" and m: "ring_matches (rr_send_ring t) (sq (hw w)) ms"
    and room: "rr_send_in_flight t + 3 \<le> rr_max_outstanding t"
    and res: "reserve n (rr_send_ring t) = (Some (off, pad), ring)" and n: "n \<le> sum_list (map length bufs)"
    and p: "and_then (if pad > 0 then rr_post_padding nic (t\<lparr>rr_send_ring := ring\<rparr>) w
              else (Ok (), t\<lparr>rr_send_ring := ring\<rparr>, w))
            (\<lambda>_ (t, w). rr_post_data nic bufs off pad n t w) = (r, t', w')"
  shows "rr_inv nic scq rcq sq (t', w')" "rr_keeps sq (t, w) t'"
    "r = Ok n \<and> rr_accepted sq bufs n (t, w) (t', w') \<or> r = Panic \<and> rr_remote_capacity t < rr_cached_remote_head t"
proof -
  note I = rr_invD [OF inv]
  define k :: nat where "k = (if pad > 0 then 1 else 0)"
  define t1 where "t1 = t\<lparr>rr_send_ring := ring, rr_send_in_flight := rr_send_in_flight t + k,
      rr_remote_write_tail := (if pad > 0 then 0 else rr_remote_write_tail t)\<rparr>"
  have k: "k \<le> 1" by (simp add: k_def)
  have l: "length (sq (hw w)) < rr_sq_capacity t"
    using rr_counts_length [OF I(13)] I(11) room by (cases "rr_read_in_flight t") simp_all
  have "\<exists>w1. (if pad > 0 then rr_post_padding nic (t\<lparr>rr_send_ring := ring\<rparr>) w
              else (Ok (), t\<lparr>rr_send_ring := ring\<rparr>, w)) = (Ok (), t1, w1)
      \<and> sq (hw w1) = sq (hw w) @ replicate k WR_ID_PADDING_SENTINEL"
  proof (cases "pad > 0")
    case True
    obtain r1 t2 w1 where q: "rr_post_padding nic (t\<lparr>rr_send_ring := ring\<rparr>) w = (r1, t2, w1)" by (rule prod_cases3)
    from rr_post_padding_eq [OF _ _ q, of scq sq] I(8) l have "r1 = Ok ()" "t2 = t1"
      "sq (hw w1) = sq (hw w) @ [WR_ID_PADDING_SENTINEL]" using True by (auto simp: t1_def k_def)
    with q True show ?thesis by (auto simp: k_def)
  qed (simp add: t1_def k_def)
  then obtain w1 where pw: "rr_post_data nic bufs off pad n t1 w1 = (r, t', w')"
    and s1: "sq (hw w1) = sq (hw w) @ replicate k WR_ID_PADDING_SENTINEL" using p by auto
  have wf: "ring_wf (rr_send_ring t)" using m by (simp add: ring_matches_def ring_holds_def)
  have ring: "rb_capacity ring = rb_capacity (rr_send_ring t)" "rb_mr ring = rb_mr (rr_send_ring t)"
    using reserve_frame [OF res] by auto
  have b: "off + n \<le> rb_capacity (rr_send_ring t)" using reserve_bounds(3) [OF wf res] by simp
  have m1: "ring_matches (rr_send_ring t) (sq (hw w) @ replicate k WR_ID_PADDING_SENTINEL) ms"
    using m data_id_padding by (simp add: ring_matches_others)
  have "pad + n < 2 ^ 63"
    using msg_size_le [of ring "ms @ [(off, pad, n)]" "(off, pad, n)"] ring_matches_post [OF m1 res]
    by (simp add: ring_matches_def)
  from data_id_of_nat [OF this] data_id_read have nid: "word_of_nat (pad + n) \<noteq> WR_ID_READ_SENTINEL" by metis
  have "rr_counts t1 (sq (hw w1))" "rr_send_in_flight t1 + 2 < rr_sq_capacity t1"
    using I(11,13) s1 room k sentinels_differ by (auto simp: rr_counts_def t1_def k_def)
  moreover have "fifo_contract nic (aq_qpn (rr_qp t1)) scq (rr_sq_capacity t1) sq" "0 < rr_remote_capacity t1"
    "off + n \<le> length (mr_bytes (rb_mr (rr_send_ring t1)))"
    using I(5,6,8) b ring by (simp_all add: t1_def)
  ultimately obtain w2 where s2: "sq (hw w2) = sq (hw w1) @ [word_of_nat (pad + n)]"
    and out: "r = Ok n \<and> rr_read_maybe sq (rr_written bufs off n t1, w2) (t', w')
     \<or> r = Panic \<and> remote_free_space (rr_written bufs off n t1) = Panic \<and> t' = rr_written bufs off n t1 \<and> w' = w2"
    using rr_post_data_eq [OF _ _ _ _ nid _ n pw] by metis
  have s: "sq (hw w2) = sq (hw w) @ replicate k WR_ID_PADDING_SENTINEL @ [word_of_nat (pad + n)]"
    using s1 s2 by simp
  note W = rr_written_inv [OF inv m room res n t1_def k s]
  have tl: "rb_tail ring = (off + n) mod rb_capacity (rr_send_ring t)"
    "off = (if pad > 0 then 0 else rb_tail (rr_send_ring t))" using reserve_bounds(6,7) [OF wf res] by auto
  have mb: "rb_mr (rr_send_ring t') = rb_mr (rr_send_ring (rr_written bufs off n t1))"
    using out by (auto simp: rr_read_maybe_def)
  show "rr_inv nic scq rcq sq (t', w')" using out W(1) rr_read_maybe_inv(1) [OF W(1)] by auto
  show "rr_keeps sq (t, w) t'" using W(3) mb by (auto simp: rr_keeps_def)
  have "rr_accepted sq bufs n (t, w) (t', w')" if "rr_read_maybe sq (rr_written bufs off n t1, w2) (t', w')"
    using that s W(2) b mb tl unfolding rr_accepted_def prod.case
    by - (rule exI [of _ off], rule exI [of _ pad],
        auto simp: rr_read_maybe_def rr_written_def t1_def k_def)
  with out show "r = Ok n \<and> rr_accepted sq bufs n (t, w) (t', w') \<or> r = Panic \<and> rr_remote_capacity t < rr_cached_remote_head t"
    by (auto simp: remote_free_space_def rr_written_def t1_def split: if_splits)
qed

lemma rr_send_in_space_cases:
  assumes inv: "rr_inv nic scq rcq sq (t, w)" and m: "ring_matches (rr_send_ring t) (sq (hw w)) ms"
    and room: "rr_send_in_flight t + 3 \<le> rr_max_outstanding t" and n: "n \<le> sum_list (map length bufs)"
    and p: "rr_send_in_space nic bufs n free t w = (r, t', w')"
  obtains (blocked) "r = Ok 0" "rr_read_maybe sq (t, w) (t', w')"
    | (overrun) "r = Panic" "rr_remote_capacity t < rr_cached_remote_head t"
        "rr_inv nic scq rcq sq (t', w')" "rr_keeps sq (t, w) t'"
    | (sent) "r = Ok n" "0 < n" "n + rg_min_free_threshold (rr_config t) \<le> free"
        "rr_accepted sq bufs n (t, w) (t', w')" "rr_inv nic scq rcq sq (t', w')" "rr_keeps sq (t, w) t'"
proof -
  let ?thr = "rg_min_free_threshold (rr_config t)"
  have blk: ?thesis if "rr_blocked nic t w = (r, t', w')"
    using blocked rr_blocked_maybe [OF inv that] by blast
  obtain x ring where res: "reserve n (rr_send_ring t) = (x, ring)" by (rule prod.exhaust)
  consider (low) "free < n + ?thr" | (none) "\<not> free < n + ?thr" "x = None"
    | (some) off pad where "\<not> free < n + ?thr" "x = Some (off, pad)"
    by (cases x) auto
  then show ?thesis
  proof cases
    case low
    with p show ?thesis by (intro blk) (simp add: rr_send_in_space_def)
  next
    case none
    with p res have "r = Ok 0" "t' = t" "w' = w" by (simp_all add: rr_send_in_space_def)
    then show ?thesis by (intro blocked) (simp_all add: rr_read_maybe_def)
  next
    case some
    note res = res [unfolded some(2)]
    have wf: "ring_wf (rr_send_ring t)" using m by (simp add: ring_matches_def ring_holds_def)
    show ?thesis
    proof (cases "pad > 0 \<and> free < pad + n + ?thr")
      case True
      from reserve_rollback [OF wf res] True have "off = 0" "ring\<lparr>rb_tail := rb_capacity ring - pad\<rparr> = rr_send_ring t"
        by auto
      then have "rr_blocked nic t w = (r, t', w')"
        using p some(1) res True by (simp add: rr_send_in_space_def Let_def)
      then show ?thesis by (rule blk)
    next
      case False
      have p1: "and_then (if pad > 0 then rr_post_padding nic (t\<lparr>rr_send_ring := ring\<rparr>) w
              else (Ok (), t\<lparr>rr_send_ring := ring\<rparr>, w))
            (\<lambda>_ (t, w). rr_post_data nic bufs off pad n t w) = (r, t', w')"
        using p unfolding rr_send_in_space_def Let_def if_not_P [OF some(1)] res prod.case option.case
          if_not_P [OF False] .
      note S = rr_send_reserved [OF inv m room res n p1]
      have n0: "0 < n" using res by (auto simp: reserve_def split: if_splits)
      show ?thesis
        using S(3) overrun [OF _ _ S(1,2)] sent [OF _ n0 _ _ S(1,2)] some(1) by (auto simp: not_less)
    qed
  qed
qed

lemma rr_send_gather_cases:
  assumes inv: "rr_inv nic scq rcq sq (t, w)" and p: "rr_send_gather nic bufs t w = (r, t', w')"
  obtains (gone) "rr_peer_disconnected t" "r = Err (WorkCompletionErr 5 0)" "t' = t" "w' = w"
    | (blocked) "\<not> rr_peer_disconnected t" "r = Ok 0" "rr_read_maybe sq (t, w) (t', w')"
    | (overrun) "\<not> rr_peer_disconnected t" "r = Panic" "rr_remote_capacity t < rr_cached_remote_head t"
        "rr_inv nic scq rcq sq (t', w')" "rr_keeps sq (t, w) t'"
    | (sent) n free where "\<not> rr_peer_disconnected t" "r = Ok n" "0 < n"
        "n = min (min (min (sum_list (map length bufs)) (rg_max_message_size (rr_config t)))
               (rr_remote_capacity t)) 0xFFFF"
        "rr_send_in_flight t + of_bool (rr_read_in_flight t) + 3 \<le> rr_max_outstanding t"
        "remote_free_space t = Ok free" "n + rg_min_free_threshold (rr_config t) \<le> free"
        "rr_accepted sq bufs n (t, w) (t', w')" "rr_inv nic scq rcq sq (t', w')" "rr_keeps sq (t, w) t'"
proof (cases "rr_peer_disconnected t")
  case True
  with p have "r = Err (WorkCompletionErr 5 0)" "t' = t" "w' = w" by (simp_all add: rr_send_gather_def)
  with True show ?thesis by (rule gone)
next
  case pd: False
  let ?tot = "sum_list (map length bufs)"
  let ?n = "min (min (min ?tot (rg_max_message_size (rr_config t))) (rr_remote_capacity t)) 0xFFFF"
  let ?used = "rr_send_in_flight t + of_bool (rr_read_in_flight t)"
  note I = rr_invD [OF inv]
  from I(7) pd obtain ms where m: "ring_matches (rr_send_ring t) (sq (hw w)) ms" by blast
  have no_err: "remote_free_space t \<noteq> Err e" for e by (simp add: remote_free_space_def)
  consider (empty) "?tot = 0" | (full) "?tot \<noteq> 0" "?used + SEND_COPY_MAX_WRS > rr_max_outstanding t"
    | (far) "?tot \<noteq> 0" "\<not> ?used + SEND_COPY_MAX_WRS > rr_max_outstanding t" "remote_free_space t = Panic"
    | (go) free where "?tot \<noteq> 0" "\<not> ?used + SEND_COPY_MAX_WRS > rr_max_outstanding t" "remote_free_space t = Ok free"
    using no_err by (cases "remote_free_space t") blast+
  then show ?thesis
  proof cases
    case empty
    with p pd have "r = Ok 0" "t' = t" "w' = w" by (simp_all add: rr_send_gather_def)
    with pd show ?thesis by (intro blocked) (simp_all add: rr_read_maybe_def)
  next
    case full
    have "rr_blocked nic t w = (r, t', w')"
      using p unfolding rr_send_gather_def Let_def if_not_P [OF pd] if_not_P [OF full(1)] if_P [OF full(2)] .
    with blocked pd rr_blocked_maybe [OF inv] show ?thesis by blast
  next
    case far
    have "r = Panic" "t' = t" "w' = w"
      using p unfolding rr_send_gather_def Let_def if_not_P [OF pd] if_not_P [OF far(1)] if_not_P [OF far(2)] far(3)
      by simp_all
    moreover have "rr_remote_capacity t < rr_cached_remote_head t"
      using far(3) by (simp add: remote_free_space_def split: if_splits)
    ultimately show ?thesis using pd inv by (intro overrun) (auto simp: rr_keeps_mr)
  next
    case go
    have u: "?used + 3 \<le> rr_max_outstanding t" using go(2) by (simp add: SEND_COPY_MAX_WRS_def)
    have p1: "rr_send_in_space nic bufs ?n free t w = (r, t', w')"
      using p unfolding rr_send_gather_def Let_def if_not_P [OF pd] if_not_P [OF go(1)] if_not_P [OF go(2)] go(3)
        and_then_simps prod.case .
    show ?thesis
    proof (rule rr_send_in_space_cases [OF inv m _ _ p1])
      show "rr_send_in_flight t + 3 \<le> rr_max_outstanding t" using u by simp
      show "?n \<le> ?tot" by simp
    qed (use blocked [OF pd] overrun [OF pd] sent [OF pd _ _ refl u go(3)] in blast)+
  qed
qed

subsection \<open>Every method keeps the invariant\<close>

lemma rr_inv_src:
  "rr_inv nic scq rcq sq (t, w) \<Longrightarrow> src_on src scq \<Longrightarrow> rr_inv nic scq rcq sq (t\<lparr>rr_send_src := src\<rparr>, w)"
  "rr_inv nic scq rcq sq (t, w) \<Longrightarrow> src_on src rcq \<Longrightarrow> rr_inv nic scq rcq sq (t\<lparr>rr_recv_src := src\<rparr>, w)"
  by (auto simp: rr_inv_def rr_ready_def rr_rwf_def rr_counts_def rr_mirror_def)

lemma rr_inv_sq:
  "rr_inv nic scq rcq sq (t, w) \<Longrightarrow> sq (hw w') = sq (hw w) \<Longrightarrow> rr_inv nic scq rcq sq (t, w')"
  by (auto simp: rr_inv_def rr_ready_def)

text \<open>What the loop bodies leave of the send ring: its memory.\<close>

lemma rr_poll_send_body_inv:
  assumes inv: "rr_inv nic scq rcq sq (t, w)" and p: "rr_poll_send_body nic task (t, w) = Some x"
  shows "case x of
      Inl (t', w') \<Rightarrow> rr_inv nic scq rcq sq (t', w') \<and> rb_mr (rr_send_ring t') = rb_mr (rr_send_ring t)
    | Inr (res, t', w') \<Rightarrow> res \<noteq> Ready Panic \<and> rr_inv nic scq rcq sq (t', w')
        \<and> rb_mr (rr_send_ring t') = rb_mr (rr_send_ring t)"
proof -
  note I = rr_invD [OF inv]
  from p obtain q src w1 where pc: "poll_completions nic task 8 (rr_send_src t) w = Some (q, src, w1)"
    by (auto simp: rr_poll_send_body_def split: option.splits)
  note f = poll_completions_fifo [OF I(8,3) pc]
  let ?t = "t\<lparr>rr_send_src := src\<rparr>"
  note inv1 = rr_inv_src(1) [OF inv f(2)]
  show ?thesis
  proof (cases "\<exists>wcs. q = Ready (Ok wcs)")
    case False
    then have "reaped q = []" by (auto simp: reaped_def split: poll.splits outcome.splits)
    with f(3) have "sq (hw w1) = sq (hw w)" by simp
    with rr_inv_sq [OF inv1, of w1] False f(1) p pc show ?thesis
      by (auto simp: rr_poll_send_body_def Let_def split: poll.splits outcome.splits)
  next
    case True
    then obtain wcs where wcs: "q = Ready (Ok wcs)" by blast
    obtain r2 t2 where ps: "rr_reap_sends nic wcs False ?t w1 = (r2, t2)" by (rule prod.exhaust)
    from rr_reap_sends_reaped [OF I(9) _ ps] I(10)
    have r2: "r2 \<noteq> Panic" "rr_reaped wcs (is_Ok r2) ?t t2" by auto
    have s: "sq (hw w) = map wr_id wcs @ sq (hw w1)" using f(3) wcs by simp
    note J = rr_reaped_inv [OF inv1 r2(2) s]
    show ?thesis using p pc wcs ps r2(1) J by (cases r2) (auto simp: rr_poll_send_body_def split: if_splits)
  qed
qed

lemma rr_poll_send_completion_inv:
  assumes "rr_inv nic scq rcq sq (t, w)" "rr_poll_send_completion nic task t w = Some (res, t', w')"
  shows "res \<noteq> Ready Panic \<and> rr_inv nic scq rcq sq (t', w') \<and> rb_mr (rr_send_ring t') = rb_mr (rr_send_ring t)"
proof -
  let ?P = "\<lambda>(t1, w1). rr_inv nic scq rcq sq (t1, w1) \<and> rb_mr (rr_send_ring t1) = rb_mr (rr_send_ring t)"
  let ?Q = "\<lambda>(r1 :: unit res poll, t1, w1). r1 \<noteq> Ready Panic \<and> rr_inv nic scq rcq sq (t1, w1)
      \<and> rb_mr (rr_send_ring t1) = rb_mr (rr_send_ring t)"
  have "?Q (res, t', w')"
  proof (rule loop_inv [where P = ?P and Q = ?Q])
    show "loop (rr_poll_send_body nic task) (t, w) = Some (res, t', w')"
      using assms(2) by (simp add: rr_poll_send_completion_def)
  next
    fix s s' assume "?P s" "rr_poll_send_body nic task s = Some (Inl s')"
    then show "?P s'" by (cases s; cases s') (auto dest: rr_poll_send_body_inv)
  next
    fix s q assume "?P s" "rr_poll_send_body nic task s = Some (Inr q)"
    then show "?Q q" by (cases s; cases q) (auto dest: rr_poll_send_body_inv)
  qed (use assms(1) in simp)
  then show ?thesis by simp
qed

lemma rr_poll_recv_body_inv:
  assumes inv: "rr_inv nic scq rcq sq (t, w)"
    and p: "rr_poll_recv_body nic task room (out, t, w) = Some x"
  shows "case x of
      Inl (out', t', w') \<Rightarrow> rr_inv nic scq rcq sq (t', w') \<and> rr_send_ring t' = rr_send_ring t
    | Inr (res, t', w') \<Rightarrow> res \<noteq> Ready Panic \<and> rr_inv nic scq rcq sq (t', w')
        \<and> rr_send_ring t' = rr_send_ring t"
proof -
  note I = rr_invD [OF inv]
  from p obtain q src w1 where pc: "poll_completions nic task 8 (rr_recv_src t) w = Some (q, src, w1)"
    by (auto simp: rr_poll_recv_body_def split: option.splits)
  note f = poll_completions_fifo [OF I(8,4) pc]
  have inv1: "rr_inv nic scq rcq sq (t\<lparr>rr_recv_src := src\<rparr>, w1)"
    using rr_inv_sq [OF rr_inv_src(2) [OF inv f(2)]] f(4) I(2) by simp
  show ?thesis
  proof (cases "\<exists>wcs. q = Ready (Ok wcs)")
    case False
    with inv1 f(1) p pc show ?thesis
      by (auto simp: rr_poll_recv_body_def Let_def split: poll.splits outcome.splits)
  next
    case True
    then obtain wcs where wcs: "q = Ready (Ok wcs)" by blast
    obtain r2 t2 w2 where l: "rr_recv_loop nic room wcs out False (t\<lparr>rr_recv_src := src\<rparr>) w1 = (r2, t2, w2)"
      by (rule prod_cases3)
    from rr_recv_loop_rx [OF rr_invD(1) [OF inv1] l]
    have r2: "r2 \<noteq> Panic" "rr_rx sq (t\<lparr>rr_recv_src := src\<rparr>, w1) (t2, w2)" by auto
    from rr_rx_inv(1) [OF inv1 r2(2)] rr_rxD(1) [OF r2(2)] r2(1) p pc wcs l show ?thesis
      by (cases r2) (auto simp: rr_poll_recv_body_def split: if_splits)
  qed
qed

lemma rr_poll_recv_inv:
  assumes inv: "rr_inv nic scq rcq sq (t, w)" and p: "rr_poll_recv nic task room t w = Some (res, t', w')"
  shows "res \<noteq> Ready Panic \<and> rr_inv nic scq rcq sq (t', w') \<and> rr_send_ring t' = rr_send_ring t"
proof -
  let ?t = "t\<lparr>rr_recv_stash := drop room (rr_recv_stash t)\<rparr>" and ?out = "take room (rr_recv_stash t)"
  have x: "rr_rx sq (t, w) (?t, w)" by (rule rr_rx_local) (simp_all add: rr_fixed_def rr_rwf_def)
  note inv1 = rr_rx_inv(1) [OF inv x]
  show ?thesis
  proof (cases "length ?out \<ge> room")
    case True
    with p inv1 show ?thesis by (auto simp: rr_poll_recv_def Let_def)
  next
    case False
    then have l: "loop (rr_poll_recv_body nic task room) (?out, ?t, w) = Some (res, t', w')"
      using p by (simp add: rr_poll_recv_def Let_def)
    let ?P = "\<lambda>(out1 :: recv_completion list, t1, w1). rr_inv nic scq rcq sq (t1, w1) \<and> rr_send_ring t1 = rr_send_ring t"
    let ?Q = "\<lambda>(res1 :: recv_completion list res poll, t1, w1). res1 \<noteq> Ready Panic
        \<and> rr_inv nic scq rcq sq (t1, w1) \<and> rr_send_ring t1 = rr_send_ring t"
    have "?Q (res, t', w')"
    proof (rule loop_inv [OF l, where P = ?P and Q = ?Q])
      fix s s' assume "?P s" "rr_poll_recv_body nic task room s = Some (Inl s')"
      then show "?P s'" by (cases s; cases s') (auto dest: rr_poll_recv_body_inv)
    next
      fix s q assume "?P s" "rr_poll_recv_body nic task room s = Some (Inr q)"
      then show "?Q q" by (cases s; cases q) (auto dest: rr_poll_recv_body_inv)
    qed (use inv1 in simp)
    then show ?thesis by simp
  qed
qed

lemma rr_repost_recv_inv:
  assumes inv: "rr_inv nic scq rcq sq (t, w)" and p: "rr_repost_recv i t w = (r, t', w')"
  shows "rr_inv nic scq rcq sq (t', w') \<and> rr_send_ring t' = rr_send_ring t
    \<and> (i < length (rr_virtual_idx_map t) \<and> rr_virtual_idx_map t ! i \<noteq> None \<longrightarrow> r = Ok ())"
proof (cases "i < length (rr_virtual_idx_map t) \<and> rr_virtual_idx_map t ! i \<noteq> None")
  case False
  then consider "length (rr_virtual_idx_map t) \<le> i" | "rr_virtual_idx_map t ! i = None" by linarith
  then have "t' = t" "w' = w" using p by (cases; auto simp: rr_repost_recv_def split: if_splits)+
  with False inv show ?thesis by blast
next
  case True
  then obtain off len n where v: "rr_virtual_idx_map t ! i = Some (off, len, n)" by auto
  let ?t = "t\<lparr>rr_virtual_idx_map := (rr_virtual_idx_map t)[i := None]\<rparr>"
  have x: "rr_rx sq (t, w) (?t, w)" by (rule rr_rx_local) (simp_all add: rr_fixed_def rr_rwf_def)
  obtain r1 t1 where d: "rr_release_seq n ?t = (r1, t1)" by (rule prod.exhaust)
  from rr_release_seq_rx [OF rr_rx_ready [OF rr_invD(1) [OF inv] x] d] rr_rx_trans [OF x]
  have y: "r1 = Ok ()" "rr_rx sq (t, w) (t1, w)" by auto
  have "r = r1" "t' = t1" "w' = w" using p True v d by (auto simp: rr_repost_recv_def)
  with y rr_rx_inv(1) [OF inv y(2)] rr_rxD(1) [OF y(2)] show ?thesis by auto
qed

lemma rr_disconnects_inv:
  assumes "rr_inv nic scq rcq sq (t, w)"
  shows "rr_poll_disconnect nic t w = Some (b, t', w') \<Longrightarrow>
      rr_inv nic scq rcq sq (t', w') \<and> rr_send_ring t' = rr_send_ring t"
    and "rr_disconnect nic t w = (r, t', w') \<Longrightarrow>
      rr_inv nic scq rcq sq (t', w') \<and> rr_send_ring t' = rr_send_ring t"
proof -
  note q = fifo_quiet [OF rr_invD(8) [OF assms]]
  {
    assume "rr_poll_disconnect nic t w = Some (b, t', w')"
    then obtain pd where p: "poll_cm_disconnect nic (rr_event_channel t) (rr_peer_disconnected t) w = Some (b, pd, w')"
      "t' = t\<lparr>rr_peer_disconnected := pd\<rparr>" by (auto simp: rr_poll_disconnect_def)
    have "rr_peer_disconnected t \<Longrightarrow> pd" using p(1) by (auto simp: poll_cm_disconnect_def)
    with poll_cm_disconnect_out [OF q p(1)] have "rr_rx sq (t, w) (t', w')"
      by (intro rr_rx_local) (auto simp: p(2) rr_fixed_def rr_rwf_def)
    from rr_rx_inv(1) [OF assms this] rr_rxD(1) [OF this]
    show "rr_inv nic scq rcq sq (t', w') \<and> rr_send_ring t' = rr_send_ring t" by simp
  next
    assume d: "rr_disconnect nic t w = (r, t', w')"
    obtain r1 w1 where c: "cm_disconnect nic (rr_cm_id t) w = (r1, w1)" by (rule prod.exhaust)
    from d c have "(w' = w1 \<or> w' = w) \<and> (t' = t \<or> t' = t\<lparr>rr_disconnected := True\<rparr>)"
      by (auto simp: rr_disconnect_def split: if_splits outcome.splits)
    with cm_disconnect_out [OF q c] have "rr_rx sq (t, w) (t', w')"
      by (intro rr_rx_local) (auto simp: rr_fixed_def rr_rwf_def)
    from rr_rx_inv(1) [OF assms this] rr_rxD(1) [OF this]
    show "rr_inv nic scq rcq sq (t', w') \<and> rr_send_ring t' = rr_send_ring t" by simp
  }
qed

subsection \<open>The transport's methods as steps\<close>

inductive rr_step :: "'n nic \<Rightarrow> read_ring \<times> 'n world \<Rightarrow> read_ring \<times> 'n world \<Rightarrow> bool" for nic where
  send_copy: "rr_send_copy nic data t w = (r, t', w') \<Longrightarrow> rr_step nic (t, w) (t', w')"
| send_gather: "rr_send_gather nic bufs t w = (r, t', w') \<Longrightarrow> rr_step nic (t, w) (t', w')"
| poll_send: "rr_poll_send_completion nic task t w = Some (p, t', w') \<Longrightarrow> rr_step nic (t, w) (t', w')"
| poll_recv: "rr_poll_recv nic task n t w = Some (q, t', w') \<Longrightarrow> rr_step nic (t, w) (t', w')"
| repost: "rr_repost_recv i t w = (u, t', w') \<Longrightarrow> rr_step nic (t, w) (t', w')"
| poll_disconnect: "rr_poll_disconnect nic t w = Some (b, t', w') \<Longrightarrow> rr_step nic (t, w) (t', w')"
| disconnect: "rr_disconnect nic t w = (u, t', w') \<Longrightarrow> rr_step nic (t, w) (t', w')"

lemma rr_send_gather_inv:
  assumes "rr_inv nic scq rcq sq (t, w)" "rr_send_gather nic bufs t w = (r, t', w')"
  shows "rr_inv nic scq rcq sq (t', w') \<and> rr_keeps sq (t, w) t'"
proof (rule rr_send_gather_cases [OF assms])
  assume "rr_read_maybe sq (t, w) (t', w')"
  from rr_read_maybe_inv [OF assms(1) this] show ?thesis by simp
qed (use assms(1) in \<open>auto simp: rr_keeps_mr\<close>)

lemma rr_step_inv:
  assumes "rr_step nic s s'" "rr_inv nic scq rcq sq s"
  shows "rr_inv nic scq rcq sq s' \<and> rr_keeps sq s (fst s')"
  using assms
proof (cases rule: rr_step.cases)
  case (send_copy data t w r t' w')
  then have "rr_send_gather nic [data] t w = (r, t', w')" by (simp add: rr_send_copy_def)
  from rr_send_gather_inv [OF _ this] assms(2) send_copy show ?thesis by simp
next
  case (send_gather bufs t w r t' w')
  from rr_send_gather_inv [OF _ this(3)] assms(2) send_gather show ?thesis by simp
qed (use assms(2) in \<open>auto intro!: rr_keeps_mr dest: rr_poll_send_completion_inv rr_poll_recv_inv
      rr_repost_recv_inv rr_disconnects_inv\<close>)

lemma rr_steps_inv:
  "(rr_step nic)\<^sup>*\<^sup>* s s' \<Longrightarrow> rr_inv nic scq rcq sq s \<Longrightarrow> rr_inv nic scq rcq sq s'"
  by (induction rule: rtranclp_induct) (auto dest: rr_step_inv)

text \<open>The transport as \<open>from_parts\<close> builds it, over an idle send queue of the size it asked for.\<close>

definition rr_start ::
    "'n nic \<Rightarrow> nat \<Rightarrow> nat \<Rightarrow> ('n \<Rightarrow> u64 list) \<Rightarrow> read_ring \<times> 'n world \<Rightarrow> bool" where
  "rr_start nic scq rcq sq s \<longleftrightarrow>
     (\<exists>qp a b ch cmid smr rmr recv_mw offset_mw read_buf doorbells tok mo c w.
        s = (rr_from_parts qp (ArmPark a CqIdle) (ArmPark b CqIdle) ch cmid smr rmr recv_mw offset_mw
               read_buf doorbells tok mo c, w)
        \<and> ac_cq a = scq \<and> ac_cq b = rcq \<and> scq \<noteq> rcq \<and> mem_contract nic
        \<and> fifo_contract nic (aq_qpn qp) scq (mo + READ_RING_SQ_HEADROOM) sq \<and> sq (hw w) = []
        \<and> 0 < mo \<and> doorbells \<noteq> [] \<and> 0 < unat (rtok_ring_capacity tok) \<and> 4 \<le> length (mr_bytes read_buf)
        \<and> length (mr_bytes smr) = rg_ring_capacity c \<and> 0 < rg_ring_capacity c \<and> rg_ring_capacity c < 2 ^ 63)"

lemma rr_start_inv: "rr_start nic scq rcq sq s \<Longrightarrow> rr_inv nic scq rcq sq s"
  by (auto simp: rr_start_def rr_inv_def rr_ready_def rr_rwf_def rr_counts_def rr_from_parts_def src_on_def
      tracker_wf_new ring_wf_new intro!: ring_matches_new exI [of _ "[]"])
    (auto simp: tracker_new_def ring_new_def rr_mirror_def)

lemma rr_reach_inv:
  "rr_start nic scq rcq sq s0 \<Longrightarrow> (rr_step nic)\<^sup>*\<^sup>* s0 s \<Longrightarrow> rr_inv nic scq rcq sq s"
  using rr_start_inv rr_steps_inv by blast

subsection \<open>Properties\<close>

text \<open>C3: No write under transmission. From a freshly built read-ring transport, after any
  sequence of trait-method calls, either the peer is marked disconnected or the send ring holds
  exactly the data writes the device still owns, in the order of its queue; and the next call
  leaves the bytes of every one of them unchanged.\<close>

theorem rr_no_overwrite:
  assumes "rr_start nic scq rcq sq s0" "(rr_step nic)\<^sup>*\<^sup>* s0 (t, w)" "rr_step nic (t, w) (t', w')"
    and "\<not> rr_peer_disconnected t"
  shows "\<exists>ms. ring_matches (rr_send_ring t) (sq (hw w)) ms \<and>
    (\<forall>(off, pad, len) \<in> set ms.
       slice (mr_bytes (rb_mr (rr_send_ring t'))) off (off + len) =
       slice (mr_bytes (rb_mr (rr_send_ring t))) off (off + len))"
proof -
  have inv: "rr_inv nic scq rcq sq (t, w)" by (rule rr_reach_inv [OF assms(1,2)])
  from rr_invD(7) [OF inv] assms(4) obtain ms where "ring_matches (rr_send_ring t) (sq (hw w)) ms" by blast
  moreover have "rr_keeps sq (t, w) t'" using rr_step_inv [OF assms(3) inv] by simp
  ultimately show ?thesis using assms(4) by (fastforce simp: rr_keeps_def)
qed

definition rr_mr8 :: mr where
  "rr_mr8 = \<lparr>mr_addr = 4096, mr_lkey = 1, mr_rkey = 2, mr_bytes = [0, 0, 0, 0, 0, 0, 0, 0]\<rparr>"

definition rr_cfg8 :: read_ring_config where
  "rr_cfg8 = \<lparr>rg_ring_capacity = 8, rg_max_message_size = 3, rg_max_in_flight = None,
     rg_token_timeout = 5, rg_max_inline_data = 0, rg_min_free_threshold = 0, rg_mw_mode = Auto\<rparr>"

definition rr_tok8 :: read_ring_token where
  "rr_tok8 = \<lparr>rtok_version = 1, rtok_reserved = [0, 0, 0], rtok_ring_va = 0, rtok_ring_capacity = 8, rtok_ring_rkey = 9, rtok_offset_va = 0, rtok_offset_rkey = 9\<rparr>"

definition rr_t0 :: read_ring where
  "rr_t0 = rr_from_parts (new_poster 7) (ArmPark (acq_n 0) CqIdle) (ArmPark (acq_n 1) CqIdle) 2 3
     rr_mr8 rr_mr8 None None rr_mr8 [mr2, mr2] rr_tok8 4 rr_cfg8"

lemma fifo_mem_contract: "mem_contract fifo_nic"
  by (simp add: mem_contract_def fifo_nic_def sim_nic_def)

lemma rr_t0_start: "rr_start fifo_nic 0 1 id (rr_t0, sim_world [])"
  unfolding rr_start_def rr_t0_def using fifo_nic_contract fifo_mem_contract
  by (intro exI conjI) (rule refl, auto simp: acq_n_def sim_world_def rr_mr8_def rr_cfg8_def rr_tok8_def)

lemma rr_t0_fields:
  "rr_peer_disconnected rr_t0 = False" "rr_send_in_flight rr_t0 = 0" "rr_read_in_flight rr_t0 = False"
  "rr_max_outstanding rr_t0 = 4" "rr_cached_remote_head rr_t0 = 0"
  "rr_sq_capacity rr_t0 = 7" "rr_config rr_t0 = rr_cfg8" "rr_remote_capacity rr_t0 = 8"
  "rr_send_ring rr_t0 = ring_new rr_mr8 8" "rr_qp rr_t0 = new_poster 7" "rr_remote_write_tail rr_t0 = 0"
  "rr_remote_addr rr_t0 = 0" "rr_remote_rkey rr_t0 = 9"
  by (simp_all add: rr_t0_def rr_from_parts_def rr_cfg8_def rr_tok8_def READ_RING_SQ_HEADROOM_def)

lemma rr_ring8:
  "reserve (Suc (Suc (Suc 0))) (ring_new m 8) = (Some (0, 0), (ring_new m 8)\<lparr>rb_tail := 3\<rparr>)"
  "rb_mr (ring_new m 8) = m" "ring_new m 8\<lparr>rb_tail := k, rb_mr := m'\<rparr> = ring_new m' 8\<lparr>rb_tail := k\<rparr>"
  "mr_bytes rr_mr8 = [0, 0, 0, 0, 0, 0, 0, 0]"
  by (simp_all add: reserve_def ring_new_def available_def used_def contiguous_free_def rr_mr8_def)

lemma rr_fifo_post: "post_send_wr fifo_nic (new_poster q) wr w = (Ok (), w\<lparr>hw := hw w @ [swr_id wr]\<rparr>)"
  by (simp add: post_send_wr_def fifo_nic_def sim_nic_def new_poster_def on_hw_def from_ret_def account_def)

text \<open>A run on the simulated device: three bytes of four are accepted; the next call is blocked
  and asks for the peer's head.\<close>

definition rr_t1 :: "nat res \<times> read_ring \<times> u64 list world" where
  "rr_t1 = rr_send_gather fifo_nic [[1, 2], [3, 4]] rr_t0 (sim_world [])"

lemma rr_t1_eq:
  "rr_t1 = (Ok 3,
     rr_t0\<lparr>rr_send_ring := ring_new (rr_mr8\<lparr>mr_bytes := [1, 2, 3, 0, 0, 0, 0, 0]\<rparr>) 8\<lparr>rb_tail := 3\<rparr>,
           rr_remote_write_tail := 3, rr_send_in_flight := 1, rr_read_in_flight := True\<rparr>,
     sim_world [3, WR_ID_READ_SENTINEL])"
  by (simp add: rr_t1_def rr_send_gather_def rr_send_in_space_def rr_t0_fields rr_cfg8_def rr_ring8
      rr_post_data_def remote_free_space_def SEND_COPY_MAX_WRS_def rr_proactive_read_def post_offset_read_def
      rr_fifo_post Let_def gather_into_eq slice_def upd_range_def sim_world_def)

definition rr_t2 :: "nat res \<times> read_ring \<times> u64 list world" where
  "rr_t2 = rr_send_gather fifo_nic [[5]] (fst (snd rr_t1)) (snd (snd rr_t1))"

lemma rr_t1_run: "(rr_step fifo_nic)\<^sup>*\<^sup>* (rr_t0, sim_world []) (snd rr_t1)"
  and rr_t2_step: "rr_step fifo_nic (snd rr_t1) (snd rr_t2)"
proof -
  have "rr_step fifo_nic (rr_t0, sim_world []) (snd rr_t1)"
    by (cases rr_t1) (auto simp: rr_t1_def intro: rr_step.send_gather)
  then show "(rr_step fifo_nic)\<^sup>*\<^sup>* (rr_t0, sim_world []) (snd rr_t1)" by blast
  show "rr_step fifo_nic (snd rr_t1) (snd rr_t2)"
    by (metis rr_step.send_gather rr_t2_def prod.collapse)
qed

theorem rr_no_overwrite_witness:
  "\<exists>ms. ring_matches (rr_send_ring (fst (snd rr_t1))) [3, WR_ID_READ_SENTINEL] ms \<and>
     map (\<lambda>(off, pad, len). slice (mr_bytes (rb_mr (rr_send_ring (fst (snd rr_t2))))) off (off + len)) ms =
     map (\<lambda>(off, pad, len). slice [1, 2, 3, 0, 0, 0, 0, 0] off (off + len)) ms"
proof -
  have "\<not> rr_peer_disconnected (fst (snd rr_t1))" by (simp add: rr_t1_eq rr_t0_fields)
  from rr_no_overwrite [OF rr_t0_start _ _ this, of "snd (snd rr_t1)" "fst (snd rr_t2)" "snd (snd rr_t2)"]
    rr_t1_run rr_t2_step
  obtain ms where "ring_matches (rr_send_ring (fst (snd rr_t1))) (hw (snd (snd rr_t1))) ms"
    and k: "\<forall>(off, pad, len) \<in> set ms.
      slice (mr_bytes (rb_mr (rr_send_ring (fst (snd rr_t2))))) off (off + len) =
      slice (mr_bytes (rb_mr (rr_send_ring (fst (snd rr_t1))))) off (off + len)" by auto
  moreover have "hw (snd (snd rr_t1)) = [3, WR_ID_READ_SENTINEL]"
    "mr_bytes (rb_mr (rr_send_ring (fst (snd rr_t1)))) = [1, 2, 3, 0, 0, 0, 0, 0]"
    by (simp_all add: rr_t1_eq sim_world_def rr_ring8)
  ultimately show ?thesis by (intro exI [of _ ms]) (auto intro!: map_cong)
qed

text \<open>C21: Counters bound the queue and the head is in range. After any sequence of trait-method
  calls on a fresh transport the device owns at most \<open>send_in_flight\<close> writes and one read, never
  more than the queue pair holds; the slot map, the slot lengths, the tracker and the doorbell
  index stay well formed and the receive head stays inside the ring; and with rings of equal
  size the remote write cursor is the tail of the send ring.\<close>

theorem rr_queue_bound:
  assumes "rr_start nic scq rcq sq s0" "(rr_step nic)\<^sup>*\<^sup>* s0 (t, w)"
  shows "length (sq (hw w)) \<le> rr_sends_in_flight t + of_bool (rr_read_in_flight t)
    \<and> rr_sends_in_flight t + of_bool (rr_read_in_flight t) < rr_sq_capacity t
    \<and> length (rr_virtual_idx_map t) = rr_recv_window t \<and> rr_next_virt_idx t < rr_recv_window t
    \<and> length (rr_slot_lengths t) = rr_recv_window t \<and> rr_head_slot_idx t < rr_recv_window t
    \<and> tracker_wf (rr_recv_tracker t) \<and> ct_capacity (rr_recv_tracker t) = rr_recv_window t
    \<and> rr_doorbell_repost_idx t < length (rr_doorbell_bufs t)
    \<and> rb_head (rr_recv_ring t) < rb_capacity (rr_recv_ring t)
    \<and> (if rr_remote_capacity t = rb_capacity (rr_send_ring t)
        then rr_remote_write_tail t = rb_tail (rr_send_ring t) else True)"
proof -
  have inv: "rr_inv nic scq rcq sq (t, w)" by (rule rr_reach_inv [OF assms])
  note I = rr_invD [OF inv]
  have "rr_rwf t" using I(1) by (simp add: rr_ready_def)
  with rr_counts_length [OF I(13)] I(11,12,14) show ?thesis
    by (auto simp: rr_rwf_def rr_sends_in_flight_def rr_recv_window_def ring_wf_def rr_mirror_def)
qed

theorem rr_queue_bound_witness:
  "length (hw (snd (snd rr_t1))) \<le> rr_sends_in_flight (fst (snd rr_t1)) + of_bool True
     \<and> rr_sends_in_flight (fst (snd rr_t1)) + of_bool True < (7 :: nat)"
  using rr_queue_bound [OF rr_t0_start, of "fst (snd rr_t1)" "snd (snd rr_t1)"] rr_t1_run
  by (simp add: rr_t1_eq rr_t0_fields)



text \<open>C26: The published head is cumulative. Let \<open>R\<close> be the set of arrival numbers released so
  far, and suppose the head slot is that of the least number not in it. Releasing a further
  number of the window never fails, moves the head of the receive ring over the lengths of the
  newly contiguous arrivals, publishes it in the offset buffer, and leaves the head slot at the
  least number not released.\<close>

theorem rr_release_cumulative:
  assumes "rr_rwf t" "tracks (rr_recv_tracker t) R" "rr_head_slot_idx t = ack R mod rr_max_outstanding t"
    and "ack R \<le> s" "s < ack R + rr_max_outstanding t"
    and "rr_offset_buffer t = word_of_nat (rb_head (rr_recv_ring t))"
    and "rr_release_seq s t = (r, t')"
  shows "r = Ok () \<and> tracks (rr_recv_tracker t') (insert s R)
    \<and> rr_head_slot_idx t' = ack (insert s R) mod rr_max_outstanding t
    \<and> rr_recv_ring t' = release (sum_list (map (\<lambda>j. rr_slot_lengths t ! (j mod rr_max_outstanding t))
          [ack R..<ack (insert s R)])) (rr_recv_ring t)
    \<and> rr_offset_buffer t' = word_of_nat (rb_head (rr_recv_ring t'))"
proof -
  let ?m = "rr_max_outstanding t"
  have cap: "ct_capacity (rr_recv_tracker t) = ?m" "?m \<noteq> 0" "length (rr_slot_lengths t) = ?m"
    "rb_head (rr_recv_ring t) < rb_capacity (rr_recv_ring t)"
    using assms(1) by (auto simp: rr_rwf_def ring_wf_def)
  obtain k tr where tr: "tracker_release (s mod ?m) (rr_recv_tracker t) = (Ok k, tr)"
    "ack (insert s R) = ack R + k" "tracks tr (insert s R)"
    using tracker_release_ack [OF assms(2,4)] assms(5) cap(1) by metis
  have "ct_capacity tr = ?m"
    using tracker_release_eq [of "rr_recv_tracker t" "s mod ?m"] assms(1) tr(1) cap
    by (auto simp: rr_rwf_def Let_def chased_def)
  then have wf: "rr_rwf (t\<lparr>rr_recv_tracker := tr\<rparr>)" using assms(1) tr(3) by (simp add: rr_rwf_def tracks_def Let_def)
  have sum: "slot_sum (rr_slot_lengths t) (rr_head_slot_idx t) k =
      sum_list (map (\<lambda>j. rr_slot_lengths t ! (j mod ?m)) [ack R..<ack R + k])"
    unfolding slot_sum_def assms(3) cap(3)
    by (simp add: mod_simps add.commute flip: map_add_upt) (simp add: o_def)
  show ?thesis
  proof (cases "k > 0")
    case False
    with assms(3,6,7) tr cap show ?thesis by (auto simp: rr_release_seq_def release_def)
  next
    case True
    with assms(3,7) tr cap sum show ?thesis
      by (auto simp: rr_release_seq_def advance_recv_head_eq [OF wf] Let_def mod_simps)
  qed
qed

theorem rr_release_cumulative_witness:
  "\<exists>t'. rr_release_seq 0 rr_t0 = (Ok (), t') \<and> tracks (rr_recv_tracker t') {0}
     \<and> rr_head_slot_idx t' = ack {0} mod 4"
proof -
  have a: "ack {} = 0" by (rule ack_eq) auto
  have wf: "rr_rwf rr_t0"
    using rr_invD(1) [OF rr_start_inv [OF rr_t0_start]] by (simp add: rr_ready_def)
  have f: "rr_recv_tracker rr_t0 = tracker_new 4" "rr_head_slot_idx rr_t0 = 0"
    "rr_offset_buffer rr_t0 = 0" "rr_recv_ring rr_t0 = ring_new rr_mr8 8"
    by (simp_all add: rr_t0_def rr_from_parts_def rr_cfg8_def)
  obtain r t' where e: "rr_release_seq 0 rr_t0 = (r, t')" by (rule prod.exhaust)
  from rr_release_cumulative [OF wf _ _ _ _ _ e, of "{}"] show ?thesis
    by (auto simp: a f e tracks_new rr_t0_fields ring_new_def)
qed

text \<open>C31: A window below three sends nothing. With \<open>max_outstanding\<close> at most two, which the
  window computation allows, no call of \<open>send_gather\<close> on a live connection accepts a byte, in
  any state and on any device.\<close>

theorem rr_small_window_never_sends:
  assumes "rr_max_outstanding t < SEND_COPY_MAX_WRS" "rr_send_gather nic bufs t w = (Ok n, t', w')"
  shows "n = 0 \<and> rr_send_ring t' = rr_send_ring t"
  using assms
  by (auto simp: rr_send_gather_def Let_def rr_blocked_def post_offset_read_def
      split: if_splits prod.splits outcome.splits)

definition rr_t0_small :: read_ring where
  "rr_t0_small = rr_t0\<lparr>rr_max_outstanding := clamp_max_outstanding 8 8 None READ_RING_SQ_HEADROOM 100\<rparr>"

theorem rr_small_window_never_sends_witness:
  "\<exists>n t' w'. rr_send_gather fifo_nic [[1]] rr_t0_small (sim_world []) = (Ok n, t', w')
     \<and> n = 0 \<and> rr_send_ring t' = rr_send_ring rr_t0_small"
proof -
  have w: "rr_max_outstanding rr_t0_small = 1"
    by (simp add: rr_t0_small_def clamp_max_outstanding_def READ_RING_SQ_HEADROOM_def)
  obtain t' w' where "rr_send_gather fifo_nic [[1]] rr_t0_small (sim_world []) = (Ok 0, t', w')"
    by (simp add: rr_t0_small_def rr_send_gather_def w [unfolded rr_t0_small_def] rr_t0_fields SEND_COPY_MAX_WRS_def
        rr_blocked_def post_offset_read_def rr_fifo_post Let_def clamp_max_outstanding_def READ_RING_SQ_HEADROOM_def)
  moreover from rr_small_window_never_sends [OF _ this] have "rr_send_ring t' = rr_send_ring rr_t0_small"
    by (simp add: w SEND_COPY_MAX_WRS_def)
  ultimately show ?thesis by blast
qed

end
