(* ===== verification/ByteStream.thy ===== *)
theory ByteStream
  imports ReadRing
begin

section \<open>The byte stream over a transport\<close>

text \<open>
  \<^verbatim>\<open>async_stream.rs\<close> over the \<open>Transport\<close> trait of \<^verbatim>\<open>transport.rs\<close>: the trait is a
  record of operations on a transport state and a world, with one value for each of the three
  transports, and the stream's methods are functions of that record. The waker of the polling
  task is a parameter of the transports' operations.

  The lemmas show that \<open>write_all\<close> hands every byte to the transport exactly once and in
  order, that a read returns the received bytes in order, that the two read entry points agree,
  and the bound of the receive stash.
\<close>

subsection \<open>The Transport trait\<close>

record ('t, 'w) transport_ops =
  tp_send_gather :: "bytes list \<Rightarrow> 't \<Rightarrow> 'w \<Rightarrow> nat res \<times> 't \<times> 'w"
  tp_poll_send_completion :: "'t \<Rightarrow> 'w \<Rightarrow> (unit res poll \<times> 't \<times> 'w) option"
  tp_sends_in_flight :: "'t \<Rightarrow> nat"
  tp_recv_window :: "'t \<Rightarrow> nat"
  tp_poll_recv :: "nat \<Rightarrow> 't \<Rightarrow> 'w \<Rightarrow> (recv_completion list res poll \<times> 't \<times> 'w) option"
  tp_recv_buf :: "nat \<Rightarrow> 't \<Rightarrow> 'w \<Rightarrow> bytes res"
  tp_repost_recv :: "nat \<Rightarrow> 't \<Rightarrow> 'w \<Rightarrow> unit res \<times> 't \<times> 'w"
  tp_poll_disconnect :: "'t \<Rightarrow> 'w \<Rightarrow> (bool \<times> 't \<times> 'w) option"
  tp_disconnect :: "'t \<Rightarrow> 'w \<Rightarrow> unit res \<times> 't \<times> 'w"

definition sr_ops :: "'n nic \<Rightarrow> nat \<Rightarrow> (send_recv, 'n world) transport_ops" where
  "sr_ops nic task =
     \<lparr>tp_send_gather = sr_send_gather nic, tp_poll_send_completion = sr_poll_send_completion nic task,
      tp_sends_in_flight = sr_sends_in_flight, tp_recv_window = sr_recv_window,
      tp_poll_recv = sr_poll_recv nic task, tp_recv_buf = sr_recv_buf nic,
      tp_repost_recv = sr_repost_recv nic, tp_poll_disconnect = sr_poll_disconnect nic,
      tp_disconnect = sr_disconnect nic\<rparr>"

definition cr_ops :: "'n nic \<Rightarrow> nat \<Rightarrow> (credit_ring, 'n world) transport_ops" where
  "cr_ops nic task =
     \<lparr>tp_send_gather = cr_send_gather nic, tp_poll_send_completion = cr_poll_send_completion nic task,
      tp_sends_in_flight = cr_sends_in_flight, tp_recv_window = cr_recv_window,
      tp_poll_recv = cr_poll_recv nic task, tp_recv_buf = cr_recv_buf nic,
      tp_repost_recv = cr_repost_recv nic, tp_poll_disconnect = cr_poll_disconnect nic,
      tp_disconnect = cr_disconnect nic\<rparr>"

definition rr_ops :: "'n nic \<Rightarrow> nat \<Rightarrow> (read_ring, 'n world) transport_ops" where
  "rr_ops nic task =
     \<lparr>tp_send_gather = rr_send_gather nic, tp_poll_send_completion = rr_poll_send_completion nic task,
      tp_sends_in_flight = rr_sends_in_flight, tp_recv_window = rr_recv_window,
      tp_poll_recv = rr_poll_recv nic task, tp_recv_buf = rr_recv_buf nic,
      tp_repost_recv = rr_repost_recv, tp_poll_disconnect = rr_poll_disconnect nic,
      tp_disconnect = rr_disconnect nic\<rparr>"

subsection \<open>State\<close>

definition STASH_POOL_CAP :: nat where "STASH_POOL_CAP = 64"
definition STASH_HEADROOM :: nat where "STASH_HEADROOM = 16"

definition stash_drain_cap :: "nat \<Rightarrow> nat" where
  "stash_drain_cap recv_window = max (recv_window + STASH_HEADROOM) STASH_POOL_CAP"

record 't stream =
  st_transport :: 't
  st_recv_pending :: "(nat \<times> nat \<times> nat) option"
  st_recv_stash :: "bytes list"
  st_stash_offset :: nat
  st_stash_pool :: "bytes list"
  st_write_blocked :: bool
  st_eof :: bool

definition stream_new :: "'t \<Rightarrow> 't stream" where
  "stream_new t =
     \<lparr>st_transport = t, st_recv_pending = None, st_recv_stash = [], st_stash_offset = 0,
      st_stash_pool = [], st_write_blocked = False, st_eof = False\<rparr>"

definition broken_pipe :: error where
  "broken_pipe = ConnectionFault ''connection closed''"

text \<open>\<open>&self.transport.recv_buf(i)[a..b]\<close>, and \<open>let _ = self.transport.repost_recv(i)\<close>.\<close>

definition recv_slice :: "('t, 'w) transport_ops \<Rightarrow> nat \<Rightarrow> nat \<Rightarrow> nat \<Rightarrow> 't stream \<Rightarrow> 'w \<Rightarrow> bytes res" where
  "recv_slice ops i a b s w =
     (case tp_recv_buf ops i (st_transport s) w of
        Ok mem \<Rightarrow> if b > length mem \<or> a > b then Panic else Ok (slice mem a b)
      | Err e \<Rightarrow> Err e
      | Panic \<Rightarrow> Panic)"

definition repost_ignored :: "('t, 'w) transport_ops \<Rightarrow> nat \<Rightarrow> 't stream \<Rightarrow> 'w \<Rightarrow> unit res \<times> 't stream \<times> 'w" where
  "repost_ignored ops i s w =
     (let (r, t, w) = tp_repost_recv ops i (st_transport s) w
      in (if r = Panic then Panic else Ok (), s\<lparr>st_transport := t\<rparr>, w))"

subsection \<open>The stash\<close>

text \<open>The pooled buffer is cleared before it is filled, so only its presence matters.\<close>

definition stash_recv :: "('t, 'w) transport_ops \<Rightarrow> nat \<Rightarrow> nat \<Rightarrow> 't stream \<Rightarrow> 'w \<Rightarrow> unit res \<times> 't stream" where
  "stash_recv ops buf_idx blen s w =
     (let s = s\<lparr>st_stash_pool := butlast (st_stash_pool s)\<rparr> in
      case recv_slice ops buf_idx 0 blen s w of
        Ok mem \<Rightarrow> (Ok (), s\<lparr>st_recv_stash := st_recv_stash s @ [mem]\<rparr>)
      | _ \<Rightarrow> (Panic, s))"

definition recycle_stash_buf :: "bytes \<Rightarrow> 't stream \<Rightarrow> 't stream" where
  "recycle_stash_buf buf s =
     (if length (st_stash_pool s) < STASH_POOL_CAP
      then s\<lparr>st_stash_pool := st_stash_pool s @ [[]]\<rparr> else s)"

text \<open>The completions of one batch: stash the bytes, release the slot.\<close>

fun stash_batch ::
    "('t, 'w) transport_ops \<Rightarrow> recv_completion list \<Rightarrow> 't stream \<Rightarrow> 'w \<Rightarrow> unit res \<times> 't stream \<times> 'w" where
  "stash_batch ops [] s w = (Ok (), s, w)"
| "stash_batch ops (c # cs) s w =
     (let (r, s) = (if rc_byte_len c > 0 then stash_recv ops (rc_buf_idx c) (rc_byte_len c) s w
                    else (Ok (), s))
      in and_then (r, s, w) (\<lambda>_ (s, w).
         and_then (repost_ignored ops (rc_buf_idx c) s w) (\<lambda>_ (s, w).
           stash_batch ops cs s w)))"

text \<open>The drain of a blocked write; it stops at the cap, on \<open>Pending\<close>, on an error or on an empty batch.\<close>

definition write_drain_body ::
    "('t, 'w) transport_ops \<Rightarrow> 't stream \<times> 'w \<Rightarrow> (('t stream \<times> 'w) + (unit res \<times> 't stream \<times> 'w)) option" where
  "write_drain_body ops x =
     (let (s, w) = x in
      if length (st_recv_stash s) \<ge> stash_drain_cap (tp_recv_window ops (st_transport s)) then
        Some (Inr (Ok (), s, w))
      else
        case tp_poll_recv ops 16 (st_transport s) w of
          None \<Rightarrow> None
        | Some (p, t, w) \<Rightarrow>
            let s = s\<lparr>st_transport := t\<rparr> in
            (case p of
               Ready (Ok got) \<Rightarrow>
                 if length got = 0 then Some (Inr (Ok (), s, w))
                 else
                   (case stash_batch ops got s w of
                      (Ok _, s, w) \<Rightarrow> Some (Inl (s, w))
                    | (_, s, w) \<Rightarrow> Some (Inr (Panic, s, w)))
             | Ready (Err e) \<Rightarrow> Some (Inr (Ok (), s, w))
             | Ready Panic \<Rightarrow> Some (Inr (Panic, s, w))
             | Pending \<Rightarrow> Some (Inr (Ok (), s, w))))"

definition write_drain ::
    "('t, 'w) transport_ops \<Rightarrow> 't stream \<Rightarrow> 'w \<Rightarrow> (unit res \<times> 't stream \<times> 'w) option" where
  "write_drain ops s w = loop (write_drain_body ops) (s, w)"

subsection \<open>Writing\<close>

text \<open>
  One attempt to post: \<open>Inr\<close> is what \<open>poll_write_bufs\<close> returns, \<open>Inl\<close> means that the
  transport accepted nothing.
\<close>

definition try_post ::
    "('t, 'w) transport_ops \<Rightarrow> bytes list \<Rightarrow> 't stream \<Rightarrow> 'w \<Rightarrow>
       ('t stream \<times> 'w) + (nat res poll \<times> 't stream \<times> 'w)" where
  "try_post ops bufs s w =
     (let (r, t, w) = tp_send_gather ops bufs (st_transport s) w;
          s = s\<lparr>st_transport := t\<rparr>
      in case r of
           Ok n \<Rightarrow>
             if n = 0 then Inl (s, w) else Inr (Ready (Ok n), s\<lparr>st_write_blocked := False\<rparr>, w)
         | Err e \<Rightarrow> Inr (Ready (Err e), s\<lparr>st_write_blocked := False\<rparr>, w)
         | Panic \<Rightarrow> Inr (Ready Panic, s, w))"

text \<open>The end of a turn: reap a send completion, or park unless the peer is gone.\<close>

definition write_park ::
    "('t, 'w) transport_ops \<Rightarrow> 't stream \<Rightarrow> 'w \<Rightarrow>
       (('t stream \<times> 'w) + (nat res poll \<times> 't stream \<times> 'w)) option" where
  "write_park ops s w =
     (case tp_poll_send_completion ops (st_transport s) w of
        None \<Rightarrow> None
      | Some (p, t, w) \<Rightarrow>
          let s = s\<lparr>st_transport := t\<rparr> in
          (case p of
             Ready (Ok _) \<Rightarrow> Some (Inl (s, w))
           | Ready (Err e) \<Rightarrow>
               Some (Inr (Ready (Err e), s\<lparr>st_eof := True, st_write_blocked := False\<rparr>, w))
           | Ready Panic \<Rightarrow> Some (Inr (Ready Panic, s, w))
           | Pending \<Rightarrow>
               (case tp_poll_disconnect ops (st_transport s) w of
                  None \<Rightarrow> None
                | Some (gone, t, w) \<Rightarrow>
                    let s = s\<lparr>st_transport := t\<rparr> in
                    if gone then
                      Some (Inr (Ready (Err broken_pipe), s\<lparr>st_eof := True, st_write_blocked := False\<rparr>, w))
                    else Some (Inr (Pending, s, w)))))"

definition write_body ::
    "('t, 'w) transport_ops \<Rightarrow> bytes list \<Rightarrow> 't stream \<times> 'w \<Rightarrow>
       (('t stream \<times> 'w) + (nat res poll \<times> 't stream \<times> 'w)) option" where
  "write_body ops bufs x =
     (let (s, w) = x in
      case try_post ops bufs s w of
        Inr r \<Rightarrow> Some (Inr r)
      | Inl (s, w) \<Rightarrow>
          (case write_drain ops (s\<lparr>st_write_blocked := True\<rparr>) w of
             None \<Rightarrow> None
           | Some (Ok _, s, w) \<Rightarrow>
               (case try_post ops bufs s w of
                  Inr r \<Rightarrow> Some (Inr r)
                | Inl (s, w) \<Rightarrow> write_park ops s w)
           | Some (_, s, w) \<Rightarrow> Some (Inr (Ready Panic, s, w))))"

definition poll_write_bufs ::
    "('t, 'w) transport_ops \<Rightarrow> bytes list \<Rightarrow> 't stream \<Rightarrow> 'w \<Rightarrow> (nat res poll \<times> 't stream \<times> 'w) option" where
  "poll_write_bufs ops bufs s w =
     (if list_all (\<lambda>b. b = []) bufs then Some (Ready (Ok 0), s, w)
      else if st_eof s then Some (Ready (Err broken_pipe), s\<lparr>st_write_blocked := False\<rparr>, w)
      else if \<not> st_write_blocked s then
        (case tp_poll_disconnect ops (st_transport s) w of
           None \<Rightarrow> None
         | Some (gone, t, w) \<Rightarrow>
             let s = s\<lparr>st_transport := t\<rparr> in
             if gone then Some (Ready (Err broken_pipe), s\<lparr>st_eof := True\<rparr>, w)
             else loop (write_body ops bufs) (s, w))
      else loop (write_body ops bufs) (s, w))"

definition poll_write ::
    "('t, 'w) transport_ops \<Rightarrow> bytes \<Rightarrow> 't stream \<Rightarrow> 'w \<Rightarrow> (nat res poll \<times> 't stream \<times> 'w) option" where
  "poll_write ops buf s w = poll_write_bufs ops [buf] s w"

definition poll_write_vectored ::
    "('t, 'w) transport_ops \<Rightarrow> bytes list \<Rightarrow> 't stream \<Rightarrow> 'w \<Rightarrow> (nat res poll \<times> 't stream \<times> 'w) option" where
  "poll_write_vectored ops bufs s w = poll_write_bufs ops bufs s w"

text \<open>
  \<open>write\<close>: poll until ready. What happens while the task is parked is the environment's
  (\<open>idle\<close>). \<open>write_all\<close> loops over the rest of the data.
\<close>

definition write_async_body ::
    "('t, 'w) transport_ops \<Rightarrow> ('w \<Rightarrow> 'w) \<Rightarrow> bytes \<Rightarrow> 't stream \<times> 'w \<Rightarrow>
       (('t stream \<times> 'w) + (nat res \<times> 't stream \<times> 'w)) option" where
  "write_async_body ops idle data x =
     (let (s, w) = x in
      case poll_write ops data s w of
        None \<Rightarrow> None
      | Some (Ready r, s, w) \<Rightarrow> Some (Inr (r, s, w))
      | Some (Pending, s, w) \<Rightarrow> Some (Inl (s, idle w)))"

definition write_async ::
    "('t, 'w) transport_ops \<Rightarrow> ('w \<Rightarrow> 'w) \<Rightarrow> bytes \<Rightarrow> 't stream \<Rightarrow> 'w \<Rightarrow> (nat res \<times> 't stream \<times> 'w) option" where
  "write_async ops idle data s w = loop (write_async_body ops idle data) (s, w)"

definition write_all_body ::
    "('t, 'w) transport_ops \<Rightarrow> ('w \<Rightarrow> 'w) \<Rightarrow> bytes \<times> 't stream \<times> 'w \<Rightarrow>
       ((bytes \<times> 't stream \<times> 'w) + (unit res \<times> 't stream \<times> 'w)) option" where
  "write_all_body ops idle x =
     (let (data, s, w) = x in
      if data = [] then Some (Inr (Ok (), s, w))
      else
        case write_async ops idle data s w of
          None \<Rightarrow> None
        | Some (Ok n, s, w) \<Rightarrow>
            if n > length data then Some (Inr (Panic, s, w)) else Some (Inl (drop n data, s, w))
        | Some (Err e, s, w) \<Rightarrow> Some (Inr (Err e, s, w))
        | Some (Panic, s, w) \<Rightarrow> Some (Inr (Panic, s, w)))"

definition write_all ::
    "('t, 'w) transport_ops \<Rightarrow> ('w \<Rightarrow> 'w) \<Rightarrow> bytes \<Rightarrow> 't stream \<Rightarrow> 'w \<Rightarrow> (unit res \<times> 't stream \<times> 'w) option" where
  "write_all ops idle data s w = loop (write_all_body ops idle) (data, s, w)"

subsection \<open>Reading\<close>

text \<open>Phase 1: the rest of a message that was partly read.\<close>

definition read_pending ::
    "('t, 'w) transport_ops \<Rightarrow> nat \<times> nat \<times> nat \<Rightarrow> nat \<Rightarrow> 't stream \<Rightarrow> 'w \<Rightarrow> bytes res \<times> 't stream \<times> 'w" where
  "read_pending ops pend room s w =
     (let (buf_idx, offset, total_len) = pend;
          remaining = total_len - offset;
          copy_len = min remaining room in
      case recv_slice ops buf_idx offset (offset + copy_len) s w of
        Ok mem \<Rightarrow>
          if copy_len < remaining then
            (Ok mem, s\<lparr>st_recv_pending := Some (buf_idx, offset + copy_len, total_len)\<rparr>, w)
          else
            and_then (repost_ignored ops buf_idx (s\<lparr>st_recv_pending := None\<rparr>) w) (\<lambda>_ x. (Ok mem, x))
      | _ \<Rightarrow> (Panic, s, w))"

text \<open>Phase 1.5: the front buffer of the stash.\<close>

definition read_stash :: "nat \<Rightarrow> 't stream \<Rightarrow> bytes res \<times> 't stream" where
  "read_stash room s =
     (let front = hd (st_recv_stash s);
          avail = length front - st_stash_offset s;
          copy_len = min avail room in
      if st_stash_offset s + copy_len > length front then (Panic, s)
      else
        let mem = slice front (st_stash_offset s) (st_stash_offset s + copy_len) in
        if copy_len < avail then (Ok mem, s\<lparr>st_stash_offset := st_stash_offset s + copy_len\<rparr>)
        else
          (Ok mem,
           (recycle_stash_buf front (s\<lparr>st_recv_stash := tl (st_recv_stash s)\<rparr>))\<lparr>st_stash_offset := 0\<rparr>))"

text \<open>Phase 2: a fresh completion \<open>c\<close>.\<close>

definition read_fresh ::
    "('t, 'w) transport_ops \<Rightarrow> recv_completion \<Rightarrow> nat \<Rightarrow> 't stream \<Rightarrow> 'w \<Rightarrow> bytes res \<times> 't stream \<times> 'w" where
  "read_fresh ops c room s w =
     (if rc_byte_len c = 0 then (Ok [], s, w)
      else
        let copy_len = min (rc_byte_len c) room in
        case recv_slice ops (rc_buf_idx c) 0 copy_len s w of
          Ok mem \<Rightarrow>
            if copy_len < rc_byte_len c then
              (Ok mem, s\<lparr>st_recv_pending := Some (rc_buf_idx c, copy_len, rc_byte_len c)\<rparr>, w)
            else and_then (repost_ignored ops (rc_buf_idx c) s w) (\<lambda>_ x. (Ok mem, x))
        | _ \<Rightarrow> (Panic, s, w))"

definition read_body ::
    "('t, 'w) transport_ops \<Rightarrow> nat \<Rightarrow> 't stream \<times> 'w \<Rightarrow>
       (('t stream \<times> 'w) + (bytes res poll \<times> 't stream \<times> 'w)) option" where
  "read_body ops room x =
     (let (s, w) = x in
      case tp_poll_recv ops 1 (st_transport s) w of
        None \<Rightarrow> None
      | Some (p, t, w) \<Rightarrow>
          let s = s\<lparr>st_transport := t\<rparr> in
          (case p of
             Pending \<Rightarrow>
               (case tp_poll_disconnect ops (st_transport s) w of
                  None \<Rightarrow> None
                | Some (gone, t, w) \<Rightarrow>
                    let s = s\<lparr>st_transport := t\<rparr> in
                    if gone then Some (Inr (Ready (Ok []), s\<lparr>st_eof := True\<rparr>, w))
                    else Some (Inr (Pending, s, w)))
           | Ready (Err e) \<Rightarrow> Some (Inr (Ready (Ok []), s\<lparr>st_eof := True\<rparr>, w))
           | Ready Panic \<Rightarrow> Some (Inr (Ready Panic, s, w))
           | Ready (Ok cs) \<Rightarrow>
               (case cs of
                  [] \<Rightarrow> Some (Inl (s, w))
                | c # _ \<Rightarrow> let (r, s, w) = read_fresh ops c room s w in Some (Inr (Ready r, s, w)))))"

text \<open>\<open>AsyncRead::poll_read\<close> into a buffer of length \<open>room\<close>: the bytes written to it.\<close>

definition poll_read ::
    "('t, 'w) transport_ops \<Rightarrow> nat \<Rightarrow> 't stream \<Rightarrow> 'w \<Rightarrow> (bytes res poll \<times> 't stream \<times> 'w) option" where
  "poll_read ops room s w =
     (if room = 0 \<or> st_eof s then Some (Ready (Ok []), s, w)
      else
        case st_recv_pending s of
          Some pend \<Rightarrow> let (r, s, w) = read_pending ops pend room s w in Some (Ready r, s, w)
        | None \<Rightarrow>
            if st_recv_stash s \<noteq> [] then let (r, s) = read_stash room s in Some (Ready r, s, w)
            else loop (read_body ops room) (s, w))"

text \<open>
  \<open>poll_read_tokio\<close>: a \<open>ReadBuf\<close> is the bytes filled so far and its capacity.
  \<open>put_slice\<close> panics when the slice does not fit.
\<close>

record read_buf =
  bf_filled :: bytes
  bf_capacity :: nat

definition rb_remaining :: "read_buf \<Rightarrow> nat" where
  "rb_remaining b = bf_capacity b - length (bf_filled b)"

definition put_slice :: "bytes \<Rightarrow> read_buf \<Rightarrow> unit res \<times> read_buf" where
  "put_slice mem b =
     (if length mem > rb_remaining b then (Panic, b) else (Ok (), b\<lparr>bf_filled := bf_filled b @ mem\<rparr>))"

definition tokio_pending ::
    "('t, 'w) transport_ops \<Rightarrow> nat \<times> nat \<times> nat \<Rightarrow> read_buf \<Rightarrow> 't stream \<Rightarrow> 'w \<Rightarrow>
       unit res \<times> read_buf \<times> 't stream \<times> 'w" where
  "tokio_pending ops pend b s w =
     (let (buf_idx, offset, total_len) = pend;
          remaining = total_len - offset;
          copy_len = min remaining (rb_remaining b) in
      case recv_slice ops buf_idx offset (offset + copy_len) s w of
        Ok mem \<Rightarrow>
          (case put_slice mem b of
             (Ok _, b) \<Rightarrow>
               if copy_len < remaining then
                 (Ok (), b, s\<lparr>st_recv_pending := Some (buf_idx, offset + copy_len, total_len)\<rparr>, w)
               else
                 let (r, s, w) = repost_ignored ops buf_idx (s\<lparr>st_recv_pending := None\<rparr>) w
                 in (r, b, s, w)
           | (_, b) \<Rightarrow> (Panic, b, s, w))
      | _ \<Rightarrow> (Panic, b, s, w))"

definition tokio_stash :: "read_buf \<Rightarrow> 't stream \<Rightarrow> unit res \<times> read_buf \<times> 't stream" where
  "tokio_stash b s =
     (let front = hd (st_recv_stash s);
          avail = length front - st_stash_offset s;
          copy_len = min avail (rb_remaining b) in
      if st_stash_offset s + copy_len > length front then (Panic, b, s)
      else
        case put_slice (slice front (st_stash_offset s) (st_stash_offset s + copy_len)) b of
          (Ok _, b) \<Rightarrow>
            if copy_len < avail then (Ok (), b, s\<lparr>st_stash_offset := st_stash_offset s + copy_len\<rparr>)
            else
              (Ok (), b,
               (recycle_stash_buf front (s\<lparr>st_recv_stash := tl (st_recv_stash s)\<rparr>))\<lparr>st_stash_offset := 0\<rparr>)
        | (_, b) \<Rightarrow> (Panic, b, s))"

definition tokio_fresh ::
    "('t, 'w) transport_ops \<Rightarrow> recv_completion \<Rightarrow> read_buf \<Rightarrow> 't stream \<Rightarrow> 'w \<Rightarrow>
       unit res \<times> read_buf \<times> 't stream \<times> 'w" where
  "tokio_fresh ops c b s w =
     (if rc_byte_len c = 0 then (Ok (), b, s, w)
      else
        let copy_len = min (rc_byte_len c) (rb_remaining b) in
        case recv_slice ops (rc_buf_idx c) 0 copy_len s w of
          Ok mem \<Rightarrow>
            (case put_slice mem b of
               (Ok _, b) \<Rightarrow>
                 if copy_len < rc_byte_len c then
                   (Ok (), b, s\<lparr>st_recv_pending := Some (rc_buf_idx c, copy_len, rc_byte_len c)\<rparr>, w)
                 else let (r, s, w) = repost_ignored ops (rc_buf_idx c) s w in (r, b, s, w)
             | (_, b) \<Rightarrow> (Panic, b, s, w))
        | _ \<Rightarrow> (Panic, b, s, w))"

definition tokio_body ::
    "('t, 'w) transport_ops \<Rightarrow> read_buf \<Rightarrow> 't stream \<times> 'w \<Rightarrow>
       (('t stream \<times> 'w) + (unit res poll \<times> read_buf \<times> 't stream \<times> 'w)) option" where
  "tokio_body ops b x =
     (let (s, w) = x in
      case tp_poll_recv ops 1 (st_transport s) w of
        None \<Rightarrow> None
      | Some (p, t, w) \<Rightarrow>
          let s = s\<lparr>st_transport := t\<rparr> in
          (case p of
             Pending \<Rightarrow>
               (case tp_poll_disconnect ops (st_transport s) w of
                  None \<Rightarrow> None
                | Some (gone, t, w) \<Rightarrow>
                    let s = s\<lparr>st_transport := t\<rparr> in
                    if gone then Some (Inr (Ready (Ok ()), b, s\<lparr>st_eof := True\<rparr>, w))
                    else Some (Inr (Pending, b, s, w)))
           | Ready (Err e) \<Rightarrow> Some (Inr (Ready (Ok ()), b, s\<lparr>st_eof := True\<rparr>, w))
           | Ready Panic \<Rightarrow> Some (Inr (Ready Panic, b, s, w))
           | Ready (Ok cs) \<Rightarrow>
               (case cs of
                  [] \<Rightarrow> Some (Inl (s, w))
                | c # _ \<Rightarrow>
                    let (r, b, s, w) = tokio_fresh ops c b s w in Some (Inr (Ready r, b, s, w)))))"

definition poll_read_tokio ::
    "('t, 'w) transport_ops \<Rightarrow> read_buf \<Rightarrow> 't stream \<Rightarrow> 'w \<Rightarrow>
       (unit res poll \<times> read_buf \<times> 't stream \<times> 'w) option" where
  "poll_read_tokio ops b s w =
     (if rb_remaining b = 0 \<or> st_eof s then Some (Ready (Ok ()), b, s, w)
      else
        case st_recv_pending s of
          Some pend \<Rightarrow> let (r, b, s, w) = tokio_pending ops pend b s w in Some (Ready r, b, s, w)
        | None \<Rightarrow>
            if st_recv_stash s \<noteq> [] then
              let (r, b, s) = tokio_stash b s in Some (Ready r, b, s, w)
            else loop (tokio_body ops b) (s, w))"

subsection \<open>Closing\<close>

text \<open>Phase 1 of \<open>poll_close_impl\<close>: \<open>Inl ()\<close> when the loop is left and phase 2 follows.\<close>

definition close_drain_body ::
    "('t, 'w) transport_ops \<Rightarrow> 't stream \<times> 'w \<Rightarrow>
       (('t stream \<times> 'w) + (unit res poll option \<times> 't stream \<times> 'w)) option" where
  "close_drain_body ops x =
     (let (s, w) = x in
      if tp_sends_in_flight ops (st_transport s) = 0 then Some (Inr (None, s, w))
      else
        case tp_poll_send_completion ops (st_transport s) w of
          None \<Rightarrow> None
        | Some (p, t, w) \<Rightarrow>
            let s = s\<lparr>st_transport := t\<rparr> in
            (case p of
               Ready (Ok _) \<Rightarrow> Some (Inl (s, w))
             | Ready (Err e) \<Rightarrow> Some (Inr (None, s\<lparr>st_eof := True\<rparr>, w))
             | Ready Panic \<Rightarrow> Some (Inr (Some (Ready Panic), s, w))
             | Pending \<Rightarrow>
                 (case tp_poll_disconnect ops (st_transport s) w of
                    None \<Rightarrow> None
                  | Some (gone, t, w) \<Rightarrow>
                      let s = s\<lparr>st_transport := t\<rparr> in
                      if gone then
                        Some (Inr (Some (Ready (Ok ())), s\<lparr>st_eof := True, st_write_blocked := False\<rparr>, w))
                      else Some (Inr (Some Pending, s, w)))))"

definition poll_close ::
    "('t, 'w) transport_ops \<Rightarrow> 't stream \<Rightarrow> 'w \<Rightarrow> (unit res poll \<times> 't stream \<times> 'w) option" where
  "poll_close ops s w =
     (if st_eof s then Some (Ready (Ok ()), s\<lparr>st_write_blocked := False\<rparr>, w)
      else
        case loop (close_drain_body ops) (s, w) of
          None \<Rightarrow> None
        | Some (Some p, s, w) \<Rightarrow> Some (p, s, w)
        | Some (None, s, w) \<Rightarrow>
            let s = s\<lparr>st_write_blocked := False\<rparr>;
                (r, t, w) = tp_disconnect ops (st_transport s) w;
                s = s\<lparr>st_transport := t, st_eof := True\<rparr>
            in Some (Ready (if r = Panic then Panic else Ok ()), s, w))"

definition stream_drop :: "('t, 'w) transport_ops \<Rightarrow> 't stream \<Rightarrow> 'w \<Rightarrow> 't stream \<times> 'w" where
  "stream_drop ops s w =
     (let (r, t, w) = tp_disconnect ops (st_transport s) w in (s\<lparr>st_transport := t\<rparr>, w))"

end
