(* ===== verification/StreamLog.thy ===== *)
theory StreamLog
  imports ByteStream CreditRingInv
begin

section \<open>The byte stream: what a write hands over, and the two read entry points\<close>

text \<open>
  A transport with a log: the same operations, and every byte \<open>send_gather\<close> accepts is appended
  to the log. The stream behaves the same over it, and the log shows what \<open>write_all\<close> hands over.
\<close>

subsection \<open>A transport with a log\<close>

definition logged :: "('t, 'w) transport_ops \<Rightarrow> ('t \<times> bytes, 'w) transport_ops" where
  "logged ops =
     \<lparr>tp_send_gather = (\<lambda>bufs (t, l) w.
        let (r, t, w) = tp_send_gather ops bufs t w
        in (r, (t, l @ (case r of Ok n \<Rightarrow> take n (concat bufs) | _ \<Rightarrow> [])), w)),
      tp_poll_send_completion = (\<lambda>(t, l) w. map_option (\<lambda>(p, t, w). (p, (t, l), w)) (tp_poll_send_completion ops t w)),
      tp_sends_in_flight = (\<lambda>(t, l). tp_sends_in_flight ops t),
      tp_recv_window = (\<lambda>(t, l). tp_recv_window ops t),
      tp_poll_recv = (\<lambda>n (t, l) w. map_option (\<lambda>(p, t, w). (p, (t, l), w)) (tp_poll_recv ops n t w)),
      tp_recv_buf = (\<lambda>i (t, l) w. tp_recv_buf ops i t w),
      tp_repost_recv = (\<lambda>i (t, l) w. let (r, t, w) = tp_repost_recv ops i t w in (r, (t, l), w)),
      tp_poll_disconnect = (\<lambda>(t, l) w. map_option (\<lambda>(b, t, w). (b, (t, l), w)) (tp_poll_disconnect ops t w)),
      tp_disconnect = (\<lambda>(t, l) w. let (r, t, w) = tp_disconnect ops t w in (r, (t, l), w))\<rparr>"

definition with_log :: "bytes \<Rightarrow> 't stream \<Rightarrow> ('t \<times> bytes) stream" where
  "with_log l s =
     \<lparr>st_transport = (st_transport s, l), st_recv_pending = st_recv_pending s, st_recv_stash = st_recv_stash s,
      st_stash_offset = st_stash_offset s, st_stash_pool = st_stash_pool s,
      st_write_blocked = st_write_blocked s, st_eof = st_eof s\<rparr>"

lemma with_log_simps [simp]:
  "st_transport (with_log l s) = (st_transport s, l)" "st_recv_stash (with_log l s) = st_recv_stash s"
  "st_stash_pool (with_log l s) = st_stash_pool s" "st_write_blocked (with_log l s) = st_write_blocked s"
  "st_eof (with_log l s) = st_eof s"
  "(with_log l s)\<lparr>st_transport := (t, l')\<rparr> = with_log l' (s\<lparr>st_transport := t\<rparr>)"
  "(with_log l s)\<lparr>st_recv_stash := v\<rparr> = with_log l (s\<lparr>st_recv_stash := v\<rparr>)"
  "(with_log l s)\<lparr>st_stash_pool := v\<rparr> = with_log l (s\<lparr>st_stash_pool := v\<rparr>)"
  "(with_log l s)\<lparr>st_write_blocked := b\<rparr> = with_log l (s\<lparr>st_write_blocked := b\<rparr>)"
  "(with_log l s)\<lparr>st_eof := b\<rparr> = with_log l (s\<lparr>st_eof := b\<rparr>)"
  "(with_log l s)\<lparr>st_eof := b, st_write_blocked := c\<rparr> = with_log l (s\<lparr>st_eof := b, st_write_blocked := c\<rparr>)"
  by (simp_all add: with_log_def)

lemma logged_simps [simp]:
  "tp_poll_send_completion (logged ops) (t, l) w =
     map_option (\<lambda>(p, t, w). (p, (t, l), w)) (tp_poll_send_completion ops t w)"
  "tp_recv_window (logged ops) (t, l) = tp_recv_window ops t"
  "tp_poll_recv (logged ops) n (t, l) w = map_option (\<lambda>(p, t, w). (p, (t, l), w)) (tp_poll_recv ops n t w)"
  "tp_recv_buf (logged ops) i (t, l) w = tp_recv_buf ops i t w"
  "tp_poll_disconnect (logged ops) (t, l) w = map_option (\<lambda>(b, t, w). (b, (t, l), w)) (tp_poll_disconnect ops t w)"
  by (simp_all add: logged_def)

lemma logged_send:
  "tp_send_gather ops bufs t w = (r, t', w') \<Longrightarrow>
     tp_send_gather (logged ops) bufs (t, l) w =
       (r, (t', l @ (case r of Ok n \<Rightarrow> take n (concat bufs) | _ \<Rightarrow> [])), w')"
  and logged_repost:
  "tp_repost_recv ops i t w = (u, t', w') \<Longrightarrow> tp_repost_recv (logged ops) i (t, l) w = (u, (t', l), w')"
  by (simp_all add: logged_def)

text \<open>Draining and parking leave the log alone.\<close>

lemma stash_recv_log:
  "stash_recv (logged ops) i n (with_log l s) w = (let (r, s') = stash_recv ops i n s w in (r, with_log l s'))"
  by (auto simp: stash_recv_def recv_slice_def Let_def split: outcome.splits)

lemma repost_ignored_log:
  "repost_ignored (logged ops) i (with_log l s) w =
     (let (r, s', w') = repost_ignored ops i s w in (r, with_log l s', w'))"
  by (auto simp: repost_ignored_def Let_def logged_repost split: prod.splits)

lemma stash_batch_log:
  "stash_batch (logged ops) cs (with_log l s) w =
     (let (r, s', w') = stash_batch ops cs s w in (r, with_log l s', w'))"
proof (induction cs arbitrary: s w)
  case (Cons c cs)
  obtain r1 s1 where 1: "(if rc_byte_len c > 0 then stash_recv ops (rc_buf_idx c) (rc_byte_len c) s w
                    else (Ok (), s)) = (r1, s1)" by (rule prod.exhaust)
  then have 2: "(if rc_byte_len c > 0 then stash_recv (logged ops) (rc_buf_idx c) (rc_byte_len c) (with_log l s) w
                    else (Ok (), with_log l s)) = (r1, with_log l s1)"
    by (auto simp: stash_recv_log split: if_splits)
  obtain r2 s2 w2 where 3: "repost_ignored ops (rc_buf_idx c) s1 w = (r2, s2, w2)" by (rule prod_cases3)
  show ?case
    unfolding stash_batch.simps 1 2 by (cases r1; cases r2) (auto simp: 3 repost_ignored_log Cons.IH)
qed simp

lemma write_drain_body_log:
  "write_drain_body (logged ops) (with_log l s, w) =
     map_option (map_sum (\<lambda>(s, w). (with_log l s, w)) (\<lambda>(r, s, w). (r, with_log l s, w)))
       (write_drain_body ops (s, w))"
proof (cases "tp_poll_recv ops 16 (st_transport s) w")
  case (Some x)
  obtain p t w1 where x: "x = (p, t, w1)" by (rule prod_cases3)
  obtain r s2 w2 where b: "stash_batch ops (case p of Ready (Ok got) \<Rightarrow> got | _ \<Rightarrow> []) (s\<lparr>st_transport := t\<rparr>) w1
      = (r, s2, w2)" by (rule prod_cases3)
  from Some x b show ?thesis
    by (cases r) (auto simp: write_drain_body_def Let_def stash_batch_log split: poll.splits outcome.splits)
qed (simp add: write_drain_body_def)

lemma write_drain_log:
  assumes "write_drain ops s w = Some (r, s', w')"
  shows "write_drain (logged ops) (with_log l s) w = Some (r, with_log l s', w')"
proof -
  let ?h = "\<lambda>(s, w). (with_log l s, w)" and ?k = "\<lambda>(r, s, w). (r, with_log l s, w)"
  have "\<exists>y. loop (write_drain_body (logged ops)) (?h (s, w)) = Some y \<and> y = ?k (r, s', w')"
  proof (rule loop_sim [where S = "\<lambda>x y. y = ?h x" and R = "\<lambda>x y. y = ?k x" and f = "write_drain_body ops"])
    show "loop (write_drain_body ops) (s, w) = Some (r, s', w')" using assms by (simp add: write_drain_def)
  qed (auto simp: write_drain_body_log)
  then show ?thesis by (simp add: write_drain_def)
qed

lemma write_park_log:
  "write_park ops s w = Some (Inl (s', w')) \<Longrightarrow>
     write_park (logged ops) (with_log l s) w = Some (Inl (with_log l s', w'))"
  "write_park ops s w = Some (Inr (p, s', w')) \<Longrightarrow>
     write_park (logged ops) (with_log l s) w = Some (Inr (p, with_log l s', w'))
     \<and> (\<forall>n. p \<noteq> Ready (Ok n))"
  by (auto simp: write_park_def Let_def split: if_splits option.splits poll.splits outcome.splits)

text \<open>The bytes a finished poll handed over.\<close>

definition handed :: "nat res poll \<Rightarrow> bytes list \<Rightarrow> bytes" where
  "handed p bufs = (case p of Ready (Ok n) \<Rightarrow> take n (concat bufs) | _ \<Rightarrow> [])"

lemma try_post_log:
  "try_post ops bufs s w = Inl (s', w') \<Longrightarrow>
     try_post (logged ops) bufs (with_log l s) w = Inl (with_log l s', w')"
  "try_post ops bufs s w = Inr (p, s', w') \<Longrightarrow>
     try_post (logged ops) bufs (with_log l s) w = Inr (p, with_log (l @ handed p bufs) s', w')"
  by (auto simp: try_post_def Let_def handed_def logged_send split: prod.splits if_splits outcome.splits)

lemma write_body_log:
  assumes "write_body ops bufs (s, w) = Some x"
  shows "write_body (logged ops) bufs (with_log l s, w) =
    Some (map_sum (\<lambda>(s, w). (with_log l s, w)) (\<lambda>(p, s, w). (p, with_log (l @ handed p bufs) s, w)) x)"
proof (cases "try_post ops bufs s w")
  case (Inr q)
  with assms show ?thesis by (cases q) (auto simp: write_body_def try_post_log)
next
  case (Inl a)
  then obtain s1 w1 where 1: "try_post ops bufs s w = Inl (s1, w1)" by (cases a) auto
  then obtain r2 s2 w2 where 2: "write_drain ops (s1\<lparr>st_write_blocked := True\<rparr>) w1 = Some (r2, s2, w2)"
    using assms by (auto simp: write_body_def split: option.splits)
  note L = try_post_log(1) [OF 1, of l] write_drain_log [OF 2, of l]
  show ?thesis
  proof (cases "\<exists>u. r2 = Ok u")
    case False
    with assms 1 2 L show ?thesis by (cases r2) (auto simp: write_body_def handed_def)
  next
    case True
    show ?thesis
    proof (cases "try_post ops bufs s2 w2")
      case (Inr q)
      with assms 1 2 L True show ?thesis by (cases q) (auto simp: write_body_def try_post_log)
    next
      case (Inl b)
      then obtain s3 w3 where 3: "try_post ops bufs s2 w2 = Inl (s3, w3)" by (cases b) auto
      with assms 1 2 True have p: "write_park ops s3 w3 = Some x" by (auto simp: write_body_def)
      have "write_park (logged ops) (with_log l s3) w3 =
        Some (map_sum (\<lambda>(s, w). (with_log l s, w)) (\<lambda>(p, s, w). (p, with_log (l @ handed p bufs) s, w)) x)"
      proof (cases x)
        case (Inl c)
        with p write_park_log(1) [of ops s3 w3 _ _ l] show ?thesis by (cases c) simp
      next
        case (Inr c)
        with p write_park_log(2) [of ops s3 w3 _ _ _ l] show ?thesis
          by (cases c) (auto simp: handed_def split: poll.splits outcome.splits)
      qed
      with 1 2 L True try_post_log(1) [OF 3, of l] show ?thesis by (auto simp: write_body_def)
    qed
  qed
qed

lemma poll_write_bufs_log:
  assumes "poll_write_bufs ops bufs s w = Some (p, s', w')"
  shows "poll_write_bufs (logged ops) bufs (with_log l s) w = Some (p, with_log (l @ handed p bufs) s', w')"
proof -
  have lp: "loop (write_body (logged ops) bufs) (with_log l s, w) = Some (p, with_log (l @ handed p bufs) s', w')"
    if "loop (write_body ops bufs) (s, w) = Some (p, s', w')" for s w
  proof -
    let ?h = "\<lambda>(s, w). (with_log l s, w)" and ?k = "\<lambda>(p, s, w). (p, with_log (l @ handed p bufs) s, w)"
    have "\<exists>y. loop (write_body (logged ops) bufs) (?h (s, w)) = Some y \<and> y = ?k (p, s', w')"
      by (rule loop_sim [where S = "\<lambda>x y. y = ?h x" and R = "\<lambda>x y. y = ?k x", OF that])
        (auto dest: write_body_log [where l = l])
    then show ?thesis by simp
  qed
  have e: "list_all (\<lambda>b. b = []) bufs \<Longrightarrow> concat bufs = []" by (induction bufs) auto
  show ?thesis
    using assms e
    by (auto simp: poll_write_bufs_def handed_def [of "Ready (Err _)"] handed_def [of "Ready (Ok 0)"] Let_def
        split: if_splits option.splits intro!: lp [unfolded handed_def] lp)
qed

text \<open>\<open>write_all\<close>: the log grows by the data, or on an error by some of its first bytes.\<close>

lemma write_async_body_log:
  assumes "write_async_body ops idle data (s, w) = Some x"
  shows "write_async_body (logged ops) idle data (with_log l s, w) =
    Some (map_sum (\<lambda>(s, w). (with_log l s, w))
      (\<lambda>(r, s, w). (r, with_log (l @ handed (Ready r) [data]) s, w)) x)"
proof -
  from assms obtain p s1 w1 where p: "poll_write_bufs ops [data] s w = Some (p, s1, w1)"
    by (auto simp: write_async_body_def poll_write_def split: option.splits)
  from poll_write_bufs_log [OF p, of l] p assms show ?thesis
    by (cases p) (auto simp: write_async_body_def poll_write_def handed_def)
qed

lemma write_async_log:
  assumes "write_async ops idle data s w = Some (r, s', w')"
  shows "write_async (logged ops) idle data (with_log l s) w =
    Some (r, with_log (l @ handed (Ready r) [data]) s', w')"
proof -
  let ?h = "\<lambda>(s, w). (with_log l s, w)" and ?k = "\<lambda>(r, s, w). (r, with_log (l @ handed (Ready r) [data]) s, w)"
  have "\<exists>y. loop (write_async_body (logged ops) idle data) (?h (s, w)) = Some y \<and> y = ?k (r, s', w')"
  proof (rule loop_sim [where S = "\<lambda>x y. y = ?h x" and R = "\<lambda>x y. y = ?k x" and f = "write_async_body ops idle data"])
    show "loop (write_async_body ops idle data) (s, w) = Some (r, s', w')" using assms by (simp add: write_async_def)
  qed (auto simp: write_async_body_log)
  then show ?thesis by (simp add: write_async_def)
qed

subsection \<open>The two read entry points\<close>

text \<open>What \<open>poll_read_tokio\<close> reports, and the bytes it fills in, for an answer of \<open>poll_read\<close>.\<close>

definition filled_ok :: "bytes res poll \<Rightarrow> unit res poll" where
  "filled_ok p =
     (case p of Pending \<Rightarrow> Pending | Ready (Ok _) \<Rightarrow> Ready (Ok ()) | Ready (Err e) \<Rightarrow> Ready (Err e)
      | Ready Panic \<Rightarrow> Ready Panic)"

definition filled_bytes :: "bytes res poll \<Rightarrow> bytes" where
  "filled_bytes p = (case p of Ready (Ok mem) \<Rightarrow> mem | _ \<Rightarrow> [])"

definition tokio_like ::
    "read_buf \<Rightarrow> bytes res poll \<times> 't stream \<times> 'w \<Rightarrow> unit res poll \<times> read_buf \<times> 't stream \<times> 'w \<Rightarrow> bool" where
  "tokio_like b x y \<longleftrightarrow>
     (case (x, y) of ((p, s, w), (p', b', s', w')) \<Rightarrow>
        p' = filled_ok p \<and> s' = s \<and> w' = w
        \<and> (p = Ready Panic \<or> b' = b\<lparr>bf_filled := bf_filled b @ filled_bytes p\<rparr>))"

lemma tokio_like_simps [simp]:
  "tokio_like b (Ready (Ok mem), s, w) (q, b', s', w') \<longleftrightarrow>
     q = Ready (Ok ()) \<and> s' = s \<and> w' = w \<and> b' = b\<lparr>bf_filled := bf_filled b @ mem\<rparr>"
  "tokio_like b (Ready Panic, s, w) (q, b', s', w') \<longleftrightarrow> q = Ready Panic \<and> s' = s \<and> w' = w"
  "tokio_like b (Pending, s, w) (q, b', s', w') \<longleftrightarrow> q = Pending \<and> s' = s \<and> w' = w \<and> b' = b"
  by (auto simp: tokio_like_def filled_ok_def filled_bytes_def)

lemma recv_slice_length: "recv_slice ops i a c s w = Ok mem \<Longrightarrow> length mem = c - a"
  by (auto simp: recv_slice_def split: outcome.splits if_splits)

lemma repost_ignored_no_Err: "repost_ignored ops i s w = (r, s', w') \<Longrightarrow> r = Ok () \<or> r = Panic"
  by (auto simp: repost_ignored_def Let_def split: prod.splits)

lemma tokio_pending_like:
  assumes "read_pending ops pend (rb_remaining b) s w = (r, s1, w1)"
    "tokio_pending ops pend b s w = (r', b', s2, w2)"
  shows "tokio_like b (Ready r, s1, w1) (Ready r', b', s2, w2)"
proof -
  obtain i off tot where pend: "pend = (i, off, tot)" by (rule prod_cases3)
  define n where "n = min (tot - off) (rb_remaining b)"
  obtain q s3 w3 where rp: "repost_ignored ops i (s\<lparr>st_recv_pending := None\<rparr>) w = (q, s3, w3)" by (rule prod_cases3)
  note u = read_pending_def tokio_pending_def put_slice_def Let_def n_def [symmetric]
  show ?thesis
  proof (cases "recv_slice ops i off (off + n) s w")
    case (Ok mem)
    have "length mem \<le> rb_remaining b" using recv_slice_length [OF Ok] by (simp add: n_def)
    then have "read_pending ops pend (rb_remaining b) s w =
        (if n < tot - off then (Ok mem, s\<lparr>st_recv_pending := Some (i, off + n, tot)\<rparr>, w)
         else (if q = Ok () then Ok mem else Panic, s3, w3))"
      "tokio_pending ops pend b s w =
        (if n < tot - off then (Ok (), b\<lparr>bf_filled := bf_filled b @ mem\<rparr>, s\<lparr>st_recv_pending := Some (i, off + n, tot)\<rparr>, w)
         else (q, b\<lparr>bf_filled := bf_filled b @ mem\<rparr>, s3, w3))"
      using pend Ok rp repost_ignored_no_Err [OF rp] by (auto simp: u)
    with assms repost_ignored_no_Err [OF rp] show ?thesis by (auto split: if_splits)
  qed (use assms pend in \<open>auto simp: u\<close>)
qed

lemma tokio_stash_like:
  assumes "read_stash (rb_remaining b) s = (r, s1)" "tokio_stash b s = (r', b', s2)"
  shows "tokio_like b (Ready r, s1, w) (Ready r', b', s2, w)"
  using assms by (auto simp: read_stash_def tokio_stash_def put_slice_def Let_def split: if_splits)

lemma tokio_fresh_like:
  assumes "read_fresh ops c (rb_remaining b) s w = (r, s1, w1)" "tokio_fresh ops c b s w = (r', b', s2, w2)"
  shows "tokio_like b (Ready r, s1, w1) (Ready r', b', s2, w2)"
proof (cases "rc_byte_len c = 0")
  case True
  with assms show ?thesis by (auto simp: read_fresh_def tokio_fresh_def)
next
  case nz: False
  define n where "n = min (rc_byte_len c) (rb_remaining b)"
  obtain q s3 w3 where rp: "repost_ignored ops (rc_buf_idx c) s w = (q, s3, w3)" by (rule prod_cases3)
  note u = read_fresh_def tokio_fresh_def put_slice_def Let_def n_def [symmetric]
  show ?thesis
  proof (cases "recv_slice ops (rc_buf_idx c) 0 n s w")
    case (Ok mem)
    have "length mem \<le> rb_remaining b" using recv_slice_length [OF Ok] by (simp add: n_def)
    then have "read_fresh ops c (rb_remaining b) s w =
        (if n < rc_byte_len c then (Ok mem, s\<lparr>st_recv_pending := Some (rc_buf_idx c, n, rc_byte_len c)\<rparr>, w)
         else (if q = Ok () then Ok mem else Panic, s3, w3))"
      "tokio_fresh ops c b s w =
        (if n < rc_byte_len c
         then (Ok (), b\<lparr>bf_filled := bf_filled b @ mem\<rparr>, s\<lparr>st_recv_pending := Some (rc_buf_idx c, n, rc_byte_len c)\<rparr>, w)
         else (q, b\<lparr>bf_filled := bf_filled b @ mem\<rparr>, s3, w3))"
      using nz Ok rp repost_ignored_no_Err [OF rp] by (auto simp: u)
    with assms repost_ignored_no_Err [OF rp] show ?thesis by (auto split: if_splits)
  qed (use assms nz in \<open>auto simp: u\<close>)
qed

lemma tokio_body_like:
  "rel_option (rel_sum (=) (tokio_like b)) (read_body ops (rb_remaining b) x) (tokio_body ops b x)"
proof -
  obtain s w where x: "x = (s, w)" by (rule prod.exhaust)
  have fresh: "rel_option (rel_sum (=) (tokio_like b))
      (let (r, s, w) = read_fresh ops c (rb_remaining b) s w in Some (Inr (Ready r, s, w)))
      (let (r, b, s, w) = tokio_fresh ops c b s w in Some (Inr (Ready r, b, s, w)))" for c s w
    using tokio_fresh_like [of ops c b s w] by (auto simp: Let_def split: prod.splits)
  show ?thesis
    unfolding x read_body_def tokio_body_def Let_def prod.case
    using fresh [unfolded Let_def]
    by (auto split: option.splits poll.splits outcome.splits list.splits)
qed

subsection \<open>Properties\<close>

text \<open>C38: Every byte once, in order. Run \<open>write_all\<close> on any transport, in any environment, and
  let it return. The same run on the transport that also logs what \<open>send_gather\<close> accepts returns
  the same result in the same state, and then the log has grown by exactly the data if the
  result is \<open>Ok\<close>, and by the first bytes of the data otherwise: partial accepts, waits and the
  drains in between neither lose, repeat nor reorder a byte.\<close>

theorem write_all_exact:
  fixes ops :: "('t, 'w) transport_ops"
  assumes "write_all ops idle data s w = Some (r, s', w')"
  shows "\<exists>k. write_all (logged ops) idle data (with_log l s) w = Some (r, with_log (l @ take k data) s', w')
    \<and> (r = Ok () \<longrightarrow> length data \<le> k)"
proof -
  let ?S = "\<lambda>(d, s :: 't stream, w :: 'w) (d', t, v). d' = d \<and> v = w \<and>
      (\<exists>k. d = drop k data \<and> k \<le> length data \<and> t = with_log (l @ take k data) s)"
  let ?R = "\<lambda>(r, s :: 't stream, w :: 'w) (r', t, v). r' = (r :: unit res) \<and> v = w \<and>
      (\<exists>k. t = with_log (l @ take k data) s \<and> (r = Ok () \<longrightarrow> length data \<le> k))"
  have step: "case x of Inl y \<Rightarrow> \<exists>z. write_all_body (logged ops) idle (d, with_log (l @ take k data) s, w) = Some (Inl z) \<and> ?S y z
      | Inr y \<Rightarrow> \<exists>z. write_all_body (logged ops) idle (d, with_log (l @ take k data) s, w) = Some (Inr z) \<and> ?R y z"
    if x: "write_all_body ops idle (d, s, w) = Some x" and d: "d = drop k data" "k \<le> length data" for d s w x k
  proof (cases "d = []")
    case True
    with x d show ?thesis by (auto simp: write_all_body_def intro!: exI [of _ "length data"])
  next
    case False
    with x obtain q s1 w1 where q: "write_async ops idle d s w = Some (q, s1, w1)"
      by (auto simp: write_all_body_def split: option.splits)
    note L = write_async_log [OF q, of "l @ take k data"]
    show ?thesis
    proof (cases q)
      case (Ok n)
      have "take k data @ take n (drop k data) = take (k + n) data" by (simp add: take_add)
      then show ?thesis
        using False x q L Ok d by (auto simp: write_all_body_def handed_def split: if_splits intro!: exI [of _ "k + n"] simp: add.commute)
    qed (use False x q L in \<open>auto simp: write_all_body_def handed_def\<close>)
  qed
  have "\<exists>y. loop (write_all_body (logged ops) idle) (data, with_log l s, w) = Some y \<and> ?R (r, s', w') y"
  proof (rule loop_sim [where S = ?S and f = "write_all_body ops idle" and s = "(data, s, w)"])
    show "loop (write_all_body ops idle) (data, s, w) = Some (r, s', w')" using assms by (simp add: write_all_def)
    show "?S (data, s, w) (data, with_log l s, w)" by (auto intro!: exI [of _ 0])
    fix x y z assume S: "?S x y"
    { assume "write_all_body ops idle x = Some (Inl z)"
      with S step show "\<exists>t'. write_all_body (logged ops) idle y = Some (Inl t') \<and> ?S z t'"
        by (cases x; cases y) fastforce }
  next
    fix x y q assume "?S x y" "write_all_body ops idle x = Some (Inr q)"
    with step show "\<exists>r'. write_all_body (logged ops) idle y = Some (Inr r') \<and> ?R q r'"
      by (cases x; cases y) fastforce
  qed
  then show ?thesis by (auto simp: write_all_def)
qed

lemma fifo_connected: "poll_cm_disconnect fifo_nic ch False w = Some (False, False, w)"
  by (simp add: poll_cm_disconnect_def, rule loop_exit)
    (simp add: poll_cm_disconnect_body_def on_hw_def fifo_nic_def sim_nic_def)

text \<open>A write of three bytes over the credit ring on the simulated device.\<close>

definition cr_s1 :: "unit res \<times> credit_ring stream \<times> u64 list world" where
  "cr_s1 = (Ok (), (stream_new cr_t0)\<lparr>st_transport :=
     cr_t0\<lparr>cr_send_ring := ring_new (mr8\<lparr>mr_bytes := [1, 2, 3, 0, 0, 0, 0, 0]\<rparr>) 8\<lparr>rb_tail := 3\<rparr>,
           cr_remote_write_tail := 3, cr_remote_credits := 1, cr_send_in_flight := 1\<rparr>\<rparr>, sim_world [3])"

lemma cr_send3:
  "cr_send_gather fifo_nic [[1, 2, 3]] cr_t0 (sim_world []) = (Ok 3, st_transport (fst (snd cr_s1)), sim_world [3])"
  by (simp add: cr_s1_def cr_send_gather_def cr_send_with_credits_def cr_t0_fields cr_cfg8_def ring8 cr_post_padding_def
      cr_post_data_def fifo_post Let_def gather_into_eq slice_def upd_range_def sim_world_def)

lemma cr_write3: "write_all (cr_ops fifo_nic 0) id [1, 2, 3] (stream_new cr_t0) (sim_world []) = Some cr_s1"
proof -
  let ?o = "cr_ops fifo_nic 0" and ?s = "stream_new cr_t0" and ?w = "sim_world []"
  have t: "try_post ?o [[1, 2, 3]] ?s ?w = Inr (Ready (Ok 3), fst (snd cr_s1), sim_world [3])"
    using cr_send3 by (simp add: try_post_def cr_ops_def stream_new_def) (simp add: cr_s1_def stream_new_def)
  have t0: "cr_t0\<lparr>cr_peer_disconnected := False\<rparr> = cr_t0" by (simp add: cr_t0_def cr_from_parts_def)
  have d: "tp_poll_disconnect ?o cr_t0 ?w = Some (False, cr_t0, ?w)"
    by (simp add: cr_ops_def cr_poll_disconnect_def cr_t0_fields fifo_connected t0)
  have l: "loop (write_body ?o [[1, 2, 3]]) (?s, ?w) = Some (Ready (Ok 3), fst (snd cr_s1), sim_world [3])"
    by (rule loop_exit) (simp add: write_body_def t)
  have f: "?s\<lparr>st_transport := cr_t0\<rparr> = ?s" "st_transport ?s = cr_t0" "\<not> st_eof ?s" "\<not> st_write_blocked ?s"
    by (simp_all add: stream_new_def)
  have "poll_write ?o [1, 2, 3] ?s ?w = Some (Ready (Ok 3), fst (snd cr_s1), sim_world [3])"
    by (simp add: poll_write_def poll_write_bufs_def f d l)
  then have "write_async ?o id [1, 2, 3] ?s ?w = Some (Ok 3, fst (snd cr_s1), sim_world [3])"
    by (simp add: write_async_def loop_exit write_async_body_def)
  then show ?thesis
    by (simp add: write_all_def loop_again [where s' = "([], fst (snd cr_s1), sim_world [3])"] write_all_body_def
        loop_exit) (simp add: cr_s1_def)
qed

theorem write_all_exact_witness:
  "\<exists>k. write_all (logged (cr_ops fifo_nic 0)) id [1, 2, 3] (with_log [] (stream_new cr_t0)) (sim_world []) =
       Some (Ok (), with_log ([] @ take k [1, 2, 3]) (fst (snd cr_s1)), sim_world [3]) \<and> length [1, 2, 3 :: u8] \<le> k"
  using write_all_exact [OF cr_write3 [unfolded cr_s1_def], of "[]"] by (simp add: cr_s1_def)

text \<open>C39: The two read entry points agree. For every transport and every state, \<open>poll_read_tokio\<close>
  into a buffer with some room returns exactly when \<open>poll_read\<close> with that much room does, with
  the same answer and in the same state; the bytes \<open>poll_read\<close> returns are what it appends to the
  buffer, and nothing else of the buffer changes (a panic excepted, after which it is not used).\<close>

theorem poll_read_tokio_agrees:
  "rel_option (tokio_like b) (poll_read ops (rb_remaining b) s w) (poll_read_tokio ops b s w)"
proof -
  have 1: "\<exists>z. loop (tokio_body ops b) x = Some z \<and> tokio_like b y z"
    if "loop (read_body ops (rb_remaining b)) x = Some y" for x y
  proof (rule loop_sim [where S = "(=)", OF that])
    fix u v z assume "u = v" "read_body ops (rb_remaining b) u = Some (Inl z)"
    with tokio_body_like [of b ops u] show "\<exists>t'. tokio_body ops b v = Some (Inl t') \<and> z = t'"
      by (auto simp: option_rel_Some1 rel_sum.simps)
  next
    fix u v z assume "u = v" "read_body ops (rb_remaining b) u = Some (Inr z)"
    with tokio_body_like [of b ops u] show "\<exists>t'. tokio_body ops b v = Some (Inr t') \<and> tokio_like b z t'"
      by (auto simp: option_rel_Some1 rel_sum.simps)
  qed simp
  have 2: "\<exists>y. loop (read_body ops (rb_remaining b)) x = Some y \<and> tokio_like b y z"
    if "loop (tokio_body ops b) x = Some z" for x z
  proof (rule loop_sim [where S = "(=)", OF that])
    fix u v z assume "u = v" "tokio_body ops b u = Some (Inl z)"
    with tokio_body_like [of b ops u] show "\<exists>t'. read_body ops (rb_remaining b) v = Some (Inl t') \<and> z = t'"
      by (auto simp: option_rel_Some2 rel_sum.simps)
  next
    fix u v z assume "u = v" "tokio_body ops b u = Some (Inr z)"
    with tokio_body_like [of b ops u] show "\<exists>t'. read_body ops (rb_remaining b) v = Some (Inr t') \<and> tokio_like b t' z"
      by (auto simp: option_rel_Some2 rel_sum.simps)
  qed simp
  have lp: "rel_option (tokio_like b) (loop (read_body ops (rb_remaining b)) x) (loop (tokio_body ops b) x)" for x
  proof (cases "loop (read_body ops (rb_remaining b)) x")
    case None
    with 2 [of x] show ?thesis by (cases "loop (tokio_body ops b) x") (simp, metis option.distinct(1))
  next
    case (Some y)
    from 1 [OF this] Some show ?thesis by (metis option.rel_intros(2))
  qed
  show ?thesis
    using lp [of "(s, w)"] tokio_pending_like [of ops _ b s w] tokio_stash_like [of b s _ _ _ _ _ w]
    by (auto simp: poll_read_def poll_read_tokio_def Let_def split: option.splits prod.splits)
qed

end
