(* ===== verification/MsgIo.thy ===== *)
theory MsgIo
  imports Wire Verbs
begin

section \<open>The I/O port of a protocol driver\<close>

text \<open>
  The boundary between a protocol driver and the engine's reactor: \<^verbatim>\<open>v2/engine/io.rs\<close> with
  the errors of \<^verbatim>\<open>v2/error.rs\<close> and the completion of \<^verbatim>\<open>v2/op.rs\<close>, and the protocol lane of
  the command ingress (\<^verbatim>\<open>v2/engine/reactor/command.rs\<close>, \<^verbatim>\<open>admission.rs\<close>, \<^verbatim>\<open>service.rs\<close>). A
  command owns memory regions from the moment it is submitted; it waits for operation permits,
  then for the reactor, and every way it can end is an event in the port.

  Tokio's semaphore is a parameter with the behaviour its documentation states. What the
  reactor's I/O core makes of a command it executes is a parameter too. A method is one atomic
  step: of two loads of one flag inside a method only the last is kept. An operation context
  (\<open>Box<dyn Any>\<close>) is a value of the driver's context type or one of another type.
\<close>

subsection \<open>Errors and completions\<close>

text \<open>The message of a protocol violation: that of the wire parser, or the literal text.\<close>

datatype violation_text = FromParser violation | Literal string

datatype error2 =
    NoDevices2
  | DeviceNotFound2 string
  | Verbs2 int
  | InvalidConfig string
  | PostFailed int
  | CompletionError wc_status u32
  | WouldBlock2
  | MessageTooLarge nat nat
  | TransportClosed
  | DriverShutdown
  | CapacityExhausted
  | ConnectionQuarantined nat nat
  | ConnectionDestroyQuarantined string
  | EngineWedged nat nat nat
  | ProtocolViolation violation_text

type_synonym 'a res2 = "(error2, 'a) outcome"

text \<open>\<open>Error::from_v1\<close>; \<open>io::Error::other\<close> has no errno and reads as 0.\<close>

fun from_v1 :: "error \<Rightarrow> error2" where
  "from_v1 NoDevices = NoDevices2"
| "from_v1 (DeviceNotFound n) = DeviceNotFound2 n"
| "from_v1 (Verbs e) = Verbs2 e"
| "from_v1 (InvalidArg m) = InvalidConfig m"
| "from_v1 (WorkCompletionErr st ve) = CompletionError (wc_status_from_raw st) ve"
| "from_v1 WouldBlock = WouldBlock2"
| "from_v1 (ConnectionFault m) = Verbs2 0"
| "from_v1 (Timeout m) = Verbs2 0"

definition completion_result :: "wc \<Rightarrow> unit res2" where
  "completion_result c = (if is_success c then Ok () else Err (CompletionError (status_of c) (vendor_err c)))"

subsection \<open>Semaphores\<close>

text \<open>
  \<open>tokio::sync::Semaphore\<close>: \<open>sem_try n\<close> is one poll of \<open>acquire_many(n)\<close> (a waiter may be told
  to wait while others are ahead of it), and dropping \<open>n\<close> permits adds them back.
\<close>

datatype sem_outcome = Acquired | NoPermits | SemClosed

record 's sem_ops =
  sem_new :: "nat \<Rightarrow> 's"
  sem_permits :: "'s \<Rightarrow> nat"
  sem_is_closed :: "'s \<Rightarrow> bool"
  sem_try :: "nat \<Rightarrow> 's \<Rightarrow> sem_outcome \<times> 's"
  sem_add :: "nat \<Rightarrow> 's \<Rightarrow> unit res2 \<times> 's"
  sem_close :: "'s \<Rightarrow> 's"
  MAX_PERMITS :: nat

definition sem_law :: "'s sem_ops \<Rightarrow> bool" where
  "sem_law S \<longleftrightarrow>
     (\<forall>n. n \<le> MAX_PERMITS S \<longrightarrow> sem_permits S (sem_new S n) = n \<and> \<not> sem_is_closed S (sem_new S n))
     \<and> (\<forall>n s s'. sem_try S n s = (Acquired, s') \<longrightarrow>
          \<not> sem_is_closed S s \<and> sem_permits S s = sem_permits S s' + n \<and> \<not> sem_is_closed S s')
     \<and> (\<forall>n s a s'. sem_try S n s = (a, s') \<and> a \<noteq> Acquired \<longrightarrow>
          sem_permits S s' = sem_permits S s \<and> sem_is_closed S s' = sem_is_closed S s
          \<and> (a = SemClosed \<longleftrightarrow> sem_is_closed S s))
     \<and> (\<forall>n s. sem_permits S s + n \<le> MAX_PERMITS S \<longrightarrow>
          fst (sem_add S n s) = Ok () \<and> sem_permits S (snd (sem_add S n s)) = sem_permits S s + n)
     \<and> (\<forall>n s. sem_permits S s + n > MAX_PERMITS S \<longrightarrow>
          fst (sem_add S n s) = Panic \<and> sem_permits S (snd (sem_add S n s)) = sem_permits S s)
     \<and> (\<forall>n s. sem_is_closed S (snd (sem_add S n s)) = sem_is_closed S s)
     \<and> (\<forall>s. sem_permits S (sem_close S s) = sem_permits S s \<and> sem_is_closed S (sem_close S s))"

subsection \<open>Dispositions\<close>

datatype disposition =
    PendingOps nat
  | AllAccepted nat
  | ExactPrefix nat nat error2
  | FullyUnaccepted nat error2
  | RetainedAmbiguous nat error2
  | RetainedAfterEarlyCompletion nat error2

fun all_accepted :: "disposition \<Rightarrow> bool" where
  "all_accepted (AllAccepted _) = True"
| "all_accepted _ = False"

fun disp_accepted :: "disposition \<Rightarrow> nat" where
  "disp_accepted (PendingOps _) = 0"
| "disp_accepted (AllAccepted n) = n"
| "disp_accepted (ExactPrefix n _ _) = n"
| "disp_accepted (FullyUnaccepted _ _) = 0"
| "disp_accepted (RetainedAmbiguous n _) = n"
| "disp_accepted (RetainedAfterEarlyCompletion n _) = n"

fun potentially_accepted :: "disposition \<Rightarrow> bool" where
  "potentially_accepted (PendingOps _) = False"
| "potentially_accepted (AllAccepted n) = (n \<noteq> 0)"
| "potentially_accepted (ExactPrefix n _ _) = (n \<noteq> 0)"
| "potentially_accepted (FullyUnaccepted _ _) = False"
| "potentially_accepted (RetainedAmbiguous n _) = (n \<noteq> 0)"
| "potentially_accepted (RetainedAfterEarlyCompletion n _) = (n \<noteq> 0)"

fun disp_error :: "disposition \<Rightarrow> error2 option" where
  "disp_error (PendingOps _) = None"
| "disp_error (AllAccepted _) = None"
| "disp_error (ExactPrefix _ _ e) = Some e"
| "disp_error (FullyUnaccepted _ e) = Some e"
| "disp_error (RetainedAmbiguous _ e) = Some e"
| "disp_error (RetainedAfterEarlyCompletion _ e) = Some e"

fun disp_unaccepted :: "disposition \<Rightarrow> nat" where
  "disp_unaccepted (ExactPrefix _ n _) = n"
| "disp_unaccepted (FullyUnaccepted n _) = n"
| "disp_unaccepted _ = 0"

subsection \<open>Events and the event port\<close>

datatype 'c op_context = Ctx 'c | ForeignCtx

record 'c io_completion =
  ic_identity :: "(u32 \<times> u32) option"
  ic_context :: "'c op_context"
  ic_result :: "wc res2"
  ic_mr :: "mr option"
  ic_unaccepted :: bool
  ic_cancelled :: bool

datatype terminal_event = Disconnected | Terminal error2 | Closed "unit res2"

datatype 'c io_event = Completed "'c io_completion" | Submitted disposition | Ended terminal_event

record 'c event_port =
  ep_open :: bool
  ep_events :: "'c io_event list"
  ep_receiver_open :: bool
  ep_wakes :: nat

definition event_port_new :: "'c event_port" where
  "event_port_new = \<lparr>ep_open = True, ep_events = [], ep_receiver_open = True, ep_wakes = 0\<rparr>"

definition port_send :: "'c io_event \<Rightarrow> 'c event_port \<Rightarrow> 'c event_port" where
  "port_send ev p =
     (if ep_open p then p\<lparr>ep_events := ep_events p @ [ev], ep_wakes := ep_wakes p + 1\<rparr> else p)"

definition port_pop :: "'c event_port \<Rightarrow> 'c io_event option \<times> 'c event_port" where
  "port_pop p =
     (case ep_events p of [] \<Rightarrow> (None, p) | ev # evs \<Rightarrow> (Some ev, p\<lparr>ep_events := evs\<rparr>))"

definition port_has_events :: "'c event_port \<Rightarrow> bool" where
  "port_has_events p = (ep_events p \<noteq> [])"

definition port_drain :: "'c event_port \<Rightarrow> 'c io_event list \<times> 'c event_port" where
  "port_drain p = (ep_events p, p\<lparr>ep_events := []\<rparr>)"

definition port_close :: "'c event_port \<Rightarrow> 'c io_event list \<times> 'c event_port" where
  "port_close p = (ep_events p, p\<lparr>ep_open := False, ep_events := [], ep_receiver_open := False\<rparr>)"

text \<open>\<open>IoEventDestination\<close>: the events a finished, a refused and a cancelled operation send.\<close>

definition dest_complete :: "'c op_context \<Rightarrow> u32 \<times> u32 \<Rightarrow> wc res2 \<Rightarrow> mr option \<Rightarrow> 'c io_event" where
  "dest_complete ctx tok r m =
     Completed \<lparr>ic_identity = Some tok, ic_context = ctx, ic_result = r, ic_mr = m,
       ic_unaccepted = False, ic_cancelled = False\<rparr>"

definition dest_unaccepted :: "'c op_context \<Rightarrow> (u32 \<times> u32) option \<Rightarrow> error2 \<Rightarrow> mr \<Rightarrow> 'c io_event" where
  "dest_unaccepted ctx tok e m =
     Completed \<lparr>ic_identity = tok, ic_context = ctx, ic_result = Err e, ic_mr = Some m,
       ic_unaccepted = True, ic_cancelled = False\<rparr>"

definition dest_cancelled :: "'c op_context \<Rightarrow> mr \<Rightarrow> 'c io_event" where
  "dest_cancelled ctx m =
     Completed \<lparr>ic_identity = None, ic_context = ctx, ic_result = Err DriverShutdown, ic_mr = Some m,
       ic_unaccepted = True, ic_cancelled = True\<rparr>"

subsection \<open>Protocol commands\<close>

text \<open>A send may carry a cancellation flag, shared with its requester: the index of the flag.\<close>

datatype 'c batch =
    RecvBatch "(mr \<times> 'c op_context) list"
  | SendOne mr nat "'c op_context" "nat option"

fun batch_len :: "'c batch \<Rightarrow> nat" where
  "batch_len (RecvBatch rs) = length rs"
| "batch_len (SendOne _ _ _ _) = 1"

fun batch_cancelled :: "(nat \<Rightarrow> bool) \<Rightarrow> 'c batch \<Rightarrow> bool" where
  "batch_cancelled flags (RecvBatch _) = False"
| "batch_cancelled flags (SendOne _ _ _ c) = (case c of None \<Rightarrow> False | Some i \<Rightarrow> flags i)"

fun rejected_events :: "error2 \<Rightarrow> 'c batch \<Rightarrow> 'c io_event list" where
  "rejected_events e (RecvBatch rs) = map (\<lambda>(m, ctx). dest_unaccepted ctx None e m) rs"
| "rejected_events e (SendOne m _ ctx _) = [dest_unaccepted ctx None e m]"

fun cancelled_events :: "'c batch \<Rightarrow> 'c io_event list" where
  "cancelled_events (RecvBatch rs) = map (\<lambda>(m, ctx). dest_cancelled ctx m) rs"
| "cancelled_events (SendOne m _ ctx _) = [dest_cancelled ctx m]"

definition deliver_all :: "'c io_event list \<Rightarrow> 'c event_port \<Rightarrow> 'c event_port" where
  "deliver_all evs p = fold port_send evs p"

definition reject :: "error2 \<Rightarrow> 'c batch \<Rightarrow> 'c event_port \<Rightarrow> disposition \<times> 'c event_port" where
  "reject e b p = (FullyUnaccepted (batch_len b) e, deliver_all (rejected_events e b) p)"

definition reject_after_pending :: "error2 \<Rightarrow> 'c batch \<Rightarrow> 'c event_port \<Rightarrow> 'c event_port" where
  "reject_after_pending e b p =
     port_send (Submitted (FullyUnaccepted (batch_len b) e)) (deliver_all (rejected_events e b) p)"

definition cancel_after_pending :: "'c batch \<Rightarrow> 'c event_port \<Rightarrow> 'c event_port" where
  "cancel_after_pending b p =
     port_send (Submitted (FullyUnaccepted (batch_len b) DriverShutdown)) (deliver_all (cancelled_events b) p)"

subsection \<open>The protocol lane of the command ingress\<close>

text \<open>A queued command holds as many operation permits as it has operations.\<close>

record 'c ingress =
  in_operation_capacity :: nat
  in_pending_ops :: nat
  in_closed :: bool
  in_protocol :: "'c batch list"
  in_notified :: nat

definition ingress_new :: "nat \<Rightarrow> 'c ingress" where
  "ingress_new operation_capacity =
     \<lparr>in_operation_capacity = operation_capacity, in_pending_ops = 0, in_closed = False,
      in_protocol = [], in_notified = 0\<rparr>"

definition validate_operation_batch :: "nat \<Rightarrow> 'c ingress \<Rightarrow> nat res2" where
  "validate_operation_batch n g =
     (if n \<ge> 2 ^ 32 then Err (InvalidConfig ''protocol I/O batch length must be in 1..=u32::MAX'')
      else if n = 0 \<or> n > in_operation_capacity g then
        Err (InvalidConfig ''protocol I/O batch length must be in 1..=capacity'')
      else Ok n)"

definition reserve_protocol_payload :: "nat \<Rightarrow> 'c ingress \<Rightarrow> unit res2 \<times> 'c ingress" where
  "reserve_protocol_payload n g =
     (case validate_operation_batch n g of
        Ok _ \<Rightarrow>
          if in_pending_ops g + n < 2 ^ 64 \<and> in_pending_ops g + n \<le> in_operation_capacity g
          then (Ok (), g\<lparr>in_pending_ops := in_pending_ops g + n\<rparr>)
          else (Err CapacityExhausted, g)
      | Err e \<Rightarrow> (Err e, g)
      | Panic \<Rightarrow> (Panic, g))"

text \<open>The drop of a payload reservation.\<close>

definition free_payload :: "nat \<Rightarrow> 'c ingress \<Rightarrow> 'c ingress" where
  "free_payload n g = g\<lparr>in_pending_ops := in_pending_ops g - n\<rparr>"

definition enqueue_protocol :: "error2 option \<Rightarrow> 'c batch \<Rightarrow> 'c ingress \<Rightarrow> unit res2 \<times> 'c ingress" where
  "enqueue_protocol admission_error b g =
     (if in_closed g then
        (Err (case admission_error of Some e \<Rightarrow> e | None \<Rightarrow> DriverShutdown), g)
      else (Ok (), g\<lparr>in_protocol := in_protocol g @ [b]\<rparr>))"

definition notify_reactor :: "'c ingress \<Rightarrow> 'c ingress" where
  "notify_reactor g = g\<lparr>in_notified := in_notified g + 1\<rparr>"

subsection \<open>IoConnection\<close>

text \<open>
  The connection's frontend: the commands waiting for permits (with the \<open>polled\<close> mark), the open
  flag, the port, the semaphore of operation permits, the ingress and the session manager while
  they live, and the state of the connection's close.
\<close>

record session_manager =
  sm_admission_error :: "error2 option"
  sm_engine_outcome :: "unit res2 option"

record ('c, 's) io_conn =
  io_pending :: "('c batch \<times> bool) list"
  io_open :: bool
  io_port :: "'c event_port"
  io_permits :: 's
  io_commands :: "'c ingress option"
  io_manager :: "session_manager option"
  io_retired :: bool
  io_outcome :: "unit res2 option"
  io_close_queued :: bool

definition io_submit :: "'c batch \<Rightarrow> ('c, 's) io_conn \<Rightarrow> unit res2 \<times> ('c, 's) io_conn" where
  "io_submit b c =
     (if \<not> io_open c then (Err TransportClosed, c)
      else
        case io_commands c of
          None \<Rightarrow> (Err DriverShutdown, c)
        | Some g \<Rightarrow>
            (case validate_operation_batch (batch_len b) g of
               Ok _ \<Rightarrow>
                 (case reserve_protocol_payload (batch_len b) g of
                    (Ok _, g) \<Rightarrow>
                      (Ok (), c\<lparr>io_commands := Some g, io_pending := io_pending c @ [(b, False)]\<rparr>)
                  | (Err e, _) \<Rightarrow> (Err e, c)
                  | (Panic, _) \<Rightarrow> (Panic, c))
             | Err e \<Rightarrow> (Err e, c)
             | Panic \<Rightarrow> (Panic, c)))"

definition submit_protocol :: "'c batch \<Rightarrow> ('c, 's) io_conn \<Rightarrow> disposition \<times> ('c, 's) io_conn" where
  "submit_protocol b c =
     (case io_submit b c of
        (Err e, c) \<Rightarrow> let (d, p) = reject e b (io_port c) in (d, c\<lparr>io_port := p\<rparr>)
      | (_, c) \<Rightarrow> (PendingOps (batch_len b), c))"

definition io_post_recv_batch ::
    "(mr \<times> 'c op_context) list \<Rightarrow> ('c, 's) io_conn \<Rightarrow> disposition \<times> ('c, 's) io_conn" where
  "io_post_recv_batch rs c = submit_protocol (RecvBatch rs) c"

definition io_post_recv :: "mr \<Rightarrow> 'c op_context \<Rightarrow> ('c, 's) io_conn \<Rightarrow> disposition \<times> ('c, 's) io_conn" where
  "io_post_recv m ctx c = io_post_recv_batch [(m, ctx)] c"

definition io_post_send ::
    "mr \<Rightarrow> nat \<Rightarrow> 'c op_context \<Rightarrow> nat option \<Rightarrow> ('c, 's) io_conn \<Rightarrow> disposition \<times> ('c, 's) io_conn" where
  "io_post_send m len ctx cancellation c = submit_protocol (SendOne m len ctx cancellation) c"

definition receiver_lost :: "('c, 's) io_conn \<Rightarrow> bool" where
  "receiver_lost c \<longleftrightarrow> \<not> io_open c \<or> \<not> ep_receiver_open (io_port c)"

text \<open>A command leaves the admission queue: its payload reservation is dropped.\<close>

definition io_free :: "'c batch \<Rightarrow> ('c, 's) io_conn \<Rightarrow> ('c, 's) io_conn" where
  "io_free b c = c\<lparr>io_commands := map_option (free_payload (batch_len b)) (io_commands c)\<rparr>"

definition drop_permits :: "'s sem_ops \<Rightarrow> nat \<Rightarrow> ('c, 's) io_conn \<Rightarrow> ('c, 's) io_conn" where
  "drop_permits S n c = c\<lparr>io_permits := snd (sem_add S n (io_permits c))\<rparr>"

text \<open>What becomes of the head of the queue once its permits are acquired.\<close>

definition admit :: "'s sem_ops \<Rightarrow> 'c batch \<Rightarrow> ('c, 's) io_conn \<Rightarrow> ('c, 's) io_conn" where
  "admit S b c =
     (let refuse = (\<lambda>e. drop_permits S (batch_len b) (c\<lparr>io_port := reject_after_pending e b (io_port c)\<rparr>))
      in case io_commands c of
           None \<Rightarrow> refuse DriverShutdown
         | Some g \<Rightarrow>
             (case io_manager c of
                None \<Rightarrow> refuse DriverShutdown
              | Some sm \<Rightarrow>
                  (case enqueue_protocol (sm_admission_error sm) b g of
                     (Err e, _) \<Rightarrow> refuse e
                   | (_, g) \<Rightarrow> c\<lparr>io_commands := Some (notify_reactor g)\<rparr>)))"

fun poll_admission ::
    "'s sem_ops \<Rightarrow> (nat \<Rightarrow> bool) \<Rightarrow> nat \<Rightarrow> ('c, 's) io_conn \<Rightarrow> nat \<times> ('c, 's) io_conn" where
  "poll_admission S flags 0 c = (0, c)"
| "poll_admission S flags (Suc n) c =
     (case io_pending c of
        [] \<Rightarrow> (0, c)
      | (b, _) # rest \<Rightarrow>
          let progress = (\<lambda>c. case poll_admission S flags n (io_free b c) of (k, c) \<Rightarrow> (k + 1, c));
              c1 = c\<lparr>io_pending := rest\<rparr>
          in if receiver_lost c then progress c1
             else if batch_cancelled flags b then
               progress (c1\<lparr>io_port := cancel_after_pending b (io_port c)\<rparr>)
             else
              (case sem_try S (batch_len b) (io_permits c) of
                 (NoPermits, s) \<Rightarrow> (0, c\<lparr>io_permits := s, io_pending := (b, True) # rest\<rparr>)
               | (SemClosed, s) \<Rightarrow>
                   let e = (case io_manager c of
                              Some sm \<Rightarrow> (case sm_admission_error sm of Some e \<Rightarrow> e | None \<Rightarrow> DriverShutdown)
                            | None \<Rightarrow> DriverShutdown)
                   in progress (c1\<lparr>io_permits := s, io_port := reject_after_pending e b (io_port c)\<rparr>)
               | (Acquired, s) \<Rightarrow> progress (admit S b (c1\<lparr>io_permits := s\<rparr>))))"

definition has_unpolled_admission :: "('c, 's) io_conn \<Rightarrow> bool" where
  "has_unpolled_admission c = (case io_pending c of [] \<Rightarrow> False | (_, polled) # _ \<Rightarrow> \<not> polled)"

definition discard_pending_protocol :: "('c, 's) io_conn \<Rightarrow> ('c, 's) io_conn" where
  "discard_pending_protocol c =
     (fold (\<lambda>(b, _) c. io_free b c) (io_pending c) c)\<lparr>io_open := False, io_pending := []\<rparr>"

definition io_request_close :: "('c, 's) io_conn \<Rightarrow> ('c, 's) io_conn" where
  "io_request_close c =
     (if io_retired c then c
      else
        case (io_manager c, io_commands c) of
          (Some sm, Some g) \<Rightarrow>
            if in_closed g \<or> sm_admission_error sm \<noteq> None then c
            else if io_close_queued c then c
            else c\<lparr>io_close_queued := True, io_commands := Some (notify_reactor g)\<rparr>
        | _ \<Rightarrow> c)"

text \<open>One turn of the loop of \<open>close().await\<close> after the request.\<close>

definition io_close_poll :: "('c, 's) io_conn \<Rightarrow> unit res2 poll" where
  "io_close_poll c =
     (case io_outcome c of
        Some r \<Rightarrow> Ready r
      | None \<Rightarrow>
          (case io_manager c of
             Some sm \<Rightarrow> (case sm_engine_outcome sm of Some r \<Rightarrow> Ready r | None \<Rightarrow> Pending)
           | None \<Rightarrow> Pending))"

subsection \<open>The reactor's side\<close>

text \<open>
  One turn of the reactor on the protocol lane. \<open>conn_open\<close> is whether the connection's I/O is
  open, and \<open>core b\<close> what the I/O core makes of a batch: the events of operations it refused or
  completed at once, and the disposition. The events are published in order.
\<close>

definition execute_protocol ::
    "bool \<Rightarrow> ('c batch \<Rightarrow> 'c io_event list \<times> disposition) \<Rightarrow> 'c batch \<Rightarrow> 'c event_port \<Rightarrow> 'c event_port" where
  "execute_protocol conn_open core b p =
     (if \<not> conn_open then reject_after_pending TransportClosed b p
      else let (evs, d) = core b in port_send (Submitted d) (deliver_all evs p))"

definition service_protocol ::
    "'s sem_ops \<Rightarrow> (nat \<Rightarrow> bool) \<Rightarrow> bool \<Rightarrow> ('c batch \<Rightarrow> 'c io_event list \<times> disposition) \<Rightarrow>
       ('c, 's) io_conn \<Rightarrow> ('c, 's) io_conn" where
  "service_protocol S flags conn_open core c =
     (case io_commands c of
        None \<Rightarrow> c
      | Some g \<Rightarrow>
          (case in_protocol g of
             [] \<Rightarrow> c
           | b # bs \<Rightarrow>
               let terminal = (case io_manager c of
                     Some sm \<Rightarrow> (case sm_admission_error sm of Some e \<Rightarrow> e | None \<Rightarrow> DriverShutdown)
                   | None \<Rightarrow> DriverShutdown);
                   p = (if receiver_lost c then io_port c
                        else if batch_cancelled flags b then cancel_after_pending b (io_port c)
                        else if in_closed g then reject_after_pending terminal b (io_port c)
                        else execute_protocol conn_open core b (io_port c))
               in drop_permits S (batch_len b)
                    (c\<lparr>io_port := p, io_commands := Some (g\<lparr>in_protocol := bs\<rparr>)\<rparr>)))"

end
