(* ===== verification/Message.thy ===== *)
theory Message
  imports MsgIo
begin

section \<open>The message transport\<close>

text \<open>
  \<^verbatim>\<open>v2/message_transport.rs\<close>: the state shared by the frontend and its driver, the protocol
  handlers, the driver's bounded work loop, and the frontend's \<open>ready\<close>, \<open>send\<close>, \<open>recv\<close> and
  \<open>close\<close>. The I/O side is that of \<^verbatim>\<open>MsgIo\<close>.

  A method is one atomic step on the shared state. A send request, shared between its waiter,
  the event queue and the operation's context, is an entry of a table, referred to by its index.
  A handler returns \<open>Panic\<close> where the source panics. An \<open>async\<close> method is a function polled
  once; its suspension points are the constructors of \<open>send_future\<close>. Wake-ups are counted. The
  hooks and events compiled only for tests are left out.
\<close>

subsection \<open>Builder and derived configuration\<close>

text \<open>Durations are in nanoseconds.\<close>

definition DEFAULT_MESSAGE_HELLO_DEADLINE :: nat where "DEFAULT_MESSAGE_HELLO_DEADLINE = 10 * 10 ^ 9"
definition MIN_MESSAGE_HELLO_DEADLINE :: nat where "MIN_MESSAGE_HELLO_DEADLINE = 10 ^ 6"
definition MAX_MESSAGE_HELLO_DEADLINE :: nat where "MAX_MESSAGE_HELLO_DEADLINE = 5 * 60 * 10 ^ 9"
definition MESSAGE_DRIVER_BUDGET :: nat where "MESSAGE_DRIVER_BUDGET = 32"

definition CTRL_BUF_SIZE :: nat where "CTRL_BUF_SIZE = HELLO_FRAME_SIZE"
definition CTRL_RECV_COUNT :: nat where "CTRL_RECV_COUNT = 2"
definition CTRL_SEND_COUNT :: nat where "CTRL_SEND_COUNT = 2"

record connection_limits =
  cl_max_send_wr :: nat
  cl_max_recv_wr :: nat

record message_builder =
  mb_recv_buffer_count :: nat
  mb_send_buffer_count :: nat
  mb_buffer_size :: nat
  mb_hello_deadline :: nat
  mb_connection_config :: "connection_limits option"

definition message_builder_new :: message_builder where
  "message_builder_new =
     \<lparr>mb_recv_buffer_count = 32, mb_send_buffer_count = 16, mb_buffer_size = 64 * 1024,
      mb_hello_deadline = DEFAULT_MESSAGE_HELLO_DEADLINE, mb_connection_config = None\<rparr>"

definition mb_validate :: "message_builder \<Rightarrow> unit res2" where
  "mb_validate b =
     (if mb_recv_buffer_count b = 0 then Err (InvalidConfig ''recv_buffers must be > 0'')
      else if mb_send_buffer_count b = 0 then Err (InvalidConfig ''send_buffers must be > 0'')
      else if mb_buffer_size b = 0 then Err (InvalidConfig ''buffer_size must be > 0'')
      else if mb_hello_deadline b < MIN_MESSAGE_HELLO_DEADLINE \<or> mb_hello_deadline b > MAX_MESSAGE_HELLO_DEADLINE then
        Err (InvalidConfig ''message HELLO deadline out of range'')
      else Ok ())"

record message_config =
  mc_max_send_wr :: nat
  mc_max_recv_wr :: nat
  mc_send_count :: nat
  mc_recv_count :: nat
  mc_buffer_size :: nat
  mc_mr_size :: nat
  mc_hello_deadline :: nat

definition derive_engine_config :: "message_builder \<Rightarrow> message_config res2" where
  "derive_engine_config b =
     (case mb_validate b of
        Ok _ \<Rightarrow>
          let send_wr = mb_send_buffer_count b + CTRL_SEND_COUNT + 1;
              recv_wr = mb_recv_buffer_count b + CTRL_RECV_COUNT;
              mr_size = HEADER_SIZE + mb_buffer_size b
          in if send_wr \<ge> 2 ^ 64 then Err (InvalidConfig ''message send WR derivation overflow'')
             else if recv_wr \<ge> 2 ^ 64 then Err (InvalidConfig ''message receive WR derivation overflow'')
             else if mr_size \<ge> 2 ^ 64 then Err (InvalidConfig ''message MR size overflow'')
             else if mb_recv_buffer_count b \<ge> 2 ^ 32 then
               Err (InvalidConfig ''recv_buffers does not fit the HELLO wire field'')
             else if mb_buffer_size b \<ge> 2 ^ 32 then
               Err (InvalidConfig ''buffer_size does not fit the HELLO wire field'')
             else if mr_size \<ge> 2 ^ 32 then Err (InvalidConfig ''message MR size does not fit a receive SGE'')
             else
               let config = (\<lambda>s r.
                     \<lparr>mc_max_send_wr = s, mc_max_recv_wr = r, mc_send_count = mb_send_buffer_count b,
                      mc_recv_count = mb_recv_buffer_count b, mc_buffer_size = mb_buffer_size b,
                      mc_mr_size = mr_size, mc_hello_deadline = mb_hello_deadline b\<rparr>)
               in (case mb_connection_config b of
                     None \<Rightarrow> Ok (config send_wr recv_wr)
                   | Some l \<Rightarrow>
                       if cl_max_send_wr l < send_wr then
                         Err (InvalidConfig ''connection maximum send WRs is below the message requirement'')
                       else if cl_max_recv_wr l < recv_wr then
                         Err (InvalidConfig ''connection maximum receive WRs is below the message requirement'')
                       else Ok (config (cl_max_send_wr l) (cl_max_recv_wr l)))
      | Err e \<Rightarrow> Err e
      | Panic \<Rightarrow> Panic)"

subsection \<open>Pools of registered buffers\<close>

record 's mr_pool =
  pl_closed :: bool
  pl_entries :: "mr list"
  pl_available :: 's

definition pool_new :: "'s sem_ops \<Rightarrow> mr list \<Rightarrow> 's mr_pool" where
  "pool_new S entries =
     \<lparr>pl_closed = False, pl_entries = entries, pl_available = sem_new S (length entries)\<rparr>"

text \<open>One poll of \<open>take().await\<close>.\<close>

definition pool_take :: "'s sem_ops \<Rightarrow> 's mr_pool \<Rightarrow> mr res2 poll \<times> 's mr_pool" where
  "pool_take S p =
     (case sem_try S 1 (pl_available p) of
        (NoPermits, s) \<Rightarrow> (Pending, p\<lparr>pl_available := s\<rparr>)
      | (SemClosed, s) \<Rightarrow> (Ready (Err TransportClosed), p\<lparr>pl_available := s\<rparr>)
      | (Acquired, s) \<Rightarrow>
          if pl_closed p then (Ready (Err TransportClosed), p\<lparr>pl_available := snd (sem_add S 1 s)\<rparr>)
          else if pl_entries p = [] then
            (Ready (Err (InvalidConfig ''registered MR pool accounting mismatch'')),
             p\<lparr>pl_available := snd (sem_add S 1 s)\<rparr>)
          else
            (Ready (Ok (last (pl_entries p))), p\<lparr>pl_available := s, pl_entries := butlast (pl_entries p)\<rparr>))"

definition pool_try_take :: "'s sem_ops \<Rightarrow> 's mr_pool \<Rightarrow> mr option \<times> 's mr_pool" where
  "pool_try_take S p =
     (case sem_try S 1 (pl_available p) of
        (Acquired, s) \<Rightarrow>
          if pl_closed p \<or> pl_entries p = [] then (None, p\<lparr>pl_available := snd (sem_add S 1 s)\<rparr>)
          else (Some (last (pl_entries p)), p\<lparr>pl_available := s, pl_entries := butlast (pl_entries p)\<rparr>)
      | (_, s) \<Rightarrow> (None, p\<lparr>pl_available := s\<rparr>))"

definition pool_put :: "'s sem_ops \<Rightarrow> mr \<Rightarrow> 's mr_pool \<Rightarrow> unit res2 \<times> 's mr_pool" where
  "pool_put S m p =
     (if pl_closed p then (Ok (), p)
      else
        let (r, s) = sem_add S 1 (pl_available p)
        in (r, p\<lparr>pl_entries := pl_entries p @ [m], pl_available := s\<rparr>))"

definition pool_close :: "'s sem_ops \<Rightarrow> 's mr_pool \<Rightarrow> 's mr_pool" where
  "pool_close S p =
     (if pl_closed p then p
      else p\<lparr>pl_closed := True, pl_available := sem_close S (pl_available p), pl_entries := []\<rparr>)"

definition pool_available :: "'s mr_pool \<Rightarrow> nat" where
  "pool_available p = length (pl_entries p)"

record 's message_pools =
  mp_data_sends :: "'s mr_pool"
  mp_control_sends :: "'s mr_pool"
  mp_hello_send :: "mr option"

subsection \<open>Send requests\<close>

record send_request =
  rq_mr :: "mr option"
  rq_credit :: bool
  rq_frame_len :: nat
  rq_output :: "unit res2 option"
  rq_cancelled :: bool
  rq_io_cancelled :: bool
  rq_credit_committed :: bool
  rq_wakes :: nat

datatype send_action = ActPost mr bool nat | ActCancelled mr bool | AlreadyHandled

definition request_new :: "mr \<Rightarrow> bool \<Rightarrow> nat \<Rightarrow> send_request" where
  "request_new m credit frame_len =
     \<lparr>rq_mr = Some m, rq_credit = credit, rq_frame_len = frame_len, rq_output = None,
      rq_cancelled = False, rq_io_cancelled = False, rq_credit_committed = False, rq_wakes = 0\<rparr>"

definition request_start :: "send_request \<Rightarrow> send_action \<times> send_request" where
  "request_start r =
     (case rq_mr r of
        None \<Rightarrow> (AlreadyHandled, r)
      | Some m \<Rightarrow>
          let r' = r\<lparr>rq_mr := None, rq_credit := False\<rparr>
          in if rq_cancelled r then (ActCancelled m (rq_credit r), r')
             else (ActPost m (rq_credit r) (rq_frame_len r), r'))"

definition request_complete :: "unit res2 \<Rightarrow> send_request \<Rightarrow> send_request" where
  "request_complete res r =
     (if rq_output r = None then r\<lparr>rq_output := Some res, rq_wakes := rq_wakes r + 1\<rparr>
      else r\<lparr>rq_wakes := rq_wakes r + 1\<rparr>)"

definition request_cancel :: "send_request \<Rightarrow> send_request" where
  "request_cancel r = r\<lparr>rq_cancelled := True, rq_io_cancelled := True\<rparr>"

subsection \<open>The shared state\<close>

definition STATE_CREATED :: nat where "STATE_CREATED = 0"
definition STATE_READY :: nat where "STATE_READY = 2"
definition STATE_CLOSING :: nat where "STATE_CLOSING = 3"
definition STATE_STOPPED :: nat where "STATE_STOPPED = 4"
definition STATE_FAILED :: nat where "STATE_FAILED = 5"

datatype msg_context = HelloSendCtx | ReceiveCtx | SendCtx nat | ControlSendCtx

datatype transition =
    TrReceive bool
  | TrSend
  | TrControlSend nat
  | TrHelloSend
  | TrHelloReceiveRepost nat

datatype msg_event = EvStart | EvRepost mr | EvSendRequest nat

record 's msg =
  ms_state :: nat
  ms_error :: "error2 option"
  ms_remote_credits :: 's
  ms_peer_recv_capacity :: nat
  ms_credits_in_flight :: nat
  ms_local_recv_capacity :: nat
  ms_local_send_capacity :: nat
  ms_buffer_size :: nat
  ms_pools :: "'s message_pools option"
  ms_hello_send_posted :: bool
  ms_hello_send_complete :: bool
  ms_hello_receive_complete :: bool
  ms_events :: "msg_event list"
  ms_received :: "(mr \<times> nat) list"
  ms_pending_credit_returns :: nat
  ms_transitions :: "transition list"
  ms_local_close_started :: bool
  ms_io :: "(msg_context, 's) io_conn option"
  ms_attached :: bool
  ms_requests :: "send_request list"
  ms_state_notifies :: nat
  ms_recv_notifies :: nat
  ms_driver_wakes :: nat

definition msg_new :: "'s sem_ops \<Rightarrow> message_config \<Rightarrow> 's msg" where
  "msg_new S c =
     \<lparr>ms_state = STATE_CREATED, ms_error = None, ms_remote_credits = sem_new S 0,
      ms_peer_recv_capacity = 0, ms_credits_in_flight = 0,
      ms_local_recv_capacity = mc_recv_count c, ms_local_send_capacity = mc_send_count c,
      ms_buffer_size = mc_buffer_size c, ms_pools = None,
      ms_hello_send_posted = False, ms_hello_send_complete = False, ms_hello_receive_complete = False,
      ms_events = [], ms_received = [], ms_pending_credit_returns = 0, ms_transitions = [],
      ms_local_close_started = False, ms_io = None, ms_attached = False, ms_requests = [],
      ms_state_notifies = 0, ms_recv_notifies = 0, ms_driver_wakes = 0\<rparr>"

definition is_terminal :: "nat \<Rightarrow> bool" where
  "is_terminal st \<longleftrightarrow> st = STATE_STOPPED \<or> st = STATE_FAILED"

definition transition_terminal :: "nat \<Rightarrow> 's msg \<Rightarrow> bool \<times> 's msg" where
  "transition_terminal target m =
     (if is_terminal (ms_state m) then (False, m) else (True, m\<lparr>ms_state := target\<rparr>))"

definition check_credit_return :: "nat \<Rightarrow> nat \<Rightarrow> nat \<Rightarrow> nat \<Rightarrow> unit res2" where
  "check_credit_return credits_n in_flight available_n capacity =
     (if credits_n = 0 then Err (ProtocolViolation (Literal ''CREDIT frame with zero credits''))
      else if credits_n > in_flight then Err (ProtocolViolation (Literal ''CREDIT exceeds in-flight sends''))
      else if min (available_n + credits_n) (2 ^ 64 - 1) > capacity then
        Err (ProtocolViolation (Literal ''CREDIT would exceed negotiated capacity''))
      else Ok ())"

definition claim_pending_credit_returns :: "'s msg \<Rightarrow> nat \<times> 's msg" where
  "claim_pending_credit_returns m =
     (let observed = ms_pending_credit_returns m;
          claimed = min observed (2 ^ 32 - 1)
      in if observed = 0 then (0, m) else (claimed, m\<lparr>ms_pending_credit_returns := observed - claimed\<rparr>))"

definition publish :: "'s msg \<Rightarrow> 's msg" where
  "publish m = m\<lparr>ms_driver_wakes := ms_driver_wakes m + 1\<rparr>"

definition notify_all :: "'s msg \<Rightarrow> 's msg" where
  "notify_all m = m\<lparr>ms_state_notifies := ms_state_notifies m + 1, ms_recv_notifies := ms_recv_notifies m + 1\<rparr>"

definition msg_terminal_error :: "'s msg \<Rightarrow> error2" where
  "msg_terminal_error m = (case ms_error m of Some e \<Rightarrow> e | None \<Rightarrow> TransportClosed)"

text \<open>The accessors that fail before setup is finished, and the cancellation flags of the requests.\<close>

definition msg_pools :: "'s msg \<Rightarrow> 's message_pools res2" where
  "msg_pools m =
     (case ms_pools m of Some p \<Rightarrow> Ok p | None \<Rightarrow> Err (InvalidConfig ''message pools are not installed''))"

definition msg_io :: "'s msg \<Rightarrow> (msg_context, 's) io_conn res2" where
  "msg_io m =
     (case ms_io m of Some io \<Rightarrow> Ok io | None \<Rightarrow> Err (InvalidConfig ''message I/O is not installed''))"

definition cancel_flags :: "'s msg \<Rightarrow> nat \<Rightarrow> bool" where
  "cancel_flags m i \<longleftrightarrow> i < length (ms_requests m) \<and> rq_io_cancelled (ms_requests m ! i)"

definition upd_request :: "nat \<Rightarrow> (send_request \<Rightarrow> send_request) \<Rightarrow> 's msg \<Rightarrow> 's msg" where
  "upd_request i f m =
     (if i < length (ms_requests m)
      then m\<lparr>ms_requests := (ms_requests m)[i := f (ms_requests m ! i)]\<rparr> else m)"

text \<open>\<open>pools.data_sends.put(mr)\<close> and \<open>pools.control_sends.put(mr)\<close> when the pools are there.\<close>

definition put_data :: "'s sem_ops \<Rightarrow> mr \<Rightarrow> 's msg \<Rightarrow> unit res2 \<times> 's msg" where
  "put_data S mr m =
     (case ms_pools m of
        None \<Rightarrow> (Ok (), m)
      | Some p \<Rightarrow>
          let (r, d) = pool_put S mr (mp_data_sends p)
          in (r, m\<lparr>ms_pools := Some (p\<lparr>mp_data_sends := d\<rparr>)\<rparr>))"

definition put_control :: "'s sem_ops \<Rightarrow> mr \<Rightarrow> 's msg \<Rightarrow> unit res2 \<times> 's msg" where
  "put_control S mr m =
     (case ms_pools m of
        None \<Rightarrow> (Ok (), m)
      | Some p \<Rightarrow>
          let (r, d) = pool_put S mr (mp_control_sends p)
          in (r, m\<lparr>ms_pools := Some (p\<lparr>mp_control_sends := d\<rparr>)\<rparr>))"

text \<open>\<open>remote_credits.add_permits(n)\<close>, and the drop of a credit permit.\<close>

definition add_credits :: "'s sem_ops \<Rightarrow> nat \<Rightarrow> 's msg \<Rightarrow> unit res2 \<times> 's msg" where
  "add_credits S n m =
     (let (r, s) = sem_add S n (ms_remote_credits m) in (r, m\<lparr>ms_remote_credits := s\<rparr>))"

definition drop_credit :: "'s sem_ops \<Rightarrow> bool \<Rightarrow> 's msg \<Rightarrow> 's msg" where
  "drop_credit S held m = (if held then snd (add_credits S 1 m) else m)"

definition install_pools :: "'s sem_ops \<Rightarrow> mr list \<Rightarrow> mr list \<Rightarrow> mr \<Rightarrow> 's msg \<Rightarrow> unit res2 \<times> 's msg" where
  "install_pools S data_sends control_sends hello_send m =
     (if length data_sends \<noteq> ms_local_send_capacity m then
        (Err (InvalidConfig ''message data-send pool has the wrong size''), m)
      else if length control_sends \<noteq> CTRL_SEND_COUNT then
        (Err (InvalidConfig ''message control-send pool has the wrong size''), m)
      else if ms_pools m \<noteq> None then (Err (InvalidConfig ''message pools installed more than once''), m)
      else
        (Ok (), m\<lparr>ms_pools := Some \<lparr>mp_data_sends = pool_new S data_sends,
           mp_control_sends = pool_new S control_sends, mp_hello_send = Some hello_send\<rparr>\<rparr>))"

definition install_io :: "(msg_context, 's) io_conn \<Rightarrow> 's msg \<Rightarrow> unit res2 \<times> 's msg" where
  "install_io io m =
     (if ms_io m \<noteq> None then (Err (InvalidConfig ''message I/O installed more than once''), m)
      else (Ok (), m\<lparr>ms_io := Some io\<rparr>))"

definition close_pools :: "'s sem_ops \<Rightarrow> 's msg \<Rightarrow> 's msg" where
  "close_pools S m =
     m\<lparr>ms_pools := map_option (\<lambda>p. p\<lparr>mp_data_sends := pool_close S (mp_data_sends p),
          mp_control_sends := pool_close S (mp_control_sends p), mp_hello_send := None\<rparr>) (ms_pools m)\<rparr>"

subsection \<open>Discarding work at the end\<close>

definition rollback_unaccepted_send :: "'s sem_ops \<Rightarrow> nat \<Rightarrow> 's msg \<Rightarrow> unit res2 \<times> 's msg" where
  "rollback_unaccepted_send S i m =
     (if i < length (ms_requests m) \<and> rq_credit_committed (ms_requests m ! i) then
        let m = upd_request i (\<lambda>r. r\<lparr>rq_credit_committed := False\<rparr>) m
        in if ms_credits_in_flight m = 0 then (Ok (), m)
           else add_credits S 1 (m\<lparr>ms_credits_in_flight := ms_credits_in_flight m - 1\<rparr>)
      else (Ok (), m))"

definition complete_request :: "nat \<Rightarrow> unit res2 \<Rightarrow> 's msg \<Rightarrow> 's msg" where
  "complete_request i res m = upd_request i (request_complete res) m"

definition start_request :: "nat \<Rightarrow> 's msg \<Rightarrow> send_action \<times> 's msg" where
  "start_request i m =
     (if i < length (ms_requests m) then
        let (a, r) = request_start (ms_requests m ! i) in (a, upd_request i (\<lambda>_. r) m)
      else (AlreadyHandled, m))"

fun dispose_terminal_event :: "'s sem_ops \<Rightarrow> msg_event \<Rightarrow> 's msg \<Rightarrow> 's msg" where
  "dispose_terminal_event S EvStart m = m"
| "dispose_terminal_event S (EvRepost _) m = m"
| "dispose_terminal_event S (EvSendRequest i) m =
     (case start_request i m of
        (ActPost _ credit _, m) \<Rightarrow> (let m = drop_credit S credit m in complete_request i (Err (msg_terminal_error m)) m)
      | (ActCancelled _ credit, m) \<Rightarrow> (let m = drop_credit S credit m in complete_request i (Err (msg_terminal_error m)) m)
      | (AlreadyHandled, m) \<Rightarrow> m)"

definition dispose_io_event :: "'s sem_ops \<Rightarrow> msg_context io_event \<Rightarrow> 's msg \<Rightarrow> unit res2 \<times> 's msg" where
  "dispose_io_event S ev m =
     (case ev of
        Submitted _ \<Rightarrow> (Ok (), m\<lparr>ms_transitions := tl (ms_transitions m)\<rparr>)
      | Ended _ \<Rightarrow> (Ok (), m)
      | Completed c \<Rightarrow>
          (case ic_context c of
             Ctx (SendCtx i) \<Rightarrow>
               and_then (if ic_unaccepted c then rollback_unaccepted_send S i m else (Ok (), m))
                 (\<lambda>_ m. (Ok (), complete_request i (Err (msg_terminal_error m)) m))
           | _ \<Rightarrow> (Ok (), m)))"

text \<open>A handler over a list of events, stopping at a panic.\<close>

fun for_each :: "('e \<Rightarrow> 's msg \<Rightarrow> unit res2 \<times> 's msg) \<Rightarrow> 'e list \<Rightarrow> 's msg \<Rightarrow> unit res2 \<times> 's msg" where
  "for_each f [] m = (Ok (), m)"
| "for_each f (x # xs) m = and_then (f x m) (\<lambda>_ m. for_each f xs m)"

definition drain_local_events :: "'s sem_ops \<Rightarrow> 's msg \<Rightarrow> 's msg" where
  "drain_local_events S m = fold (dispose_terminal_event S) (ms_events m) (m\<lparr>ms_events := []\<rparr>)"

text \<open>\<open>drain_terminal_events(true)\<close>\<close>

definition drain_and_close :: "'s sem_ops \<Rightarrow> 's msg \<Rightarrow> unit res2 \<times> 's msg" where
  "drain_and_close S m =
     (let m = drain_local_events S m in
      case ms_io m of
        None \<Rightarrow> (Ok (), m)
      | Some io \<Rightarrow>
          let io = discard_pending_protocol io;
              (evs, p) = port_close (io_port io)
          in for_each (dispose_io_event S) evs (m\<lparr>ms_io := Some (io\<lparr>io_port := p\<rparr>)\<rparr>))"

definition enter_failed :: "'s sem_ops \<Rightarrow> error2 \<Rightarrow> 's msg \<Rightarrow> bool res2 \<times> 's msg" where
  "enter_failed S e m =
     (case transition_terminal STATE_FAILED m of
        (False, m) \<Rightarrow> (Ok False, m)
      | (True, m) \<Rightarrow>
          let m = m\<lparr>ms_error := (case ms_error m of None \<Rightarrow> Some e | Some e' \<Rightarrow> Some e'),
                    ms_remote_credits := sem_close S (ms_remote_credits m), ms_pending_credit_returns := 0\<rparr>
          in and_then (drain_and_close S (close_pools S m)) (\<lambda>_ m. (Ok True, publish (notify_all m))))"

definition request_io_close :: "'s msg \<Rightarrow> 's msg" where
  "request_io_close m = m\<lparr>ms_io := map_option io_request_close (ms_io m)\<rparr>"

definition fail :: "'s sem_ops \<Rightarrow> error2 \<Rightarrow> bool \<Rightarrow> 's msg \<Rightarrow> unit res2 \<times> 's msg" where
  "fail S e close_connection m =
     and_then (enter_failed S e m) (\<lambda>entered m.
       (Ok (), if entered \<and> close_connection then request_io_close m else m))"

definition finish_close :: "'s sem_ops \<Rightarrow> unit res2 \<Rightarrow> 's msg \<Rightarrow> unit res2 \<times> 's msg" where
  "finish_close S res m =
     (case res of
        Err e \<Rightarrow> fail S e False m
      | _ \<Rightarrow>
          let (newly, m) = transition_terminal STATE_STOPPED m
          in and_then (drain_and_close S (close_pools S m)) (\<lambda>_ m.
               (Ok (), let m = notify_all m in if newly then publish m else m)))"

subsection \<open>Handshake and submission receipts\<close>

definition normalize_message_completion_error :: "error2 \<Rightarrow> error2" where
  "normalize_message_completion_error e =
     (case e of CompletionError WrFlushErr _ \<Rightarrow> TransportClosed | _ \<Rightarrow> e)"

definition try_mark_ready :: "'s msg \<Rightarrow> 's msg" where
  "try_mark_ready m =
     (if \<not> ms_hello_send_complete m \<or> \<not> ms_hello_receive_complete m then m
      else if ms_state m = STATE_CREATED then
        m\<lparr>ms_state := STATE_READY, ms_state_notifies := ms_state_notifies m + 1\<rparr>
      else m)"

definition fail_if_ambiguous :: "'s sem_ops \<Rightarrow> disposition \<Rightarrow> 's msg \<Rightarrow> unit res2 \<times> 's msg" where
  "fail_if_ambiguous S d m =
     (case disp_error d of
        Some e \<Rightarrow> if potentially_accepted d then fail S e True m else (Ok (), m)
      | None \<Rightarrow> (Ok (), m))"

definition apply_protocol_disposition ::
    "'s sem_ops \<Rightarrow> transition \<Rightarrow> disposition \<Rightarrow> 's msg \<Rightarrow> unit res2 \<times> 's msg" where
  "apply_protocol_disposition S tr d m =
     (case tr of
        TrReceive return_credit \<Rightarrow>
          if all_accepted d \<and> return_credit then
            (Ok (), m\<lparr>ms_pending_credit_returns := ms_pending_credit_returns m + 1\<rparr>)
          else fail_if_ambiguous S d m
      | TrSend \<Rightarrow> if all_accepted d then (Ok (), m) else fail_if_ambiguous S d m
      | TrHelloSend \<Rightarrow> if all_accepted d then (Ok (), m) else fail_if_ambiguous S d m
      | TrControlSend n \<Rightarrow>
          if all_accepted d then (Ok (), m)
          else if potentially_accepted d then fail_if_ambiguous S d m
          else if ms_state m = STATE_READY then
            (Ok (), m\<lparr>ms_pending_credit_returns := ms_pending_credit_returns m + n\<rparr>)
          else (Ok (), m)
      | TrHelloReceiveRepost peer_capacity \<Rightarrow>
          if all_accepted d then
            and_then (add_credits S peer_capacity (m\<lparr>ms_peer_recv_capacity := peer_capacity\<rparr>))
              (\<lambda>_ m. (Ok (), try_mark_ready (m\<lparr>ms_hello_receive_complete := True\<rparr>)))
          else fail_if_ambiguous S d m)"

definition track_protocol_disposition ::
    "'s sem_ops \<Rightarrow> transition \<Rightarrow> disposition \<Rightarrow> 's msg \<Rightarrow> unit res2 \<times> 's msg" where
  "track_protocol_disposition S tr d m =
     (case d of
        PendingOps _ \<Rightarrow> (Ok (), m\<lparr>ms_transitions := ms_transitions m @ [tr]\<rparr>)
      | _ \<Rightarrow> apply_protocol_disposition S tr d m)"

text \<open>Posting through the I/O port and tracking the disposition.\<close>

definition post_recv_tracked ::
    "'s sem_ops \<Rightarrow> mr \<Rightarrow> transition \<Rightarrow> (msg_context, 's) io_conn \<Rightarrow> 's msg \<Rightarrow> unit res2 \<times> 's msg" where
  "post_recv_tracked S mr tr io m =
     (let (d, io) = io_post_recv mr (Ctx ReceiveCtx) io
      in track_protocol_disposition S tr d (m\<lparr>ms_io := Some io\<rparr>))"

definition post_send_tracked ::
    "'s sem_ops \<Rightarrow> mr \<Rightarrow> nat \<Rightarrow> msg_context \<Rightarrow> nat option \<Rightarrow> transition \<Rightarrow> (msg_context, 's) io_conn \<Rightarrow>
       's msg \<Rightarrow> unit res2 \<times> 's msg" where
  "post_send_tracked S mr len ctx cancellation tr io m =
     (let (d, io) = io_post_send mr len (Ctx ctx) cancellation io
      in track_protocol_disposition S tr d (m\<lparr>ms_io := Some io\<rparr>))"

definition post_receive :: "'s sem_ops \<Rightarrow> mr \<Rightarrow> bool \<Rightarrow> 's msg \<Rightarrow> unit res2 \<times> 's msg" where
  "post_receive S mr return_credit m =
     (case msg_io m of
        Ok io \<Rightarrow> post_recv_tracked S mr (TrReceive return_credit) io m
      | Err e \<Rightarrow> fail S e False m
      | Panic \<Rightarrow> (Panic, m))"

definition process_repost :: "'s sem_ops \<Rightarrow> mr \<Rightarrow> 's msg \<Rightarrow> unit res2 \<times> 's msg" where
  "process_repost S mr m =
     (if ms_state m \<noteq> STATE_READY then (Ok (), m) else post_receive S mr True m)"

definition validate_peer_hello :: "'s sem_ops \<Rightarrow> hello_payload \<Rightarrow> nat \<Rightarrow> nat res2" where
  "validate_peer_hello S hello local_buffer_size =
     (let peer_capacity = unat (data_recv_capacity hello);
          peer_max = unat (max_message_size hello)
      in if peer_capacity = 0 then Err (ProtocolViolation (Literal ''peer data_recv_capacity is 0''))
         else if peer_capacity > MAX_PERMITS S then
           Err (ProtocolViolation (Literal ''peer data_recv_capacity exceeds maximum''))
         else if peer_max < local_buffer_size then
           Err (ProtocolViolation (Literal ''peer max_message_size < local buffer_size''))
         else Ok peer_capacity)"

definition parse_hello_receive :: "'s sem_ops \<Rightarrow> wc \<Rightarrow> mr \<Rightarrow> 's msg \<Rightarrow> nat res2" where
  "parse_hello_receive S c mr m =
     (let received_len = unat (byte_len c) in
      if received_len > length (mr_bytes mr) then
        Err (ProtocolViolation (Literal ''HELLO receive length exceeds MR length''))
      else
        case parse_header (mr_bytes mr) received_len of
          Err v \<Rightarrow> Err (ProtocolViolation (FromParser v))
        | Panic \<Rightarrow> Panic
        | Ok h \<Rightarrow>
            if frame_type h \<noteq> FRAME_HELLO then Err (ProtocolViolation (Literal ''expected HELLO''))
            else
              let payload_end = HEADER_SIZE + unat (payload_len h) in
              if payload_end \<ge> 2 ^ 64 then Err (ProtocolViolation (Literal ''HELLO payload length overflow''))
              else if payload_end > length (mr_bytes mr) then Panic
              else
                (case parse_hello (slice (mr_bytes mr) HEADER_SIZE payload_end) of
                   Ok hello \<Rightarrow> validate_peer_hello S hello (ms_buffer_size m)
                 | Err v \<Rightarrow> Err (ProtocolViolation (FromParser v))
                 | Panic \<Rightarrow> Panic))"

definition process_hello_receive ::
    "'s sem_ops \<Rightarrow> wc res2 \<Rightarrow> mr option \<Rightarrow> 's msg \<Rightarrow> unit res2 \<times> 's msg" where
  "process_hello_receive S res mro m =
     (case res of
        Err e \<Rightarrow> fail S (normalize_message_completion_error e) True m
      | Panic \<Rightarrow> (Panic, m)
      | Ok c \<Rightarrow>
          (case mro of
             None \<Rightarrow> fail S DriverShutdown True m
           | Some mr \<Rightarrow>
               (case parse_hello_receive S c mr m of
                  Err e \<Rightarrow> fail S e True m
                | Panic \<Rightarrow> (Panic, m)
                | Ok peer_capacity \<Rightarrow>
                    if ms_hello_receive_complete m then
                      fail S (ProtocolViolation (Literal ''duplicate HELLO during negotiation'')) True m
                    else
                      (case msg_io m of
                         Ok io \<Rightarrow> post_recv_tracked S mr (TrHelloReceiveRepost peer_capacity) io m
                       | Err e \<Rightarrow> fail S e False m
                       | Panic \<Rightarrow> (Panic, m)))))"

definition start_hello_send :: "'s sem_ops \<Rightarrow> 's msg \<Rightarrow> unit res2 \<times> 's msg" where
  "start_hello_send S m =
     (if ms_state m \<noteq> STATE_CREATED then (Ok (), m)
      else if ms_hello_send_posted m then (Ok (), m)
      else
        let m = m\<lparr>ms_hello_send_posted := True\<rparr> in
        case msg_io m of
          Err e \<Rightarrow> fail S e False m
        | Panic \<Rightarrow> (Panic, m)
        | Ok io \<Rightarrow>
            (case msg_pools m of
               Err e \<Rightarrow> fail S e True m
             | Panic \<Rightarrow> (Panic, m)
             | Ok p \<Rightarrow>
                 (case mp_hello_send p of
                    None \<Rightarrow> fail S (InvalidConfig ''HELLO send buffer is unavailable'') True m
                  | Some mr \<Rightarrow>
                      let m = m\<lparr>ms_pools := Some (p\<lparr>mp_hello_send := None\<rparr>)\<rparr> in
                      (case write_hello_frame (mr_bytes mr) (word_of_nat (ms_local_recv_capacity m))
                              (word_of_nat (ms_buffer_size m)) of
                         Ok (len, bs) \<Rightarrow>
                           post_send_tracked S (mr\<lparr>mr_bytes := bs\<rparr>) len HelloSendCtx None TrHelloSend io m
                       | _ \<Rightarrow> (Panic, m)))))"

subsection \<open>Receiving, credits and sending\<close>

definition validate_and_add_credits :: "'s sem_ops \<Rightarrow> u32 \<Rightarrow> 's msg \<Rightarrow> unit res2 \<times> 's msg" where
  "validate_and_add_credits S n m =
     (case check_credit_return (unat n) (ms_credits_in_flight m) (sem_permits S (ms_remote_credits m))
             (ms_peer_recv_capacity m) of
        Err e \<Rightarrow> (Err e, m)
      | Panic \<Rightarrow> (Panic, m)
      | Ok _ \<Rightarrow>
          if ms_credits_in_flight m < unat n then
            (Err (ProtocolViolation (Literal ''CREDIT exceeds in-flight sends (atomic)'')), m)
          else add_credits S (unat n) (m\<lparr>ms_credits_in_flight := ms_credits_in_flight m - unat n\<rparr>))"

definition process_frame ::
    "'s sem_ops \<Rightarrow> frame_header \<Rightarrow> mr \<Rightarrow> 's msg \<Rightarrow> unit res2 \<times> 's msg" where
  "process_frame S h mr m =
     (let payload_n = unat (payload_len h); payload_end = HEADER_SIZE + payload_n in
      if frame_type h = FRAME_DATA then
        if payload_n > ms_buffer_size m then
          fail S (ProtocolViolation (Literal ''DATA payload exceeds negotiated maximum'')) True m
        else
          (Ok (), m\<lparr>ms_received := ms_received m @ [(mr, payload_n)], ms_recv_notifies := ms_recv_notifies m + 1\<rparr>)
      else if frame_type h = FRAME_CREDIT then
        if payload_end > length (mr_bytes mr) then (Panic, m)
        else
          case parse_credit (slice (mr_bytes mr) HEADER_SIZE payload_end) of
            Err v \<Rightarrow> fail S (ProtocolViolation (FromParser v)) True m
          | Panic \<Rightarrow> (Panic, m)
          | Ok c \<Rightarrow>
              (case validate_and_add_credits S (credits c) m of
                 (Err e, m) \<Rightarrow> fail S e True m
               | (Panic, m) \<Rightarrow> (Panic, m)
               | (Ok _, m) \<Rightarrow> post_receive S mr False m)
      else if frame_type h = FRAME_HELLO then
        fail S (ProtocolViolation (Literal ''unexpected HELLO frame during steady-state operation'')) True m
      else (Panic, m))"

definition process_receive :: "'s sem_ops \<Rightarrow> wc res2 \<Rightarrow> mr option \<Rightarrow> 's msg \<Rightarrow> unit res2 \<times> 's msg" where
  "process_receive S res mro m =
     (if ms_state m = STATE_CREATED then process_hello_receive S res mro m
      else if ms_state m \<noteq> STATE_READY then (Ok (), m)
      else
        case res of
          Err e \<Rightarrow> fail S (normalize_message_completion_error e) True m
        | Panic \<Rightarrow> (Panic, m)
        | Ok c \<Rightarrow>
            (case mro of
               None \<Rightarrow> fail S DriverShutdown True m
             | Some mr \<Rightarrow>
                 let received_len = unat (byte_len c) in
                 if received_len > length (mr_bytes mr) then
                   fail S (ProtocolViolation (Literal ''receive length exceeds MR length'')) True m
                 else
                   (case parse_header (mr_bytes mr) received_len of
                      Err v \<Rightarrow> fail S (ProtocolViolation (FromParser v)) True m
                    | Panic \<Rightarrow> (Panic, m)
                    | Ok h \<Rightarrow> process_frame S h mr m)))"

text \<open>A started request on a ready transport: the credit is committed before the post.\<close>

definition post_request :: "'s sem_ops \<Rightarrow> nat \<Rightarrow> mr \<Rightarrow> bool \<Rightarrow> nat \<Rightarrow> 's msg \<Rightarrow> unit res2 \<times> 's msg" where
  "post_request S i mr credit frame_len m =
     (let m = (if credit then
                 upd_request i (\<lambda>r. r\<lparr>rq_credit_committed := True\<rparr>)
                   (m\<lparr>ms_credits_in_flight := ms_credits_in_flight m + 1\<rparr>)
               else m)
      in case msg_io m of
           Ok io \<Rightarrow> post_send_tracked S mr frame_len (SendCtx i) (Some i) TrSend io m
         | Err e \<Rightarrow>
             and_then (rollback_unaccepted_send S i m) (\<lambda>_ m.
             and_then (put_data S mr m) (\<lambda>_ m. (Ok (), complete_request i (Err e) m)))
         | Panic \<Rightarrow> (Panic, m))"

definition process_send_request :: "'s sem_ops \<Rightarrow> nat \<Rightarrow> 's msg \<Rightarrow> unit res2 \<times> 's msg" where
  "process_send_request S i m =
     (case start_request i m of
        (ActCancelled mr credit, m) \<Rightarrow> put_data S mr (drop_credit S credit m)
      | (AlreadyHandled, m) \<Rightarrow> (Ok (), m)
      | (ActPost mr credit frame_len, m) \<Rightarrow>
          if ms_state m \<noteq> STATE_READY then
            and_then (put_data S mr (drop_credit S credit m)) (\<lambda>_ m.
              (Ok (), complete_request i (Err (msg_terminal_error m)) m))
          else post_request S i mr credit frame_len m)"

definition process_send_completion ::
    "'s sem_ops \<Rightarrow> nat \<Rightarrow> wc res2 \<Rightarrow> mr option \<Rightarrow> bool \<Rightarrow> 's msg \<Rightarrow> unit res2 \<times> 's msg" where
  "process_send_completion S i res mro unaccepted m =
     and_then (if unaccepted then rollback_unaccepted_send S i m else (Ok (), m)) (\<lambda>_ m.
     and_then (case mro of Some mr \<Rightarrow> put_data S mr m | None \<Rightarrow> (Ok (), m)) (\<lambda>_ m.
       let out = (case res of
                    Ok _ \<Rightarrow> Ok () | Err e \<Rightarrow> Err (normalize_message_completion_error e) | Panic \<Rightarrow> Panic);
           m = complete_request i out m
       in case out of
            Err e \<Rightarrow>
              if ms_state m = STATE_READY \<and> e \<noteq> CapacityExhausted then fail S e True m else (Ok (), m)
          | _ \<Rightarrow> (Ok (), m)))"

definition flush_one_credit :: "'s sem_ops \<Rightarrow> 's msg \<Rightarrow> bool res2 \<times> 's msg" where
  "flush_one_credit S m =
     (if ms_pending_credit_returns m = 0 \<or> ms_state m \<noteq> STATE_READY then (Ok False, m)
      else
        case msg_pools m of
          Err e \<Rightarrow> and_then (fail S e True m) (\<lambda>_ m. (Ok True, m))
        | Panic \<Rightarrow> (Panic, m)
        | Ok p \<Rightarrow>
            (case pool_try_take S (mp_control_sends p) of
               (None, c) \<Rightarrow> (Ok False, m\<lparr>ms_pools := Some (p\<lparr>mp_control_sends := c\<rparr>)\<rparr>)
             | (Some mr, c) \<Rightarrow>
                 let (n, m) = claim_pending_credit_returns (m\<lparr>ms_pools := Some (p\<lparr>mp_control_sends := c\<rparr>)\<rparr>)
                 in if n = 0 then and_then (put_control S mr m) (\<lambda>_ m. (Ok False, m))
                    else
                      (case write_credit_frame (mr_bytes mr) (word_of_nat n) of
                         Ok (len, bs) \<Rightarrow>
                           (case msg_io m of
                              Ok io \<Rightarrow>
                                and_then (post_send_tracked S (mr\<lparr>mr_bytes := bs\<rparr>) len ControlSendCtx None
                                    (TrControlSend n) io m) (\<lambda>_ m. (Ok True, m))
                            | Err e \<Rightarrow>
                                and_then (put_control S (mr\<lparr>mr_bytes := bs\<rparr>) m) (\<lambda>_ m.
                                  let m = (if ms_state m = STATE_READY then
                                        m\<lparr>ms_pending_credit_returns := ms_pending_credit_returns m + n\<rparr> else m)
                                  in and_then (fail S e False m) (\<lambda>_ m. (Ok True, m)))
                            | Panic \<Rightarrow> (Panic, m))
                       | _ \<Rightarrow> (Panic, m))))"

subsection \<open>Dispatch\<close>

definition process_io_completion ::
    "'s sem_ops \<Rightarrow> msg_context io_completion \<Rightarrow> 's msg \<Rightarrow> unit res2 \<times> 's msg" where
  "process_io_completion S c m =
     (case ic_context c of
        ForeignCtx \<Rightarrow> fail S (InvalidConfig ''message I/O completion carried an unknown context'') True m
      | Ctx HelloSendCtx \<Rightarrow>
          (case ic_result c of
             Ok _ \<Rightarrow>
               if \<not> ic_unaccepted c then (Ok (), try_mark_ready (m\<lparr>ms_hello_send_complete := True\<rparr>))
               else fail S (InvalidConfig ''proven-unaccepted HELLO completion reported success'') True m
           | Err e \<Rightarrow> fail S (normalize_message_completion_error e) True m
           | Panic \<Rightarrow> (Panic, m))
      | Ctx ReceiveCtx \<Rightarrow> process_receive S (ic_result c) (ic_mr c) m
      | Ctx (SendCtx i) \<Rightarrow>
          if ic_cancelled c then
            and_then (if ic_unaccepted c then rollback_unaccepted_send S i m else (Ok (), m)) (\<lambda>_ m.
            and_then (case ic_mr c of Some mr \<Rightarrow> put_data S mr m | None \<Rightarrow> (Ok (), m)) (\<lambda>_ m.
              (Ok (), complete_request i (Err DriverShutdown) m)))
          else process_send_completion S i (ic_result c) (ic_mr c) (ic_unaccepted c) m
      | Ctx ControlSendCtx \<Rightarrow>
          (case ic_mr c of
             None \<Rightarrow> fail S DriverShutdown True m
           | Some mr \<Rightarrow>
               (case msg_pools m of
                  Err e \<Rightarrow> fail S e True m
                | Panic \<Rightarrow> (Panic, m)
                | Ok _ \<Rightarrow>
                    and_then (put_control S mr m) (\<lambda>_ m.
                      case ic_result c of
                        Err e \<Rightarrow>
                          if ms_state m = STATE_READY
                          then fail S (normalize_message_completion_error e) True m else (Ok (), m)
                      | Ok _ \<Rightarrow> (Ok (), m)
                      | Panic \<Rightarrow> (Panic, m)))))"

definition process_io_event :: "'s sem_ops \<Rightarrow> msg_context io_event \<Rightarrow> 's msg \<Rightarrow> unit res2 \<times> 's msg" where
  "process_io_event S ev m =
     (case ev of
        Submitted d \<Rightarrow>
          (case ms_transitions m of
             [] \<Rightarrow> fail S (InvalidConfig ''protocol submission receipt has no pending transition'') True m
           | tr # trs \<Rightarrow> apply_protocol_disposition S tr d (m\<lparr>ms_transitions := trs\<rparr>))
      | Ended Disconnected \<Rightarrow> fail S TransportClosed True m
      | Ended (Terminal e) \<Rightarrow> fail S e False m
      | Ended (Closed r) \<Rightarrow> finish_close S r m
      | Completed c \<Rightarrow>
          if ms_state m \<ge> STATE_CLOSING then dispose_io_event S ev m
          else process_io_completion S c m)"

text \<open>\<open>drain_terminal_events(false)\<close>\<close>

definition drain_and_process :: "'s sem_ops \<Rightarrow> 's msg \<Rightarrow> unit res2 \<times> 's msg" where
  "drain_and_process S m =
     (let m = drain_local_events S m in
      case ms_io m of
        None \<Rightarrow> (Ok (), m)
      | Some io \<Rightarrow>
          let io = discard_pending_protocol io;
              (evs, p) = port_drain (io_port io)
          in for_each (process_io_event S) evs (m\<lparr>ms_io := Some (io\<lparr>io_port := p\<rparr>)\<rparr>))"

definition begin_close :: "'s sem_ops \<Rightarrow> 's msg \<Rightarrow> bool res2 \<times> 's msg" where
  "begin_close S m =
     (let here = (ms_state m = STATE_CREATED \<or> ms_state m = STATE_READY);
          m = (if here then m\<lparr>ms_state := STATE_CLOSING, ms_local_close_started := True\<rparr> else m);
          m = close_pools S (m\<lparr>ms_remote_credits := sem_close S (ms_remote_credits m),
                ms_pending_credit_returns := 0\<rparr>)
      in and_then (drain_and_process S m) (\<lambda>_ m.
           let m = publish (notify_all m)
           in (Ok here, if here then request_io_close m else m)))"

definition queue_event :: "'s sem_ops \<Rightarrow> msg_event \<Rightarrow> 's msg \<Rightarrow> bool \<times> 's msg" where
  "queue_event S ev m =
     (if ms_state m < STATE_CLOSING then (True, m\<lparr>ms_events := ms_events m @ [ev]\<rparr>)
      else (False, dispose_terminal_event S ev m))"

definition enqueue_event :: "'s sem_ops \<Rightarrow> msg_event \<Rightarrow> 's msg \<Rightarrow> 's msg" where
  "enqueue_event S ev m = (let (queued, m) = queue_event S ev m in if queued then publish m else m)"

definition attach :: "'s sem_ops \<Rightarrow> 's msg \<Rightarrow> unit res2 \<times> 's msg" where
  "attach S m =
     (case msg_pools m of
        Err e \<Rightarrow> (Err e, m)
      | Panic \<Rightarrow> (Panic, m)
      | Ok _ \<Rightarrow>
          (case msg_io m of
             Err e \<Rightarrow> (Err e, m)
           | Panic \<Rightarrow> (Panic, m)
           | Ok _ \<Rightarrow>
               if ms_attached m then (Err (InvalidConfig ''message state attached more than once''), m)
               else (Ok (), enqueue_event S EvStart (m\<lparr>ms_attached := True\<rparr>))))"

fun process_event :: "'s sem_ops \<Rightarrow> msg_event \<Rightarrow> 's msg \<Rightarrow> unit res2 \<times> 's msg" where
  "process_event S EvStart m = start_hello_send S m"
| "process_event S (EvRepost mr) m = process_repost S mr m"
| "process_event S (EvSendRequest i) m = process_send_request S i m"

subsection \<open>Setup before the connection is established\<close>

text \<open>
  \<open>MessagePreparation::run\<close>: \<open>register n\<close> is the registration of the next buffer of \<open>n\<close> bytes and
  \<open>post\<close> the batch post of the setup port. The buffers are registered in the order of the source.
\<close>

fun register_many :: "('r \<Rightarrow> mr res2 \<times> 'r) \<Rightarrow> nat \<Rightarrow> 'r \<Rightarrow> mr list res2 \<times> 'r" where
  "register_many reg 0 r = (Ok [], r)"
| "register_many reg (Suc n) r =
     and_then (reg r) (\<lambda>mr r. and_then (register_many reg n r) (\<lambda>mrs r. (Ok (mr # mrs), r)))"

definition prepare_message ::
    "'s sem_ops \<Rightarrow> (nat \<Rightarrow> 'r \<Rightarrow> mr res2 \<times> 'r) \<Rightarrow> ((mr \<times> msg_context op_context) list \<Rightarrow> 'r \<Rightarrow> disposition \<times> 'r) \<Rightarrow>
       (msg_context, 's) io_conn \<Rightarrow> message_config \<Rightarrow> 's msg \<times> 'r \<Rightarrow> nat res2 \<times> 's msg \<times> 'r" where
  "prepare_message S register post io c s =
     (let (m, r) = s;
          n = mc_recv_count c + CTRL_RECV_COUNT
      in if n \<ge> 2 ^ 64 then (Err (InvalidConfig ''message receive batch overflow''), m, r)
         else
           and_then (let (x, r) = register_many (register (mc_mr_size c)) (ms_local_send_capacity m) r in (x, m, r)) (\<lambda>ds (m, r).
           and_then (let (x, r) = register_many (register CTRL_BUF_SIZE) CTRL_SEND_COUNT r in (x, m, r)) (\<lambda>cs (m, r).
           and_then (let (x, r) = register HELLO_FRAME_SIZE r in (x, m, r)) (\<lambda>h (m, r).
           and_then (let (x, m) = install_pools S ds cs h m in (x, m, r)) (\<lambda>_ (m, r).
           and_then (let (x, r) = register_many (register (mc_mr_size c)) n r in (x, m, r)) (\<lambda>rs (m, r).
             let (d, r) = post (map (\<lambda>mr. (mr, Ctx ReceiveCtx)) rs) r
             in if disp_accepted d + disp_unaccepted d \<noteq> n then (Panic, m, r)
                else if \<not> all_accepted d then
                  (Err (case disp_error d of Some e \<Rightarrow> e | None \<Rightarrow> InvalidConfig ''I/O setup failed without an error''), m, r)
                else
                  and_then (let (x, m) = install_io io m in (x, m, r)) (\<lambda>_ (m, r). (Ok (disp_accepted d), m, r))))))))"

subsection \<open>The driver\<close>

record preferences =
  pf_credit :: bool
  pf_io :: bool
  pf_admission :: bool

definition poll_protocol_admission :: "'s sem_ops \<Rightarrow> 's msg \<Rightarrow> bool \<times> 's msg" where
  "poll_protocol_admission S m =
     (case ms_io m of
        None \<Rightarrow> (False, m)
      | Some io \<Rightarrow>
          let (k, io) = poll_admission S (cancel_flags m) 1 io in (k \<noteq> 0, m\<lparr>ms_io := Some io\<rparr>))"

datatype work = Protocol msg_event | Io "msg_context io_event"

definition pop_protocol :: "'s msg \<Rightarrow> work option \<times> 's msg" where
  "pop_protocol m =
     (case ms_events m of
        [] \<Rightarrow> (None, m) | ev # evs \<Rightarrow> (Some (Protocol ev), m\<lparr>ms_events := evs\<rparr>))"

definition pop_io :: "'s msg \<Rightarrow> work option \<times> 's msg" where
  "pop_io m =
     (case ms_io m of
        None \<Rightarrow> (None, m)
      | Some io \<Rightarrow>
          let (ev, p) = port_pop (io_port io)
          in (map_option Io ev, m\<lparr>ms_io := Some (io\<lparr>io_port := p\<rparr>)\<rparr>))"

definition pop_work :: "preferences \<times> 's msg \<Rightarrow> work option \<times> preferences \<times> 's msg" where
  "pop_work s =
     (let (pf, m) = s;
          first = (if pf_io pf then pop_io else pop_protocol);
          second = (if pf_io pf then pop_protocol else pop_io);
          (x, m) = (case first m of (None, m) \<Rightarrow> second m | (Some x, m) \<Rightarrow> (Some x, m))
      in (x, case x of
               Some (Protocol _) \<Rightarrow> pf\<lparr>pf_io := True\<rparr>
             | Some (Io _) \<Rightarrow> pf\<lparr>pf_io := False\<rparr>
             | None \<Rightarrow> pf, m))"

text \<open>The part of a turn after the preferred work: \<open>Ok False\<close> leaves the loop.\<close>

definition process_any :: "'s sem_ops \<Rightarrow> preferences \<times> 's msg \<Rightarrow> bool res2 \<times> preferences \<times> 's msg" where
  "process_any S s =
     (case pop_work s of
        (Some x, pf, m) \<Rightarrow>
          let (r, m) = (case x of Protocol ev \<Rightarrow> process_event S ev m | Io ev \<Rightarrow> process_io_event S ev m)
          in and_then (r, pf, m) (\<lambda>_ (pf, m). (Ok True, pf\<lparr>pf_credit := True, pf_admission := True\<rparr>, m))
      | (None, pf, m) \<Rightarrow>
          (case poll_protocol_admission S m of
             (True, m) \<Rightarrow> (Ok True, pf\<lparr>pf_admission := False\<rparr>, m)
           | (False, m) \<Rightarrow> let (r, m) = flush_one_credit S m in (r, pf, m)))"

definition process_turn :: "'s sem_ops \<Rightarrow> preferences \<times> 's msg \<Rightarrow> bool res2 \<times> preferences \<times> 's msg" where
  "process_turn S s =
     (let (pf, m) = s;
          (admitted, m) = (if pf_admission pf then poll_protocol_admission S m else (False, m))
      in if admitted then (Ok True, pf\<lparr>pf_admission := False\<rparr>, m)
         else
           and_then (if pf_credit pf then let (r, m) = flush_one_credit S m in (r, pf, m) else (Ok False, pf, m))
             (\<lambda>flushed (pf, m).
                if flushed then (Ok True, pf\<lparr>pf_credit := False, pf_admission := True\<rparr>, m)
                else process_any S (pf, m)))"

fun process :: "'s sem_ops \<Rightarrow> nat \<Rightarrow> preferences \<times> 's msg \<Rightarrow> nat res2 \<times> preferences \<times> 's msg" where
  "process S 0 s = (Ok 0, s)"
| "process S (Suc budget) s =
     and_then (process_turn S s) (\<lambda>go s.
       if go then and_then (process S budget s) (\<lambda>k s. (Ok (k + 1), s)) else (Ok 0, s))"

definition has_work :: "'s msg \<Rightarrow> bool" where
  "has_work m \<longleftrightarrow>
     ms_events m \<noteq> []
     \<or> (case ms_io m of Some io \<Rightarrow> has_unpolled_admission io \<or> port_has_events (io_port io) | None \<Rightarrow> False)
     \<or> (ms_pending_credit_returns m \<noteq> 0
        \<and> (case ms_pools m of Some p \<Rightarrow> pool_available (mp_control_sends p) \<noteq> 0 | None \<Rightarrow> False))"

definition deadline_expired :: "'s sem_ops \<Rightarrow> 's msg \<Rightarrow> unit res2 \<times> 's msg" where
  "deadline_expired S m =
     (if ms_state m = STATE_CREATED
      then fail S (ProtocolViolation (Literal ''HELLO handshake timeout'')) True m else (Ok (), m))"

definition driver_result :: "'s msg \<Rightarrow> unit res2 option" where
  "driver_result m =
     (if ms_state m = STATE_STOPPED then Some (Ok ())
      else if ms_state m = STATE_FAILED then Some (Err (msg_terminal_error m)) else None)"

record message_driver =
  md_sleep_armed :: bool
  md_runtime_checked :: bool
  md_preferences :: preferences
  md_completed :: bool

definition driver_new :: message_driver where
  "driver_new =
     \<lparr>md_sleep_armed = False, md_runtime_checked = False,
      md_preferences = \<lparr>pf_credit = False, pf_io = False, pf_admission = False\<rparr>, md_completed = False\<rparr>"

text \<open>
  One poll of the driver. \<open>runtime\<close> is what the preflight of the executor reports and \<open>expired\<close>
  whether the armed timer has fired; the last component is whether the task woke itself.
\<close>

definition driver_poll ::
    "'s sem_ops \<Rightarrow> unit res2 \<Rightarrow> bool \<Rightarrow> message_driver \<Rightarrow> 's msg \<Rightarrow>
       unit res2 poll \<times> message_driver \<times> 's msg \<times> bool" where
  "driver_poll S runtime expired d m =
     (case driver_result m of
        Some r \<Rightarrow> (Ready r, d\<lparr>md_completed := True\<rparr>, m, False)
      | None \<Rightarrow>
          if \<not> md_runtime_checked d \<and> runtime \<noteq> Ok () then
            (case runtime of
               Err e \<Rightarrow>
                 (case fail S e True m of
                    (Ok _, m) \<Rightarrow> (Ready (Err e), d\<lparr>md_completed := True\<rparr>, m, False)
                  | (_, m) \<Rightarrow> (Ready Panic, d, m, False))
             | _ \<Rightarrow> (Ready Panic, d, m, False))
          else
            let created = (ms_state m = STATE_CREATED);
                fired = (created \<and> expired);
                d = d\<lparr>md_runtime_checked := True, md_sleep_armed := created \<and> \<not> expired\<rparr>;
                (r0, m) = (if fired then deadline_expired S m else (Ok (), m));
                (r, pf, m) = and_then (r0, md_preferences d, m) (\<lambda>_ s. process S MESSAGE_DRIVER_BUDGET s);
                d = d\<lparr>md_preferences := pf\<rparr>
            in if \<not> is_Ok r then (Ready Panic, d, m, False)
               else
                 (case driver_result m of
                    Some r \<Rightarrow> (Ready r, d\<lparr>md_completed := True\<rparr>, m, False)
                  | None \<Rightarrow> (Pending, d, m, has_work m)))"

definition driver_drop :: "'s sem_ops \<Rightarrow> message_driver \<Rightarrow> 's msg \<Rightarrow> unit res2 \<times> 's msg" where
  "driver_drop S d m = (if md_completed d then (Ok (), m) else fail S DriverShutdown True m)"

subsection \<open>The frontend\<close>

definition poll_ready :: "'s msg \<Rightarrow> unit res2 poll" where
  "poll_ready m =
     (if ms_state m = STATE_READY then Ready (Ok ())
      else if ms_state m = STATE_FAILED then Ready (Err (msg_terminal_error m))
      else if ms_state m = STATE_CLOSING \<or> ms_state m = STATE_STOPPED then Ready (Err TransportClosed)
      else Pending)"

definition wait_terminal :: "'s msg \<Rightarrow> error2 option" where
  "wait_terminal m =
     (if ms_state m = STATE_FAILED then Some (msg_terminal_error m)
      else if ms_state m = STATE_CLOSING \<or> ms_state m = STATE_STOPPED then Some TransportClosed
      else None)"

definition poll_recv_message :: "'s msg \<Rightarrow> (mr \<times> nat) res2 poll \<times> 's msg" where
  "poll_recv_message m =
     (case ms_received m of
        x # xs \<Rightarrow> (Ready (Ok x), m\<lparr>ms_received := xs\<rparr>)
      | [] \<Rightarrow> (case wait_terminal m of Some e \<Rightarrow> (Ready (Err e), m) | None \<Rightarrow> (Pending, m)))"

text \<open>\<open>ReceivedMessage\<close>: its bytes, and its drop while the transport is attached.\<close>

definition message_bytes :: "mr \<times> nat \<Rightarrow> bytes res2" where
  "message_bytes x =
     (if HEADER_SIZE + snd x > length (mr_bytes (fst x)) then Panic
      else Ok (slice (mr_bytes (fst x)) HEADER_SIZE (HEADER_SIZE + snd x)))"

definition drop_message :: "'s sem_ops \<Rightarrow> mr \<times> nat \<Rightarrow> 's msg \<Rightarrow> 's msg" where
  "drop_message S x m = enqueue_event S (EvRepost (fst x)) m"

datatype send_future = WaitReady bytes | WaitCredit bytes | WaitBuffer bytes | WaitCompletion nat | SendDone

text \<open>The last phase: the request's output, or the end of the transport.\<close>

definition cancel_waiter :: "nat \<Rightarrow> 's msg \<Rightarrow> 's msg" where
  "cancel_waiter i m = publish (upd_request i request_cancel m)"

definition poll_waiter :: "nat \<Rightarrow> 's msg \<Rightarrow> unit res2 poll \<times> send_future \<times> 's msg" where
  "poll_waiter i m =
     (case if i < length (ms_requests m) then rq_output (ms_requests m ! i) else None of
        Some r \<Rightarrow> (Ready r, SendDone, upd_request i (\<lambda>q. q\<lparr>rq_output := None\<rparr>) m)
      | None \<Rightarrow>
          (case wait_terminal m of
             Some e \<Rightarrow> (Ready (Err e), SendDone, cancel_waiter i m)
           | None \<Rightarrow> (Pending, WaitCompletion i, m)))"

definition poll_buffer :: "'s sem_ops \<Rightarrow> bytes \<Rightarrow> 's msg \<Rightarrow> unit res2 poll \<times> send_future \<times> 's msg" where
  "poll_buffer S data m =
     (case msg_pools m of
        Ok p \<Rightarrow>
          (case pool_take S (mp_data_sends p) of
             (Ready (Ok mr), d) \<Rightarrow>
               let m = m\<lparr>ms_pools := Some (p\<lparr>mp_data_sends := d\<rparr>)\<rparr> in
               (case write_data_frame (mr_bytes mr) data of
                  Ok (frame_len, bs) \<Rightarrow>
                    let i = length (ms_requests m);
                        m = m\<lparr>ms_requests := ms_requests m @ [request_new (mr\<lparr>mr_bytes := bs\<rparr>) True frame_len]\<rparr>
                    in poll_waiter i (enqueue_event S (EvSendRequest i) m)
                | _ \<Rightarrow> (Ready Panic, SendDone, m))
           | (Ready _, d) \<Rightarrow>
               let m = drop_credit S True (m\<lparr>ms_pools := Some (p\<lparr>mp_data_sends := d\<rparr>)\<rparr>)
               in (Ready (Err (msg_terminal_error m)), SendDone, m)
           | (Pending, d) \<Rightarrow>
               let m = m\<lparr>ms_pools := Some (p\<lparr>mp_data_sends := d\<rparr>)\<rparr> in
               (case wait_terminal m of
                  Some e \<Rightarrow> (Ready (Err e), SendDone, drop_credit S True m)
                | None \<Rightarrow> (Pending, WaitBuffer data, m)))
      | Err e \<Rightarrow> (Ready (Err e), SendDone, drop_credit S True m)
      | Panic \<Rightarrow> (Ready Panic, SendDone, m))"

definition poll_credit :: "'s sem_ops \<Rightarrow> bytes \<Rightarrow> 's msg \<Rightarrow> unit res2 poll \<times> send_future \<times> 's msg" where
  "poll_credit S data m =
     (case sem_try S 1 (ms_remote_credits m) of
        (Acquired, s) \<Rightarrow> poll_buffer S data (m\<lparr>ms_remote_credits := s\<rparr>)
      | (SemClosed, s) \<Rightarrow> (Ready (Err (msg_terminal_error m)), SendDone, m\<lparr>ms_remote_credits := s\<rparr>)
      | (NoPermits, s) \<Rightarrow>
          (case wait_terminal m of
             Some e \<Rightarrow> (Ready (Err e), SendDone, m\<lparr>ms_remote_credits := s\<rparr>)
           | None \<Rightarrow> (Pending, WaitCredit data, m\<lparr>ms_remote_credits := s\<rparr>)))"

fun poll_send_message :: "'s sem_ops \<Rightarrow> send_future \<Rightarrow> 's msg \<Rightarrow> unit res2 poll \<times> send_future \<times> 's msg" where
  "poll_send_message S (WaitReady data) m =
     (if length data > ms_buffer_size m then
        (Ready (Err (MessageTooLarge (length data) (ms_buffer_size m))), SendDone, m)
      else
        case poll_ready m of
          Ready (Ok _) \<Rightarrow> poll_credit S data m
        | Ready r \<Rightarrow> (Ready r, SendDone, m)
        | Pending \<Rightarrow> (Pending, WaitReady data, m))"
| "poll_send_message S (WaitCredit data) m = poll_credit S data m"
| "poll_send_message S (WaitBuffer data) m = poll_buffer S data m"
| "poll_send_message S (WaitCompletion i) m = poll_waiter i m"
| "poll_send_message S SendDone m = (Ready Panic, SendDone, m)"

text \<open>Dropping the future of a send at a suspension point.\<close>

fun drop_send :: "'s sem_ops \<Rightarrow> send_future \<Rightarrow> 's msg \<Rightarrow> 's msg" where
  "drop_send S (WaitBuffer _) m = drop_credit S True m"
| "drop_send S (WaitCompletion i) m = cancel_waiter i m"
| "drop_send S _ m = m"

text \<open>
  \<open>close\<close>: what it does up to the first wait for the engine, and what it returns for the engine's
  answer \<open>result\<close>.
\<close>

definition close_start :: "'s sem_ops \<Rightarrow> 's msg \<Rightarrow> error2 option res2 \<times> 's msg" where
  "close_start S m =
     and_then (begin_close S m) (\<lambda>_ m.
       let preexisting = (if \<not> ms_local_close_started m \<and> ms_state m = STATE_FAILED
                          then Some (msg_terminal_error m) else None)
       in case msg_io m of
            Ok io \<Rightarrow> (Ok preexisting, m\<lparr>ms_io := Some (io_request_close io)\<rparr>)
          | Err e \<Rightarrow> (Err e, m)
          | Panic \<Rightarrow> (Panic, m))"

definition close_finish :: "'s sem_ops \<Rightarrow> error2 option \<Rightarrow> unit res2 \<Rightarrow> 's msg \<Rightarrow> unit res2 \<times> 's msg" where
  "close_finish S preexisting res m =
     and_then (finish_close S res m) (\<lambda>_ m.
       (case res of
          Err e \<Rightarrow> Err e
        | Panic \<Rightarrow> Panic
        | Ok _ \<Rightarrow>
            (case preexisting of
               Some e \<Rightarrow> Err e
             | None \<Rightarrow>
                 (case ms_error m of
                    None \<Rightarrow> Ok ()
                  | Some e \<Rightarrow> if e = TransportClosed then Ok () else Err e)), m))"

definition transport_drop :: "'s sem_ops \<Rightarrow> 's msg \<Rightarrow> 's msg" where
  "transport_drop S m = snd (begin_close S m)"

end
