(* ===== verification/MessageInv.thy ===== *)
theory MessageInv
  imports Message "HOL-Library.Sublist"
begin

section \<open>The message transport: credits and lifecycle\<close>

text \<open>
  What every handler of the message transport does to the credits and to the lifecycle. Credits
  are never created or destroyed: a permit is available, held by a send that has not been
  posted, or in flight. The state only moves forward, a terminal state and the first error
  stay, and closing empties the event queue and closes the buffer pools. Both are shown of each
  handler once, as the relation \<open>evolves\<close>, and then of every sequence of driver turns, frontend
  calls and engine steps.
\<close>

subsection \<open>Semaphore facts\<close>

lemma sem_law_try:
  assumes "sem_law S" "sem_try S n s = (a, s')"
  shows "sem_permits S s = sem_permits S s' + (if a = Acquired then n else 0)"
    "sem_is_closed S s' = sem_is_closed S s" "a = SemClosed \<longleftrightarrow> sem_is_closed S s"
  using assms unfolding sem_law_def by (cases "a = Acquired"; simp; metis)+

lemma sem_law_add:
  assumes "sem_law S"
  shows "sem_permits S s + n \<le> MAX_PERMITS S \<Longrightarrow> fst (sem_add S n s) = Ok ()"
    "sem_permits S s + n \<le> MAX_PERMITS S \<Longrightarrow> sem_permits S (snd (sem_add S n s)) = sem_permits S s + n"
    "sem_is_closed S (snd (sem_add S n s)) = sem_is_closed S s"
  using assms unfolding sem_law_def by blast+

lemma sem_law_close:
  assumes "sem_law S"
  shows "sem_permits S (sem_close S s) = sem_permits S s" "sem_is_closed S (sem_close S s)"
  using assms unfolding sem_law_def by blast+

lemma sem_law_new: "sem_law S \<Longrightarrow> n \<le> MAX_PERMITS S \<Longrightarrow> sem_permits S (sem_new S n) = n"
  unfolding sem_law_def by (drule conjunct1) simp

subsection \<open>The relation\<close>

definition credit_sum :: "'s sem_ops \<Rightarrow> 's msg \<Rightarrow> nat" where
  "credit_sum S m =
     sem_permits S (ms_remote_credits m) + length (filter rq_credit (ms_requests m)) + ms_credits_in_flight m"

fun is_hello :: "transition \<Rightarrow> bool" where
  "is_hello (TrHelloReceiveRepost _) = True"
| "is_hello _ = False"

definition hellos :: "'s msg \<Rightarrow> transition list" where
  "hellos m = filter is_hello (ms_transitions m)"

text \<open>The account of the credits is unchanged; a pending \<^verbatim>\<open>HELLO\<close> may have been discarded.\<close>

definition same_account :: "'s sem_ops \<Rightarrow> 's msg \<Rightarrow> 's msg \<Rightarrow> bool" where
  "same_account S m m' \<longleftrightarrow>
     (credit_sum S m \<le> MAX_PERMITS S \<longrightarrow> credit_sum S m' = credit_sum S m)
     \<and> ms_peer_recv_capacity m' = ms_peer_recv_capacity m
     \<and> ms_hello_receive_complete m' = ms_hello_receive_complete m
     \<and> suffix (hellos m') (hellos m)"

text \<open>Local work is gone and no send can start: what holds from the start of closing on.\<close>

definition quiesced :: "'s msg \<Rightarrow> bool" where
  "quiesced m \<longleftrightarrow> ms_events m = []
     \<and> (\<forall>p. ms_pools m = Some p \<longrightarrow> pl_closed (mp_data_sends p) \<and> pl_closed (mp_control_sends p))"

definition tidy :: "'s msg \<Rightarrow> bool" where
  "tidy m \<longleftrightarrow>
     (ms_state m \<ge> STATE_CLOSING \<longrightarrow> quiesced m)
     \<and> (ms_state m = STATE_READY \<longrightarrow> ms_hello_send_complete m \<and> ms_hello_receive_complete m)
     \<and> (ms_state m = STATE_FAILED \<longrightarrow> ms_error m \<noteq> None) \<and> ms_state m \<le> STATE_FAILED \<and> ms_state m \<noteq> 1"

text \<open>The lifecycle moves forward.\<close>

definition forward :: "'s msg \<Rightarrow> 's msg \<Rightarrow> bool" where
  "forward m m' \<longleftrightarrow>
     (ms_state m \<le> STATE_FAILED \<longrightarrow> ms_state m \<le> ms_state m' \<and> ms_state m' \<le> STATE_FAILED)
     \<and> (is_terminal (ms_state m) \<longrightarrow> ms_state m' = ms_state m)
     \<and> (ms_error m \<noteq> None \<longrightarrow> ms_error m' = ms_error m)
     \<and> (ms_hello_send_complete m \<longrightarrow> ms_hello_send_complete m')
     \<and> (ms_hello_receive_complete m \<longrightarrow> ms_hello_receive_complete m')
     \<and> length (ms_requests m) \<le> length (ms_requests m')"

definition advances :: "'s msg \<Rightarrow> 's msg \<Rightarrow> bool" where
  "advances m m' \<longleftrightarrow> forward m m' \<and> (tidy m \<longrightarrow> tidy m')"

definition evolves :: "'s sem_ops \<Rightarrow> 's msg \<Rightarrow> 's msg \<Rightarrow> bool" where
  "evolves S m m' \<longleftrightarrow> same_account S m m' \<and> advances m m'"

lemmas state_defs = STATE_CREATED_def STATE_READY_def STATE_CLOSING_def STATE_STOPPED_def STATE_FAILED_def

lemma same_account_trans: "same_account S m1 m2 \<Longrightarrow> same_account S m2 m3 \<Longrightarrow> same_account S m1 m3"
  unfolding same_account_def by (auto intro: suffix_order.trans)

lemma forward_trans: "forward m1 m2 \<Longrightarrow> forward m2 m3 \<Longrightarrow> forward m1 m3"
  unfolding forward_def by auto

lemma advances_trans: "advances m1 m2 \<Longrightarrow> advances m2 m3 \<Longrightarrow> advances m1 m3"
  unfolding advances_def using forward_trans by blast

lemma evolves_trans: "evolves S m1 m2 \<Longrightarrow> evolves S m2 m3 \<Longrightarrow> evolves S m1 m3"
  unfolding evolves_def using same_account_trans advances_trans by blast

lemma evolves_refl [simp]: "evolves S m m"
  by (simp add: evolves_def same_account_def advances_def forward_def)

text \<open>Moving credits between the three places, and changing other fields.\<close>

lemma evolves_credits:
  assumes "credit_sum S m \<le> MAX_PERMITS S \<Longrightarrow> credit_sum S m' = credit_sum S m"
    "length (ms_requests m') = length (ms_requests m)"
    "ms_peer_recv_capacity m' = ms_peer_recv_capacity m"
    "ms_hello_receive_complete m' = ms_hello_receive_complete m" "ms_transitions m' = ms_transitions m"
    "ms_state m' = ms_state m" "ms_error m' = ms_error m" "ms_events m' = ms_events m"
    "ms_hello_send_complete m' = ms_hello_send_complete m" "ms_pools m' = ms_pools m"
  shows "evolves S m m'"
  using assms
  by (simp add: evolves_def same_account_def hellos_def advances_def forward_def tidy_def quiesced_def)

lemma evolves_frame:
  assumes "ms_remote_credits m' = ms_remote_credits m" "ms_requests m' = ms_requests m"
    "ms_credits_in_flight m' = ms_credits_in_flight m" "ms_peer_recv_capacity m' = ms_peer_recv_capacity m"
    "ms_hello_receive_complete m' = ms_hello_receive_complete m" "ms_transitions m' = ms_transitions m"
    "ms_state m' = ms_state m" "ms_error m' = ms_error m" "ms_events m' = ms_events m"
    "ms_hello_send_complete m' = ms_hello_send_complete m" "ms_pools m' = ms_pools m"
  shows "evolves S m m'"
  using assms by (intro evolves_credits) (simp_all add: credit_sum_def)

lemma evolves_frames [simp]:
  "evolves S m (publish m)" "evolves S m (notify_all m)" "evolves S m (request_io_close m)"
  "evolves S m (m\<lparr>ms_io := io\<rparr>)"
  "evolves S m (m\<lparr>ms_pending_credit_returns := n\<rparr>)" "evolves S m (m\<lparr>ms_hello_send_posted := b\<rparr>)"
  "evolves S m (m\<lparr>ms_received := rs\<rparr>)" "evolves S m (m\<lparr>ms_received := rs, ms_recv_notifies := n\<rparr>)"
  by (rule evolves_frame; simp add: publish_def notify_all_def request_io_close_def)+

lemma evolves_hello_send: "evolves S m (m\<lparr>ms_hello_send_complete := True\<rparr>)"
  by (simp add: evolves_def same_account_def credit_sum_def hellos_def advances_def forward_def tidy_def quiesced_def)

lemma evolves_pop: "evolves S m (m\<lparr>ms_transitions := tl (ms_transitions m)\<rparr>)"
proof -
  have "suffix (filter is_hello (tl ts)) (filter is_hello ts)" for ts
    by (cases ts) (auto simp: suffix_ConsI)
  then show ?thesis
    by (simp add: evolves_def same_account_def credit_sum_def hellos_def advances_def forward_def tidy_def quiesced_def)
qed

lemma evolves_push: "\<not> is_hello tr \<Longrightarrow> evolves S m (m\<lparr>ms_transitions := ms_transitions m @ [tr]\<rparr>)"
  by (simp add: evolves_def same_account_def credit_sum_def hellos_def advances_def forward_def tidy_def quiesced_def)

lemma evolves_pools:
  assumes "ms_pools m = Some p"
    "pl_closed (mp_data_sends p) \<Longrightarrow> pl_closed (mp_data_sends p')"
    "pl_closed (mp_control_sends p) \<Longrightarrow> pl_closed (mp_control_sends p')"
  shows "evolves S m (m\<lparr>ms_pools := Some p'\<rparr>)"
  using assms
  by (simp add: evolves_def same_account_def credit_sum_def hellos_def advances_def forward_def tidy_def quiesced_def)

lemma pool_closed [simp]:
  "pl_closed (snd (pool_take S p)) = pl_closed p" "pl_closed (snd (pool_try_take S p)) = pl_closed p"
  "pl_closed (snd (pool_put S mr p)) = pl_closed p" "pl_closed (pool_close S p)"
  by (auto simp: pool_take_def pool_try_take_def pool_put_def pool_close_def split: prod.splits sem_outcome.splits)

lemma evolves_put [simp]: "evolves S m (snd (put_data S mr m))" "evolves S m (snd (put_control S mr m))"
  unfolding put_data_def put_control_def
  by (auto split: option.splits prod.splits intro!: evolves_pools) (metis pool_closed(3) snd_conv)+

lemma evolves_close_pools [simp]: "evolves S m (close_pools S m)"
  by (auto simp: evolves_def same_account_def credit_sum_def hellos_def advances_def forward_def tidy_def quiesced_def
      close_pools_def)

text \<open>Sequencing of handlers.\<close>

lemma evolves_and_then:
  assumes "evolves S m (snd r)" "\<And>x m'. r = (Ok x, m') \<Longrightarrow> evolves S m' (snd (f x m'))"
  shows "evolves S m (snd (and_then r f))"
  using assms
proof (cases r)
  case (Pair a b)
  with assms show ?thesis by (cases a) (auto intro: evolves_trans)
qed

text \<open>Requests.\<close>

lemma count_update:
  assumes "i < length xs"
  shows "length (filter P (xs[i := y])) + (if P (xs ! i) then 1 else 0) =
    length (filter P xs) + (if P y then 1 else 0)"
  using assms
proof (induction xs arbitrary: i)
  case (Cons x xs)
  then show ?case by (cases i) auto
qed simp

lemma upd_request_fields [simp]:
  "ms_remote_credits (upd_request i f m) = ms_remote_credits m"
  "ms_credits_in_flight (upd_request i f m) = ms_credits_in_flight m"
  "ms_peer_recv_capacity (upd_request i f m) = ms_peer_recv_capacity m"
  "ms_hello_receive_complete (upd_request i f m) = ms_hello_receive_complete m"
  "ms_hello_send_complete (upd_request i f m) = ms_hello_send_complete m"
  "ms_transitions (upd_request i f m) = ms_transitions m" "ms_state (upd_request i f m) = ms_state m"
  "ms_error (upd_request i f m) = ms_error m" "ms_events (upd_request i f m) = ms_events m"
  "ms_io (upd_request i f m) = ms_io m" "ms_pools (upd_request i f m) = ms_pools m"
  "length (ms_requests (upd_request i f m)) = length (ms_requests m)"
  by (simp_all add: upd_request_def)

lemma credits_kept:
  assumes "\<And>r. rq_credit (f r) = rq_credit r"
  shows "length (filter rq_credit (ms_requests (upd_request i f m))) = length (filter rq_credit (ms_requests m))"
  using count_update [of i "ms_requests m" rq_credit "f (ms_requests m ! i)"] assms
  by (simp add: upd_request_def)

lemma evolves_request: "(\<And>r. rq_credit (f r) = rq_credit r) \<Longrightarrow> evolves S m (upd_request i f m)"
  by (rule evolves_credits) (simp_all add: credit_sum_def credits_kept)

lemma evolves_complete [simp]: "evolves S m (complete_request i res m)"
  unfolding complete_request_def by (rule evolves_request) (simp add: request_complete_def)

lemma evolves_cancel [simp]: "evolves S m (cancel_waiter i m)"
  unfolding cancel_waiter_def
  by (rule evolves_trans [OF evolves_request [of request_cancel _ _ i]]) (simp_all add: request_cancel_def)

lemma add_credits_fields [simp]:
  "ms_requests (snd (add_credits S n m)) = ms_requests m"
  "ms_credits_in_flight (snd (add_credits S n m)) = ms_credits_in_flight m"
  "ms_peer_recv_capacity (snd (add_credits S n m)) = ms_peer_recv_capacity m"
  "ms_hello_receive_complete (snd (add_credits S n m)) = ms_hello_receive_complete m"
  "ms_hello_send_complete (snd (add_credits S n m)) = ms_hello_send_complete m"
  "ms_transitions (snd (add_credits S n m)) = ms_transitions m" "ms_state (snd (add_credits S n m)) = ms_state m"
  "ms_error (snd (add_credits S n m)) = ms_error m" "ms_events (snd (add_credits S n m)) = ms_events m"
  "ms_io (snd (add_credits S n m)) = ms_io m" "ms_pools (snd (add_credits S n m)) = ms_pools m"
  "ms_buffer_size (snd (add_credits S n m)) = ms_buffer_size m"
  "ms_remote_credits (snd (add_credits S n m)) = snd (sem_add S n (ms_remote_credits m))"
  by (simp_all add: add_credits_def split: prod.splits)

lemma drop_credit_fields [simp]:
  "ms_requests (drop_credit S b m) = ms_requests m"
  "ms_credits_in_flight (drop_credit S b m) = ms_credits_in_flight m"
  "ms_peer_recv_capacity (drop_credit S b m) = ms_peer_recv_capacity m"
  "ms_hello_receive_complete (drop_credit S b m) = ms_hello_receive_complete m"
  "ms_hello_send_complete (drop_credit S b m) = ms_hello_send_complete m"
  "ms_transitions (drop_credit S b m) = ms_transitions m" "ms_state (drop_credit S b m) = ms_state m"
  "ms_error (drop_credit S b m) = ms_error m" "ms_events (drop_credit S b m) = ms_events m"
  "ms_io (drop_credit S b m) = ms_io m" "ms_pools (drop_credit S b m) = ms_pools m"
  "ms_remote_credits (drop_credit S b m) =
     (if b then snd (sem_add S 1 (ms_remote_credits m)) else ms_remote_credits m)"
  by (simp_all add: drop_credit_def)

text \<open>A request that is started gives up its credit: it is dropped or committed.\<close>

lemma start_cases:
  assumes "start_request i m = (a, m1)"
  obtains (handled) "a = AlreadyHandled" "m1 = m"
  | (taken) mr c n where "a = ActPost mr c n \<or> a = ActCancelled mr c"
      "length (filter rq_credit (ms_requests m)) = length (filter rq_credit (ms_requests m1)) + of_bool c"
      "m1 = upd_request i (\<lambda>_. (ms_requests m ! i)\<lparr>rq_mr := None, rq_credit := False\<rparr>) m" "i < length (ms_requests m)"
proof (cases "i < length (ms_requests m)")
  case False
  then show ?thesis using assms handled by (simp add: start_request_def)
next
  case True
  let ?r = "ms_requests m ! i"
  show ?thesis
  proof (cases "rq_mr ?r")
    case None
    have "(ms_requests m)[i := ?r] = ms_requests m" by simp
    then have "upd_request i (\<lambda>_. ?r) m = m" by (simp add: upd_request_def)
    with None True assms handled show ?thesis by (simp add: start_request_def request_start_def)
  next
    case (Some x)
    let ?r' = "?r\<lparr>rq_mr := None, rq_credit := False\<rparr>"
    have m1: "m1 = upd_request i (\<lambda>_. ?r') m"
      "a = (if rq_cancelled ?r then ActCancelled x (rq_credit ?r) else ActPost x (rq_credit ?r) (rq_frame_len ?r))"
      using assms Some True by (auto simp: start_request_def request_start_def Let_def split: if_splits)
    have "length (filter rq_credit (ms_requests m)) = length (filter rq_credit (ms_requests m1)) + of_bool (rq_credit ?r)"
      using count_update [of i "ms_requests m" rq_credit ?r'] True m1(1) by (auto simp: upd_request_def split: if_splits)
    with m1 True taken [of x "rq_credit ?r" "rq_frame_len ?r"] show ?thesis by presburger
  qed
qed

lemma evolves_start_drop:
  assumes "sem_law S" "start_request i m = (a, m1)"
  shows "a = ActPost mr c n \<Longrightarrow> evolves S m (drop_credit S c m1)"
    "a = ActCancelled mr c \<Longrightarrow> evolves S m (drop_credit S c m1)"
    "a = AlreadyHandled \<Longrightarrow> evolves S m m1"
proof -
  have *: "evolves S m (drop_credit S c m1)" if "a = ActPost mr c n \<or> a = ActCancelled mr c"
    using assms(2)
  proof (cases rule: start_cases)
    case (taken mr' c' n')
    then have c: "c' = c" using that by auto
    show ?thesis
      using taken(2-4) sem_law_add(2) [OF assms(1), of "ms_remote_credits m" 1]
      by (intro evolves_credits) (auto simp: credit_sum_def c)
  qed (use that in auto)
  show "a = ActPost mr c n \<Longrightarrow> evolves S m (drop_credit S c m1)"
    "a = ActCancelled mr c \<Longrightarrow> evolves S m (drop_credit S c m1)" using * by auto
  show "a = AlreadyHandled \<Longrightarrow> evolves S m m1" using assms(2) by (cases rule: start_cases) auto
qed

lemma evolves_start_commit:
  assumes "start_request i m = (ActPost mr c n, m1)"
  shows "evolves S m (if c then upd_request i (\<lambda>r. r\<lparr>rq_credit_committed := True\<rparr>)
                 (m1\<lparr>ms_credits_in_flight := ms_credits_in_flight m1 + 1\<rparr>) else m1)"
  using assms
proof (cases rule: start_cases)
  case (taken mr' c' n')
  then show ?thesis by (intro evolves_credits) (auto simp: credit_sum_def credits_kept)
qed simp

lemma evolves_rollback:
  assumes "sem_law S"
  shows "evolves S m (snd (rollback_unaccepted_send S i m))"
proof (cases "i < length (ms_requests m) \<and> rq_credit_committed (ms_requests m ! i) \<and> ms_credits_in_flight m \<noteq> 0")
  case True
  let ?m = "upd_request i (\<lambda>r. r\<lparr>rq_credit_committed := False\<rparr>) m"
  have "evolves S ?m (snd (add_credits S 1 (?m\<lparr>ms_credits_in_flight := ms_credits_in_flight ?m - 1\<rparr>)))"
    using True sem_law_add(2) [OF assms, of "ms_remote_credits m" 1]
    by (intro evolves_credits) (auto simp: credit_sum_def)
  then have "evolves S m (snd (add_credits S 1 (?m\<lparr>ms_credits_in_flight := ms_credits_in_flight ?m - 1\<rparr>)))"
    by (rule evolves_trans [OF evolves_request, rotated]) simp
  with True show ?thesis by (simp add: rollback_unaccepted_send_def Let_def)
next
  case False
  then show ?thesis by (auto simp: rollback_unaccepted_send_def Let_def intro: evolves_request)
qed

lemma evolves_validate:
  assumes "sem_law S"
  shows "evolves S m (snd (validate_and_add_credits S n m))"
proof -
  have *: "evolves S m (snd (add_credits S (unat n) (m\<lparr>ms_credits_in_flight := ms_credits_in_flight m - unat n\<rparr>)))"
    if "\<not> ms_credits_in_flight m < unat n"
    using that sem_law_add(2) [OF assms, of "ms_remote_credits m" "unat n"]
    by (intro evolves_credits) (simp_all add: credit_sum_def)
  show ?thesis
    unfolding validate_and_add_credits_def
    by (cases "check_credit_return (unat n) (ms_credits_in_flight m) (sem_permits S (ms_remote_credits m))
             (ms_peer_recv_capacity m)") (use * in \<open>simp_all\<close>)
qed

subsection \<open>Discarding work\<close>

lemma evolves_dispose_terminal:
  assumes "sem_law S"
  shows "evolves S m (dispose_terminal_event S ev m)" "ms_events (dispose_terminal_event S ev m) = ms_events m"
proof -
  show "evolves S m (dispose_terminal_event S ev m)"
  proof (cases ev)
    case (EvSendRequest i)
    obtain a m1 where st: "start_request i m = (a, m1)" by fastforce
    note * = evolves_start_drop [OF assms st]
    show ?thesis
      using * (1) * (2) * (3) evolves_trans [OF _ evolves_complete] st EvSendRequest
      by (cases a) (auto simp: Let_def)
  qed simp_all
  have st: "ms_events m1 = ms_events m" if "start_request i m = (a, m1)" for i a m1
    using that by (cases rule: start_cases) auto
  show "ms_events (dispose_terminal_event S ev m) = ms_events m"
    by (cases ev) (auto split: prod.splits send_action.splits simp: Let_def complete_request_def dest: st)
qed

lemma dispose_terminal_state: "ms_state (dispose_terminal_event S ev m) = ms_state m"
proof -
  have st: "ms_state m1 = ms_state m" if "start_request i m = (a, m1)" for i a m1
    using that by (cases rule: start_cases) auto
  show ?thesis
    by (cases ev) (auto split: prod.splits send_action.splits simp: Let_def complete_request_def dest: st)
qed

lemma evolves_drain_local:
  assumes "sem_law S"
  shows "evolves S (m\<lparr>ms_events := []\<rparr>) (drain_local_events S m)" "ms_events (drain_local_events S m) = []"
proof -
  have "evolves S m (fold (dispose_terminal_event S) evs m)
      \<and> ms_events (fold (dispose_terminal_event S) evs m) = ms_events m" for evs :: "msg_event list" and m :: "'a msg"
  proof (induction evs arbitrary: m)
    case (Cons e evs)
    then show ?case using evolves_dispose_terminal [OF assms, where ev = e and m = m]
      by (auto intro: evolves_trans)
  qed simp
  then show "evolves S (m\<lparr>ms_events := []\<rparr>) (drain_local_events S m)" "ms_events (drain_local_events S m) = []"
    by (simp_all add: drain_local_events_def)
qed

lemma evolves_for_each:
  assumes "\<And>x m. evolves S m (snd (f x m))"
  shows "evolves S m (snd (for_each f xs m))"
proof (induction xs arbitrary: m)
  case (Cons x xs)
  then show ?case using assms by (auto intro: evolves_and_then)
qed simp

lemma evolves_dispose_io:
  assumes "sem_law S"
  shows "evolves S m (snd (dispose_io_event S ev m))"
proof (cases ev)
  case (Completed c)
  have "evolves S m (snd (and_then (if ic_unaccepted c then rollback_unaccepted_send S i m else (Ok (), m))
                 (\<lambda>_ m. (Ok (), complete_request i (Err (msg_terminal_error m)) m))))" for i
    by (rule evolves_and_then) (simp_all add: evolves_rollback [OF assms])
  then show ?thesis
    by (simp add: dispose_io_event_def Completed split: op_context.split msg_context.split)
qed (simp_all add: dispose_io_event_def evolves_pop)

text \<open>Closing: the pools are closed and the local events drained before anything else is seen.\<close>

lemma evolves_shut:
  assumes "sem_law S" "same_account S m m1" "forward m m1"
    "tidy m \<Longrightarrow> tidy ((close_pools S m1)\<lparr>ms_events := []\<rparr>)"
  shows "evolves S m (drain_local_events S (close_pools S m1))"
proof -
  let ?c = "(close_pools S m1)\<lparr>ms_events := []\<rparr>"
  have "same_account S m1 ?c" "forward m1 ?c"
    by (simp_all add: same_account_def forward_def credit_sum_def hellos_def close_pools_def)
  moreover have "evolves S ?c (drain_local_events S (close_pools S m1))" by (rule evolves_drain_local [OF assms(1)])
  ultimately show ?thesis
    using assms(2-4) same_account_trans forward_trans unfolding evolves_def advances_def by blast
qed

lemma evolves_drain_and_close:
  assumes "sem_law S" "same_account S m m1" "forward m m1"
    "tidy m \<Longrightarrow> tidy ((close_pools S m1)\<lparr>ms_events := []\<rparr>)"
  shows "evolves S m (snd (drain_and_close S (close_pools S m1)))"
proof -
  let ?d = "drain_local_events S (close_pools S m1)"
  have "evolves S ?d (snd (drain_and_close S (close_pools S m1)))"
  proof (cases "ms_io ?d")
    case (Some io)
    have "evolves S ?d (snd (for_each (dispose_io_event S) evs (?d\<lparr>ms_io := i\<rparr>)))" for evs i
      by (rule evolves_trans [OF _ evolves_for_each]) (simp_all add: evolves_dispose_io [OF assms(1)])
    with Some show ?thesis by (simp add: drain_and_close_def Let_def split: prod.splits)
  qed (simp add: drain_and_close_def)
  with evolves_shut [OF assms] show ?thesis by (rule evolves_trans)
qed

lemma evolves_enter_failed:
  assumes "sem_law S"
  shows "evolves S m (snd (enter_failed S e m))"
proof (cases "is_terminal (ms_state m)")
  case False
  let ?m1 = "m\<lparr>ms_state := STATE_FAILED, ms_error := (case ms_error m of None \<Rightarrow> Some e | Some e' \<Rightarrow> Some e'),
                    ms_remote_credits := sem_close S (ms_remote_credits m), ms_pending_credit_returns := 0\<rparr>"
  have "same_account S m ?m1"
    by (simp add: same_account_def credit_sum_def hellos_def sem_law_close [OF assms])
  moreover have "forward m ?m1"
    using False by (auto simp: forward_def state_defs is_terminal_def split: option.splits)
  moreover have "tidy ((close_pools S ?m1)\<lparr>ms_events := []\<rparr>)"
    by (auto simp: tidy_def quiesced_def state_defs close_pools_def sem_law_close [OF assms] split: option.splits)
  ultimately have "evolves S m (snd (drain_and_close S (close_pools S ?m1)))"
    by (rule evolves_drain_and_close [OF assms])
  then have "evolves S m (snd (and_then (drain_and_close S (close_pools S ?m1)) (\<lambda>_ m. (Ok True, publish (notify_all m)))))"
    by (rule evolves_and_then) (simp add: evolves_trans [OF evolves_frames(2) evolves_frames(1)])
  with False show ?thesis by (simp add: enter_failed_def transition_terminal_def Let_def)
qed (simp add: enter_failed_def transition_terminal_def)

lemma evolves_fail: "sem_law S \<Longrightarrow> evolves S m (snd (fail S e b m))"
  unfolding fail_def by (rule evolves_and_then) (auto simp: evolves_enter_failed)

lemma evolves_finish_close:
  assumes "sem_law S"
  shows "evolves S m (snd (finish_close S res m))"
proof -
  have "evolves S m (snd (let (newly, m) = transition_terminal STATE_STOPPED m
          in and_then (drain_and_close S (close_pools S m)) (\<lambda>_ m.
               (Ok (), let m = notify_all m in if newly then publish m else m))))"
  proof -
    obtain nw m1 where t: "transition_terminal STATE_STOPPED m = (nw, m1)" by fastforce
    then have m1: "m1 = (if is_terminal (ms_state m) then m else m\<lparr>ms_state := STATE_STOPPED\<rparr>)"
      by (auto simp: transition_terminal_def split: if_splits)
    have "same_account S m m1" by (simp add: m1 same_account_def credit_sum_def hellos_def)
    moreover have "forward m m1" by (auto simp: m1 forward_def state_defs is_terminal_def)
    moreover have "tidy ((close_pools S m1)\<lparr>ms_events := []\<rparr>)" if "tidy m"
      using that by (auto simp: m1 tidy_def quiesced_def state_defs close_pools_def is_terminal_def)
    ultimately have "evolves S m (snd (drain_and_close S (close_pools S m1)))"
      by (rule evolves_drain_and_close [OF assms])
    then have "evolves S m (snd (and_then (drain_and_close S (close_pools S m1)) (\<lambda>_ m.
               (Ok (), let m = notify_all m in if nw then publish m else m))))"
      by (rule evolves_and_then) (simp add: evolves_trans [OF evolves_frames(2) evolves_frames(1)] Let_def)
    with t show ?thesis by simp
  qed
  then show ?thesis by (auto simp: finish_close_def evolves_fail [OF assms] split: outcome.split)
qed

subsection \<open>Submission receipts and posting\<close>

lemma evolves_ready: "evolves S m (try_mark_ready m)"
  by (auto simp: try_mark_ready_def evolves_def same_account_def credit_sum_def hellos_def advances_def forward_def
      tidy_def quiesced_def state_defs is_terminal_def)

lemma evolves_ambiguous: "sem_law S \<Longrightarrow> evolves S m (snd (fail_if_ambiguous S d m))"
  by (simp add: fail_if_ambiguous_def evolves_fail split: option.split)

lemma evolves_apply:
  assumes "sem_law S" "\<not> is_hello tr"
  shows "evolves S m (snd (apply_protocol_disposition S tr d m))"
  using assms by (cases tr) (simp_all add: apply_protocol_disposition_def evolves_ambiguous)

lemma evolves_track:
  assumes "sem_law S" "\<not> is_hello tr"
  shows "evolves S m (snd (track_protocol_disposition S tr d m))"
  using assms by (cases d) (simp_all add: track_protocol_disposition_def evolves_apply evolves_push)

lemma evolves_post_recv:
  assumes "sem_law S" "\<not> is_hello tr"
  shows "evolves S m (snd (post_recv_tracked S mr tr io m))"
proof -
  have "evolves S m (snd (track_protocol_disposition S tr d (m\<lparr>ms_io := Some io'\<rparr>)))" for d io'
    by (rule evolves_trans [OF _ evolves_track [OF assms]]) simp
  then show ?thesis by (simp add: post_recv_tracked_def split: prod.split)
qed

lemma evolves_post_send:
  assumes "sem_law S" "\<not> is_hello tr"
  shows "evolves S m (snd (post_send_tracked S mr len ctx c tr io m))"
proof -
  have "evolves S m (snd (track_protocol_disposition S tr d (m\<lparr>ms_io := Some io'\<rparr>)))" for d io'
    by (rule evolves_trans [OF _ evolves_track [OF assms]]) simp
  then show ?thesis by (simp add: post_send_tracked_def split: prod.split)
qed

lemma evolves_post_receive: "sem_law S \<Longrightarrow> evolves S m (snd (post_receive S mr b m))"
  by (simp add: post_receive_def evolves_post_recv evolves_fail split: outcome.split)

lemma evolves_repost: "sem_law S \<Longrightarrow> evolves S m (snd (process_repost S mr m))"
  by (simp add: process_repost_def evolves_post_receive)

lemma evolves_hello_start:
  assumes "sem_law S"
  shows "evolves S m (snd (start_hello_send S m))"
proof -
  let ?m = "m\<lparr>ms_hello_send_posted := True\<rparr>"
  have f: "evolves S m (snd (fail S e b ?m))" for e b
    by (rule evolves_trans [OF evolves_frames(6) evolves_fail [OF assms]])
  have p: "evolves S m (?m\<lparr>ms_pools := Some (p\<lparr>mp_hello_send := None\<rparr>)\<rparr>)" if "msg_pools ?m = Ok p" for p
    using that by (intro evolves_trans [OF evolves_frames(6) evolves_pools])
      (auto simp: msg_pools_def split: option.splits)
  have s: "evolves S m (snd (post_send_tracked S mr n HelloSendCtx None TrHelloSend io
      (?m\<lparr>ms_pools := Some (p\<lparr>mp_hello_send := None\<rparr>)\<rparr>)))" if "msg_pools ?m = Ok p" for p mr n io
    by (rule evolves_trans [OF p [OF that] evolves_post_send [OF assms]]) simp
  show ?thesis
    unfolding start_hello_send_def Let_def
    by (auto simp: f split: outcome.split option.split intro: s p)
qed

subsection \<open>Receiving and sending\<close>

lemma evolves_process_frame:
  assumes "sem_law S"
  shows "evolves S m (snd (process_frame S h mr m))"
proof -
  have c: "evolves S m (snd (case validate_and_add_credits S n m of
                 (Err e, m) \<Rightarrow> fail S e True m
               | (Panic, m) \<Rightarrow> (Panic, m)
               | (Ok _, m) \<Rightarrow> post_receive S mr False m))" for n
    using evolves_validate [OF assms, of m n]
    by (auto split: prod.split outcome.split intro: evolves_trans evolves_fail [OF assms] evolves_post_receive [OF assms])
  show ?thesis
    by (simp add: process_frame_def Let_def evolves_fail [OF assms] c split: outcome.split)
qed

lemma evolves_post_request:
  assumes "sem_law S" "start_request i m = (ActPost mr c n, m1)"
  shows "evolves S m (snd (post_request S i mr c n m1))"
proof -
  let ?m = "if c then upd_request i (\<lambda>r. r\<lparr>rq_credit_committed := True\<rparr>)
                 (m1\<lparr>ms_credits_in_flight := ms_credits_in_flight m1 + 1\<rparr>) else m1"
  have e: "evolves S ?m (snd (and_then (rollback_unaccepted_send S i ?m) (\<lambda>_ m.
             and_then (put_data S mr m) (\<lambda>_ m. (Ok (), complete_request i (Err e) m)))))" for e
    by (intro evolves_and_then evolves_rollback [OF assms(1)] evolves_put) simp
  have "evolves S ?m (snd (post_request S i mr c n m1))"
    unfolding post_request_def Let_def
    using e by (auto split: outcome.split simp: evolves_post_send [OF assms(1)])
  with evolves_start_commit [OF assms(2)] show ?thesis by (rule evolves_trans)
qed

lemma evolves_send_request:
  assumes "sem_law S"
  shows "evolves S m (snd (process_send_request S i m))"
proof -
  obtain a m1 where st: "start_request i m = (a, m1)" by fastforce
  note sd = evolves_start_drop [OF assms st]
  have d: "evolves S m (snd (put_data S mr (drop_credit S c m1)))" if "evolves S m (drop_credit S c m1)" for mr c
    by (rule evolves_trans [OF that]) simp
  have r: "evolves S m (snd (and_then (put_data S mr (drop_credit S c m1)) (\<lambda>_ m.
              (Ok (), complete_request i (Err (msg_terminal_error m)) m))))"
    if "evolves S m (drop_credit S c m1)" for mr c
    by (rule evolves_and_then [OF d [OF that]]) simp
  show ?thesis
    using sd d r
    by (cases a) (simp_all add: process_send_request_def st evolves_post_request [OF assms])
qed

lemma evolves_send_completion:
  assumes "sem_law S"
  shows "evolves S m (snd (process_send_completion S i res mro u m))"
  unfolding process_send_completion_def Let_def
  by (intro evolves_and_then)
    (auto split: option.split outcome.split simp: evolves_rollback [OF assms]
      intro: evolves_trans [OF evolves_complete evolves_fail [OF assms]])

lemma evolves_flush:
  assumes "sem_law S"
  shows "evolves S m (snd (flush_one_credit S m))"
proof -
  have tk: "evolves S m (m\<lparr>ms_pools := Some (p\<lparr>mp_control_sends := c\<rparr>)\<rparr>)"
    if "msg_pools m = Ok p" "pool_try_take S (mp_control_sends p) = (x, c)" for p x c
    using that pool_closed(2) [of S "mp_control_sends p"]
    by (intro evolves_pools) (auto simp: msg_pools_def split: option.splits)
  have cl: "evolves S m m2" if "claim_pending_credit_returns m1 = (n, m2)" "evolves S m m1" for m1 m2 n
    using that by (auto simp: claim_pending_credit_returns_def Let_def split: if_splits intro: evolves_trans)
  have po: "evolves S m (snd (if n = 0 then and_then (put_control S mr m2) (\<lambda>_ m. (Ok False, m))
                    else
                      (case write_credit_frame (mr_bytes mr) (word_of_nat n) of
                         Ok (len, bs) \<Rightarrow>
                           (case msg_io m2 of
                              Ok io \<Rightarrow>
                                and_then (post_send_tracked S (mr\<lparr>mr_bytes := bs\<rparr>) len ControlSendCtx None
                                    (TrControlSend n) io m2) (\<lambda>_ m. (Ok True, m))
                            | Err e \<Rightarrow>
                                and_then (put_control S (mr\<lparr>mr_bytes := bs\<rparr>) m2) (\<lambda>_ m.
                                  let m = (if ms_state m = STATE_READY then
                                        m\<lparr>ms_pending_credit_returns := ms_pending_credit_returns m + n\<rparr> else m)
                                  in and_then (fail S e False m) (\<lambda>_ m. (Ok True, m)))
                            | Panic \<Rightarrow> (Panic, m2))
                       | _ \<Rightarrow> (Panic, m2))))" if "evolves S m m2" for n mr m2
    using that unfolding Let_def
    by (auto split: outcome.split prod.split intro!: evolves_and_then evolves_fail [OF assms]
        intro: evolves_trans [OF that] evolves_trans [OF that evolves_post_send [OF assms]]
          evolves_trans [OF evolves_frames(5) evolves_fail [OF assms]])
  show ?thesis
  proof (cases "ms_pending_credit_returns m = 0 \<or> ms_state m \<noteq> STATE_READY")
    case False
    show ?thesis
    proof (cases "msg_pools m")
      case (Ok p)
      obtain x c where t: "pool_try_take S (mp_control_sends p) = (x, c)" by fastforce
      obtain n m2 where c: "claim_pending_credit_returns (m\<lparr>ms_pools := Some (p\<lparr>mp_control_sends := c\<rparr>)\<rparr>) = (n, m2)"
        by fastforce
      show ?thesis
        using False Ok t c tk [OF Ok t] po [OF cl [OF c tk [OF Ok t]], of n]
        unfolding flush_one_credit_def by (cases x) simp_all
    next
      case (Err e)
      have "evolves S m (snd (and_then (fail S e True m) (\<lambda>_ m. (Ok True, m))))"
        by (rule evolves_and_then) (simp_all add: evolves_fail [OF assms])
      with False Err show ?thesis by (simp add: flush_one_credit_def)
    qed (use False in \<open>simp add: flush_one_credit_def\<close>)
  qed (simp add: flush_one_credit_def)
qed

lemma evolves_queue:
  assumes "sem_law S"
  shows "evolves S m (enqueue_event S ev m)"
proof -
  have "evolves S m (m\<lparr>ms_events := ms_events m @ [ev]\<rparr>)" if "ms_state m < STATE_CLOSING"
    using that by (simp add: evolves_def same_account_def credit_sum_def hellos_def advances_def forward_def
        tidy_def quiesced_def)
  then have "evolves S m (snd (queue_event S ev m))"
    by (simp add: queue_event_def evolves_dispose_terminal [OF assms])
  then show ?thesis
    by (auto simp: enqueue_event_def split: prod.split intro: evolves_trans)
qed

lemma evolves_process_event:
  assumes "sem_law S"
  shows "evolves S m (snd (process_event S ev m))"
  using assms by (cases ev) (simp_all add: evolves_hello_start evolves_repost evolves_send_request)

lemma evolves_admission: "evolves S m (snd (poll_protocol_admission S m))"
  by (simp add: poll_protocol_admission_def split: option.split prod.split)

lemma evolves_pop_protocol: "evolves S m (snd (pop_protocol m))"
  by (cases "ms_events m")
    (auto simp: pop_protocol_def evolves_def same_account_def credit_sum_def hellos_def advances_def forward_def
      tidy_def quiesced_def)

lemma evolves_pop_io: "evolves S m (snd (pop_io m))"
  by (simp add: pop_io_def split: option.split prod.split)

lemma evolves_pop_work: "pop_work (pf, m) = (x, pf', m') \<Longrightarrow> evolves S m m'"
  using evolves_pop_protocol [of S m] evolves_pop_io [of S m]
    evolves_trans [OF evolves_pop_protocol [of S m] evolves_pop_io] evolves_trans [OF evolves_pop_io [of S m] evolves_pop_protocol]
  by (cases "pop_protocol m"; cases "pop_io m")
    (auto simp: pop_work_def Let_def split: if_splits option.splits prod.splits)

subsection \<open>The handshake\<close>

text \<open>
  Two handlers change the account. The first \<^verbatim>\<open>HELLO\<close> of the peer is announced when its buffer is
  posted again, with a capacity the semaphore can hold; the receipt of that post grants it.
\<close>

definition announced :: "'s sem_ops \<Rightarrow> 's msg \<Rightarrow> 's msg \<Rightarrow> bool" where
  "announced S m m' \<longleftrightarrow>
     (\<exists>n h. suffix h (hellos m) \<and> hellos m' = h @ [TrHelloReceiveRepost n] \<and> 0 < n \<and> n \<le> MAX_PERMITS S)
     \<and> \<not> ms_hello_receive_complete m \<and> \<not> ms_hello_receive_complete m'
     \<and> ms_peer_recv_capacity m' = ms_peer_recv_capacity m
     \<and> (credit_sum S m \<le> MAX_PERMITS S \<longrightarrow> credit_sum S m' = credit_sum S m)"

definition granted :: "'s sem_ops \<Rightarrow> 's msg \<Rightarrow> 's msg \<Rightarrow> bool" where
  "granted S m m' \<longleftrightarrow>
     (\<exists>n. suffix (TrHelloReceiveRepost n # hellos m') (hellos m) \<and> ms_peer_recv_capacity m' = n
        \<and> (credit_sum S m + n \<le> MAX_PERMITS S \<longrightarrow> credit_sum S m' = credit_sum S m + n))
     \<and> ms_hello_receive_complete m'"

text \<open>A handler that panicked is only known to have moved forward.\<close>

definition progress :: "'s sem_ops \<Rightarrow> 's msg \<Rightarrow> 'a res2 \<times> 's msg \<Rightarrow> bool" where
  "progress S m r \<longleftrightarrow>
     advances m (snd r) \<and> (is_Ok (fst r) \<and> ms_state (snd r) < STATE_CLOSING \<longrightarrow>
       same_account S m (snd r) \<or> announced S m (snd r) \<or> granted S m (snd r))"

lemma progressI: "evolves S m (snd r) \<Longrightarrow> progress S m r"
  by (simp add: evolves_def progress_def)

lemma evolves_progress: "evolves S m1 m2 \<Longrightarrow> progress S m2 r \<Longrightarrow> progress S m1 r"
proof -
  assume e: "evolves S m1 m2" and p: "progress S m2 r"
  have sa: "same_account S m1 m2" and ad: "advances m1 (snd r)"
    using e p advances_trans unfolding evolves_def progress_def by blast+
  have "announced S m1 (snd r)" if "announced S m2 (snd r)"
    using that sa unfolding announced_def same_account_def by (auto intro: suffix_order.trans)
  moreover have "granted S m1 (snd r)" if "granted S m2 (snd r)"
    using that sa unfolding granted_def same_account_def by (auto intro: suffix_order.trans)
  ultimately show ?thesis
    using p ad same_account_trans [OF sa] unfolding progress_def by blast
qed

lemma advances_grant:
  assumes "\<And>m. ms_state (f m) = ms_state m" "\<And>m. ms_error (f m) = ms_error m" "\<And>m. ms_events (f m) = ms_events m"
    "\<And>m. ms_pools (f m) = ms_pools m" "\<And>m. ms_requests (f m) = ms_requests m"
    "\<And>m. ms_hello_send_complete (f m) = ms_hello_send_complete m"
    "\<And>m. ms_hello_receive_complete m \<Longrightarrow> ms_hello_receive_complete (f m)"
  shows "advances m (f m)"
  using assms by (auto simp: advances_def forward_def tidy_def quiesced_def)

lemma progress_grant:
  assumes "sem_law S" "ms_transitions m = TrHelloReceiveRepost n # trs"
  shows "progress S m (apply_protocol_disposition S (TrHelloReceiveRepost n) d (m\<lparr>ms_transitions := trs\<rparr>))"
proof (cases "all_accepted d")
  case False
  have "evolves S m (m\<lparr>ms_transitions := trs\<rparr>)" using evolves_pop [of S m] assms(2) by simp
  with False show ?thesis
    by (simp add: apply_protocol_disposition_def)
      (rule progressI, erule evolves_trans, rule evolves_ambiguous [OF assms(1)])
next
  case True
  let ?a = "add_credits S n (m\<lparr>ms_transitions := trs, ms_peer_recv_capacity := n\<rparr>)"
  let ?m1 = "(snd ?a)\<lparr>ms_hello_receive_complete := True\<rparr>"
  have adv: "advances m (snd ?a)" by (rule advances_grant) simp_all
  have adv1: "advances m ?m1" by (rule advances_grant) simp_all
  have g: "granted S m ?m1"
    using sem_law_add(2) [OF assms(1), of "ms_remote_credits m" n] assms(2)
    by (auto simp: granted_def credit_sum_def hellos_def)
  have g2: "granted S m (try_mark_ready ?m1)"
    using g by (simp add: granted_def try_mark_ready_def credit_sum_def hellos_def)
  have adv2: "advances m (try_mark_ready ?m1)"
    using advances_trans [OF adv1] evolves_ready [of S ?m1] unfolding evolves_def by blast
  show ?thesis
    using True adv adv2 g2
    by (cases ?a; cases "fst ?a") (auto simp: apply_protocol_disposition_def progress_def)
qed

lemma submit_disposition: "fst (submit_protocol b c) = PendingOps (batch_len b) \<or> (\<exists>e. fst (submit_protocol b c) = FullyUnaccepted (batch_len b) e)"
  by (auto simp: submit_protocol_def reject_def Let_def split: prod.splits outcome.splits)

lemma validate_hello_range:
  assumes "parse_hello_receive S c mr m = Ok n"
  shows "0 < n" "n \<le> MAX_PERMITS S"
  using assms
  by (auto simp: parse_hello_receive_def validate_peer_hello_def Let_def split: if_splits outcome.splits)

lemma progress_hello_receive:
  assumes "sem_law S"
  shows "progress S m (process_hello_receive S res mro m)"
proof -
  have f: "progress S m (fail S e b m)" for e b by (intro progressI evolves_fail assms)
  have a: "progress S m (post_recv_tracked S mr (TrHelloReceiveRepost n) io m)"
    if n: "0 < n" "n \<le> MAX_PERMITS S" and c: "\<not> ms_hello_receive_complete m" for mr n io
  proof -
    obtain d io' where p: "io_post_recv mr (Ctx ReceiveCtx) io = (d, io')" by fastforce
    then have d: "d = PendingOps 1 \<or> (\<exists>e. d = FullyUnaccepted 1 e)"
      using submit_disposition [of "RecvBatch [(mr, Ctx ReceiveCtx)]" io] by (simp add: io_post_recv_def io_post_recv_batch_def)
    let ?m = "m\<lparr>ms_io := Some io', ms_transitions := ms_transitions m @ [TrHelloReceiveRepost n]\<rparr>"
    have "announced S m ?m" using n c by (auto simp: announced_def hellos_def credit_sum_def)
    moreover have "advances m ?m" by (rule advances_grant) simp_all
    ultimately have 1: "progress S m (Ok (), ?m)" by (simp add: progress_def)
    have 2: "progress S m (fail_if_ambiguous S d (m\<lparr>ms_io := Some io'\<rparr>))" for d
      by (rule progressI, rule evolves_trans [OF evolves_frames(4) evolves_ambiguous [OF assms]])
    from d 1 2 show ?thesis
      by (auto simp: post_recv_tracked_def p track_protocol_disposition_def apply_protocol_disposition_def)
  qed
  show ?thesis
    unfolding process_hello_receive_def
    by (auto split: outcome.split option.split simp: f intro: progressI a validate_hello_range)
qed

lemma progress_receive:
  assumes "sem_law S"
  shows "progress S m (process_receive S res mro m)"
  using assms
  by (auto simp: process_receive_def Let_def progress_hello_receive split: outcome.split option.split
      intro!: progressI evolves_fail evolves_process_frame)

lemma progress_completion:
  assumes "sem_law S"
  shows "progress S m (process_io_completion S c m)"
proof -
  have f: "evolves S m (snd (fail S e b m))" for m e b by (intro evolves_fail assms)
  have h: "evolves S m (try_mark_ready (m\<lparr>ms_hello_send_complete := True\<rparr>))"
    by (rule evolves_trans [OF evolves_hello_send evolves_ready])
  have s: "evolves S m (snd (and_then (if ic_unaccepted c then rollback_unaccepted_send S i m else (Ok (), m)) (\<lambda>_ m.
            and_then (case ic_mr c of Some mr \<Rightarrow> put_data S mr m | None \<Rightarrow> (Ok (), m)) (\<lambda>_ m.
              (Ok (), complete_request i (Err DriverShutdown) m)))))" for i
    by (intro evolves_and_then) (auto simp: evolves_rollback [OF assms] split: option.split)
  have k: "evolves S m (snd (and_then (put_control S mr m) (\<lambda>_ m.
                      case ic_result c of
                        Err e \<Rightarrow>
                          if ms_state m = STATE_READY
                          then fail S (normalize_message_completion_error e) True m else (Ok (), m)
                      | Ok _ \<Rightarrow> (Ok (), m)
                      | Panic \<Rightarrow> (Panic, m))))" for mr
    by (rule evolves_and_then) (auto simp: f split: outcome.split)
  note d = process_io_completion_def
  show ?thesis
  proof (cases "ic_context c")
    case (Ctx x)
    show ?thesis
    proof (cases x)
      case HelloSendCtx
      then show ?thesis by (cases "ic_result c") (simp_all add: d Ctx f h progressI)
    next
      case ReceiveCtx
      then show ?thesis by (simp add: d Ctx progress_receive [OF assms])
    next
      case (SendCtx i)
      then show ?thesis using s [of i] by (simp add: d Ctx progressI evolves_send_completion [OF assms])
    next
      case ControlSendCtx
      then show ?thesis
        using k by (cases "ic_mr c"; cases "msg_pools m") (simp_all add: d Ctx f progressI)
    qed
  qed (simp add: d f progressI)
qed

lemma progress_io_event:
  assumes "sem_law S"
  shows "progress S m (process_io_event S ev m)"
proof (cases ev)
  case (Completed c)
  then show ?thesis
    using progress_completion [OF assms] evolves_dispose_io [OF assms, THEN progressI]
    by (simp add: process_io_event_def)
next
  case (Submitted d)
  show ?thesis
  proof (cases "ms_transitions m")
    case (Cons tr trs)
    have e: "evolves S m (m\<lparr>ms_transitions := trs\<rparr>)" using evolves_pop [of S m] Cons by simp
    show ?thesis
    proof (cases "is_hello tr")
      case True
      then obtain n where "tr = TrHelloReceiveRepost n" by (cases tr) auto
      then show ?thesis using progress_grant [OF assms, of m n trs] Cons Submitted by (simp add: process_io_event_def)
    next
      case False
      then show ?thesis
        using evolves_trans [OF e evolves_apply [OF assms False]] Cons Submitted
        by (simp add: process_io_event_def progressI)
    qed
  qed (simp add: process_io_event_def Submitted evolves_fail [OF assms] progressI)
next
  case (Ended t)
  then show ?thesis
    by (cases t) (simp_all add: process_io_event_def evolves_fail [OF assms] evolves_finish_close [OF assms] progressI)
qed

subsection \<open>Closing\<close>

lemma advances_for_each:
  assumes "\<And>x m. advances m (snd (f x m))"
  shows "advances m (snd (for_each f xs m))"
proof (induction xs arbitrary: m)
  case (Cons x xs)
  show ?case
  proof (cases "f x m")
    case (Pair r m1)
    with assms [of m x] Cons.IH [of m1] show ?thesis
      by (cases r) (auto intro: advances_trans)
  qed
qed (simp add: advances_def forward_def)

lemma progress_begin_close:
  assumes "sem_law S"
  shows "advances m (snd (begin_close S m))" "tidy m \<Longrightarrow> STATE_CLOSING \<le> ms_state (snd (begin_close S m))"
proof -
  define here where "here \<longleftrightarrow> ms_state m = STATE_CREATED \<or> ms_state m = STATE_READY"
  define m1 where "m1 = (if here then m\<lparr>ms_state := STATE_CLOSING, ms_local_close_started := True\<rparr> else m)
    \<lparr>ms_remote_credits := sem_close S (ms_remote_credits m), ms_pending_credit_returns := 0\<rparr>"
  let ?d = "drain_local_events S (close_pools S m1)"
  have sa: "same_account S m m1" by (simp add: m1_def same_account_def credit_sum_def hellos_def sem_law_close [OF assms])
  have fw: "forward m m1" by (auto simp: m1_def forward_def here_def state_defs is_terminal_def)
  have ti: "tidy ((close_pools S m1)\<lparr>ms_events := []\<rparr>)" "STATE_CLOSING \<le> ms_state m1" if "tidy m"
    using that by (auto simp: m1_def tidy_def quiesced_def here_def state_defs close_pools_def)
  have ad: "advances m ?d" using evolves_shut [OF assms sa fw ti(1)] by (simp add: evolves_def)
  have io: "advances m1 (snd (process_io_event S ev m1))" for ev m1
    using progress_io_event [OF assms] unfolding progress_def by blast
  have dp: "advances ?d (snd (drain_and_process S (close_pools S m1)))"
  proof (cases "ms_io ?d")
    case (Some i)
    have "advances ?d (snd (for_each (process_io_event S) evs (?d\<lparr>ms_io := x\<rparr>)))" for evs x
      by (rule advances_trans [OF _ advances_for_each [OF io]]) (simp add: advances_def forward_def tidy_def quiesced_def)
    with Some show ?thesis by (simp add: drain_and_process_def Let_def split: prod.splits)
  qed (simp add: drain_and_process_def advances_def forward_def)
  have fin: "advances x (if here then request_io_close (publish (notify_all x)) else publish (notify_all x))" for x
    by (simp add: advances_def forward_def request_io_close_def publish_def notify_all_def tidy_def quiesced_def)
  have eq: "begin_close S m = and_then (drain_and_process S (close_pools S m1)) (\<lambda>_ m.
      (Ok here, if here then request_io_close (publish (notify_all m)) else publish (notify_all m)))"
    by (simp add: begin_close_def here_def m1_def Let_def)
  have adv: "advances ?d (snd (begin_close S m))"
  proof (cases "drain_and_process S (close_pools S m1)")
    case (Pair r m2)
    with dp fin [of m2] show ?thesis by (cases r) (auto simp: eq intro: advances_trans)
  qed
  with ad show "advances m (snd (begin_close S m))" by (rule advances_trans)
  assume t: "tidy m"
  have "forward ((close_pools S m1)\<lparr>ms_events := []\<rparr>) ?d"
    using evolves_drain_local(1) [OF assms] by (simp add: evolves_def advances_def)
  then have "ms_state m1 \<le> ms_state ?d \<and> ms_state ?d \<le> STATE_FAILED"
    using ti(1) [OF t] by (simp add: forward_def tidy_def close_pools_def)
  then show "STATE_CLOSING \<le> ms_state (snd (begin_close S m))"
    using adv ti(2) [OF t] by (auto simp: advances_def forward_def)
qed

subsection \<open>Turns of the driver\<close>

lemma progress_any:
  assumes "sem_law S" "process_any S (pf, m) = (r, pf', m')"
  shows "progress S m (r, m')"
proof -
  obtain x pf1 m1 where w: "pop_work (pf, m) = (x, pf1, m1)" by (cases "pop_work (pf, m)") auto
  note e = evolves_pop_work [OF w, of S]
  show ?thesis
  proof (cases x)
    case None
    have "evolves S m1 (snd (poll_protocol_admission S m1))" by (rule evolves_admission)
    moreover have "evolves S m2 (snd (flush_one_credit S m2))" for m2 by (rule evolves_flush [OF assms(1)])
    ultimately have "evolves S m1 m'"
      using assms(2) None w
      by (auto simp: process_any_def split: prod.splits bool.splits) (metis evolves_trans snd_conv)+
    with e show ?thesis by (auto intro!: progressI intro: evolves_trans)
  next
    case (Some y)
    obtain r1 m2 where h: "(case y of Protocol ev \<Rightarrow> process_event S ev m1 | Io ev \<Rightarrow> process_io_event S ev m1) = (r1, m2)"
      by fastforce
    have "progress S m1 (r1, m2)"
      using h progress_io_event [OF assms(1)] evolves_process_event [OF assms(1)]
      by (cases y) (force intro: progressI simp flip: h)+
    moreover have "m' = m2" "is_Ok r = is_Ok r1"
      using assms(2) Some w h by (cases r1; auto simp: process_any_def)+
    ultimately have "progress S m1 (r, m')" by (simp add: progress_def)
    with e show ?thesis by (rule evolves_progress)
  qed
qed

lemma progress_turn:
  assumes "sem_law S" "process_turn S (pf, m) = (r, pf', m')"
  shows "progress S m (r, m')"
proof -
  obtain ad m1 where a: "(if pf_admission pf then poll_protocol_admission S m else (False, m)) = (ad, m1)" by fastforce
  have e1: "evolves S m m1" using a evolves_admission [of S m] by (auto split: if_splits)
  obtain fl m2 where f: "(if pf_credit pf then flush_one_credit S m1 else (Ok False, m1)) = (fl, m2)" by fastforce
  have e2: "evolves S m1 m2" using f evolves_flush [OF assms(1), of m1] by (auto split: if_splits)
  note e = evolves_trans [OF e1 e2]
  have f': "(if pf_credit pf then let (r, m) = flush_one_credit S m1 in (r, pf, m) else (Ok False, pf, m1)) = (fl, pf, m2)"
    using f by (auto split: if_splits prod.splits)
  have t: "process_turn S (pf, m) = (if ad then (Ok True, pf\<lparr>pf_admission := False\<rparr>, m1)
      else and_then (fl, pf, m2) (\<lambda>flushed (pf, m).
                if flushed then (Ok True, pf\<lparr>pf_credit := False, pf_admission := True\<rparr>, m)
                else process_any S (pf, m)))"
    unfolding process_turn_def f' [symmetric] by (simp add: a Let_def)
  show ?thesis
  proof (cases "ad \<or> fl \<noteq> Ok False")
    case True
    then have "evolves S m m'" using assms(2) e1 e unfolding t by (cases fl) (auto split: if_splits)
    then show ?thesis by (simp add: progressI)
  next
    case False
    then have "process_any S (pf, m2) = (r, pf', m')" using assms(2) unfolding t by simp
    from evolves_progress [OF e progress_any [OF assms(1) this]] show ?thesis .
  qed
qed

end
