(* ===== verification/MessageRun.thy ===== *)
theory MessageRun
  imports MessageInv
begin

section \<open>The message transport: every run\<close>

text \<open>
  The futures of \<open>send\<close> beside the shared state, the steps the system can make, and what holds in
  every state it reaches.
\<close>

subsection \<open>Sends\<close>

fun holds_credit :: "send_future \<Rightarrow> nat" where
  "holds_credit (WaitBuffer _) = 1"
| "holds_credit _ = 0"

text \<open>As \<open>evolves\<close>, with \<open>k\<close> credits held by a send before and \<open>k'\<close> after.\<close>

definition moves :: "'s sem_ops \<Rightarrow> nat \<Rightarrow> 's msg \<Rightarrow> nat \<Rightarrow> 's msg \<Rightarrow> bool" where
  "moves S k m k' m' \<longleftrightarrow>
     (credit_sum S m + k \<le> MAX_PERMITS S \<longrightarrow> credit_sum S m' + k' = credit_sum S m + k)
     \<and> ms_peer_recv_capacity m' = ms_peer_recv_capacity m
     \<and> ms_hello_receive_complete m' = ms_hello_receive_complete m
     \<and> suffix (hellos m') (hellos m) \<and> advances m m'"

lemma moves_evolves: "evolves S m m' \<Longrightarrow> moves S k m k m'"
  by (auto simp: moves_def evolves_def same_account_def)

lemma moves_trans: "moves S k1 m1 k2 m2 \<Longrightarrow> moves S k2 m2 k3 m3 \<Longrightarrow> moves S k1 m1 k3 m3"
  unfolding moves_def using suffix_order.trans advances_trans by auto

lemma evolves_waiter: "poll_waiter i m = (r, f, m') \<Longrightarrow> evolves S m m' \<and> holds_credit f = 0"
  by (auto simp: poll_waiter_def split: option.splits if_splits intro: evolves_request)

lemma moves_drop:
  assumes "sem_law S"
  shows "moves S 1 m 0 (drop_credit S True m)"
  using sem_law_add(2) [OF assms, of "ms_remote_credits m" 1]
  by (auto simp: moves_def credit_sum_def hellos_def advances_def forward_def tidy_def quiesced_def)

lemma moves_buffer:
  assumes "sem_law S" "poll_buffer S data m = (r, f, m')" "r \<noteq> Ready Panic"
  shows "moves S 1 m (holds_credit f) m'"
proof (cases "msg_pools m")
  case (Ok p)
  obtain t d where t: "pool_take S (mp_data_sends p) = (t, d)" by fastforce
  let ?m = "m\<lparr>ms_pools := Some (p\<lparr>mp_data_sends := d\<rparr>)\<rparr>"
  have e: "moves S k m k ?m" for k
    using Ok t pool_closed(1) [of S "mp_data_sends p"]
    by (intro moves_evolves evolves_pools) (auto simp: msg_pools_def split: option.splits)
  have dr: "moves S 1 m 0 (drop_credit S True ?m)" by (rule moves_trans [OF e moves_drop [OF assms(1)]])
  show ?thesis
  proof (cases "\<exists>mr. t = Ready (Ok mr)")
    case True
    then obtain mr where tr: "t = Ready (Ok mr)" by blast
    show ?thesis
    proof (cases "write_data_frame (mr_bytes mr) data")
      case w: (Ok fb)
      obtain n bs where fb: "fb = (n, bs)" by fastforce
      let ?q = "?m\<lparr>ms_requests := ms_requests m @ [request_new (mr\<lparr>mr_bytes := bs\<rparr>) True n]\<rparr>"
      let ?i = "length (ms_requests m)"
      have p: "poll_waiter ?i (enqueue_event S (EvSendRequest ?i) ?q) = (r, f, m')"
        using assms(2) Ok t tr w fb by (simp add: poll_buffer_def Let_def)
      have "moves S 1 ?m 0 ?q"
        by (simp add: moves_def credit_sum_def hellos_def advances_def forward_def tidy_def quiesced_def request_new_def)
      moreover have "moves S 0 ?q 0 m'" "holds_credit f = 0"
        using evolves_waiter [OF p, of S] moves_evolves [OF evolves_trans [OF evolves_queue [OF assms(1)]]] by auto
      ultimately show ?thesis using e moves_trans by metis
    qed (use assms(2,3) Ok t tr in \<open>auto simp: poll_buffer_def Let_def\<close>)
  next
    case False
    have "(m' = drop_credit S True ?m \<and> holds_credit f = 0) \<or> (m' = ?m \<and> holds_credit f = 1)"
      using assms(2) Ok t False
      by (cases t) (auto simp: poll_buffer_def Let_def split: outcome.splits option.splits)
    then show ?thesis using dr e by auto
  qed
next
  case (Err e)
  then show ?thesis using assms(2) moves_drop [OF assms(1)] by (auto simp: poll_buffer_def)
next
  case Panic
  then show ?thesis using assms(2,3) by (auto simp: poll_buffer_def)
qed

lemma moves_credit:
  assumes "sem_law S" "poll_credit S data m = (r, f, m')" "r \<noteq> Ready Panic"
  shows "moves S 0 m (holds_credit f) m'"
proof -
  obtain a s where t: "sem_try S 1 (ms_remote_credits m) = (a, s)" by fastforce
  let ?m = "m\<lparr>ms_remote_credits := s\<rparr>"
  have mv: "moves S 0 m (if a = Acquired then 1 else 0) ?m"
    using sem_law_try(1) [OF assms(1) t]
    by (auto simp: moves_def credit_sum_def hellos_def advances_def forward_def tidy_def quiesced_def)
  show ?thesis
  proof (cases "a = Acquired")
    case True
    then have "poll_buffer S data ?m = (r, f, m')" using assms(2) t by (simp add: poll_credit_def)
    from moves_buffer [OF assms(1) this assms(3)] mv True show ?thesis by (auto intro: moves_trans)
  next
    case False
    then have "m' = ?m \<and> holds_credit f = 0"
      using assms(2) t by (cases a) (auto simp: poll_credit_def split: option.splits)
    with mv False show ?thesis by simp
  qed
qed

lemma moves_send:
  assumes "sem_law S" "poll_send_message S f m = (r, f', m')" "r \<noteq> Ready Panic"
  shows "moves S (holds_credit f) m (holds_credit f') m'"
proof (cases f)
  case (WaitReady data)
  then show ?thesis
    using assms moves_credit [OF assms(1), of data m r f' m']
    by (auto split: if_splits poll.splits outcome.splits simp: moves_evolves)
next
  case (WaitCompletion i)
  then show ?thesis using assms(2) evolves_waiter [of i m r f' m' S] by (auto simp: moves_evolves)
qed (use assms moves_credit [OF assms(1)] moves_buffer [OF assms(1)] in auto)

lemma moves_drop_send:
  assumes "sem_law S"
  shows "moves S (holds_credit f) m 0 (drop_send S f m)"
  using moves_drop [OF assms, of m] by (cases f) (auto intro: moves_evolves)

subsection \<open>Runs\<close>

text \<open>
  A run starts where the preparation and \<open>attach\<close> succeed. A step is one turn of the driver loop,
  the expired deadline, a failed executor check or the drop of the driver; a poll or the drop of
  a send; a receive or the drop of a received message; either half of \<open>close\<close>, or the drop of the
  transport; or anything the engine does to the connection. A step that panics ends the run.
\<close>

type_synonym 's sys = "'s msg \<times> send_future list"

inductive msg_step :: "'s sem_ops \<Rightarrow> 's sys \<Rightarrow> 's sys \<Rightarrow> bool" for S where
  turn: "process_turn S (pf, m) = (Ok go, pf', m') \<Longrightarrow> msg_step S (m, fs) (m', fs)"
| deadline: "deadline_expired S m = (Ok u, m') \<Longrightarrow> msg_step S (m, fs) (m', fs)"
| driver_gone: "fail S e True m = (Ok u, m') \<Longrightarrow> msg_step S (m, fs) (m', fs)"
| engine: "msg_step S (m, fs) (m\<lparr>ms_io := Some io\<rparr>, fs)"
| send: "msg_step S (m, fs) (m, fs @ [WaitReady data])"
| poll_send: "i < length fs \<Longrightarrow> poll_send_message S (fs ! i) m = (r, f, m') \<Longrightarrow> r \<noteq> Ready Panic \<Longrightarrow>
    msg_step S (m, fs) (m', fs[i := f])"
| drop_send: "i < length fs \<Longrightarrow> msg_step S (m, fs) (drop_send S (fs ! i) m, fs[i := SendDone])"
| recv: "poll_recv_message m = (r, m') \<Longrightarrow> msg_step S (m, fs) (m', fs)"
| drop_msg: "msg_step S (m, fs) (drop_message S x m, fs)"
| close1: "close_start S m = (r, m') \<Longrightarrow> r \<noteq> Panic \<Longrightarrow> msg_step S (m, fs) (m', fs)"
| close2: "close_finish S pre res m = (r, m') \<Longrightarrow> r \<noteq> Panic \<Longrightarrow> msg_step S (m, fs) (m', fs)"
| drop_transport: "msg_step S (m, fs) (transport_drop S m, fs)"

definition msg_start :: "'s sem_ops \<Rightarrow> 's msg \<Rightarrow> bool" where
  "msg_start S m \<longleftrightarrow>
     (\<exists>(register :: nat \<Rightarrow> mr list \<Rightarrow> mr res2 \<times> mr list) post io c r n m0 r'.
        prepare_message S register post io c (msg_new S c, r) = (Ok n, m0, r') \<and> attach S m0 = (Ok (), m))"

text \<open>The peer announces its capacity once: no second \<^verbatim>\<open>HELLO\<close> is pending after the first was granted.\<close>

definition one_hello :: "'s msg \<Rightarrow> bool" where
  "one_hello m \<longleftrightarrow> ms_hello_receive_complete m \<longrightarrow> hellos m = []"

inductive msg_run :: "'s sem_ops \<Rightarrow> 's sys \<Rightarrow> bool" for S where
  start: "msg_start S m \<Longrightarrow> msg_run S (m, [])"
| more: "msg_run S s \<Longrightarrow> msg_step S s s' \<Longrightarrow> msg_run S s'"

inductive honest_run :: "'s sem_ops \<Rightarrow> 's sys \<Rightarrow> bool" for S where
  start: "msg_start S m \<Longrightarrow> honest_run S (m, [])"
| more: "honest_run S s \<Longrightarrow> msg_step S s s' \<Longrightarrow> one_hello (fst s') \<Longrightarrow> honest_run S s'"

definition total_credits :: "'s sem_ops \<Rightarrow> 's sys \<Rightarrow> nat" where
  "total_credits S s = credit_sum S (fst s) + sum_list (map holds_credit (snd s))"

text \<open>What one step does, in the terms of the relations above.\<close>

definition same_total :: "'s sem_ops \<Rightarrow> 's sys \<Rightarrow> 's sys \<Rightarrow> bool" where
  "same_total S s s' \<longleftrightarrow>
     (total_credits S s \<le> MAX_PERMITS S \<longrightarrow> total_credits S s' = total_credits S s)
     \<and> ms_peer_recv_capacity (fst s') = ms_peer_recv_capacity (fst s)
     \<and> ms_hello_receive_complete (fst s') = ms_hello_receive_complete (fst s)
     \<and> suffix (hellos (fst s')) (hellos (fst s))"

lemma same_total_evolves: "evolves S m m' \<Longrightarrow> same_total S (m, fs) (m', fs) \<and> advances m m'"
  by (auto simp: same_total_def total_credits_def evolves_def same_account_def)

lemma sum_holds_update:
  assumes "i < length fs"
  shows "sum_list (map holds_credit (fs[i := f])) + holds_credit (fs ! i) =
    sum_list (map holds_credit fs) + holds_credit f"
  using assms
proof (induction fs arbitrary: i)
  case (Cons x fs)
  then show ?case by (cases i) auto
qed simp

lemma same_total_moves:
  assumes "i < length fs" "moves S (holds_credit (fs ! i)) m (holds_credit f) m'"
  shows "same_total S (m, fs) (m', fs[i := f]) \<and> advances m m'"
proof -
  have "holds_credit (fs ! i) \<le> sum_list (map holds_credit fs)"
    using assms(1) by (intro member_le_sum_list) simp_all
  then show ?thesis
    using assms(2) sum_holds_update [OF assms(1), of f] by (auto simp: same_total_def total_credits_def moves_def)
qed

lemma close_start_state:
  assumes "close_start S m = (r, m')"
  shows "m' = snd (begin_close S m) \<or> (\<exists>io. m' = (snd (begin_close S m))\<lparr>ms_io := Some io\<rparr>)"
proof -
  obtain b m1 where b: "begin_close S m = (b, m1)" by fastforce
  show ?thesis
  proof (cases b)
    case (Ok x)
    then show ?thesis using assms b by (cases "msg_io m1") (auto simp: close_start_def Let_def)
  qed (use assms b in \<open>auto simp: close_start_def\<close>)
qed

lemma step_cases:
  assumes "sem_law S" "msg_step S s s'" "tidy (fst s)"
  shows "advances (fst s) (fst s')"
    "ms_state (fst s') < STATE_CLOSING \<Longrightarrow> same_total S s s'
       \<or> snd s' = snd s \<and> (announced S (fst s) (fst s') \<or> granted S (fst s) (fst s'))"
proof -
  have "advances (fst s) (fst s') \<and> (ms_state (fst s') < STATE_CLOSING \<longrightarrow> same_total S s s'
       \<or> snd s' = snd s \<and> (announced S (fst s) (fst s') \<or> granted S (fst s) (fst s')))"
    using assms(2)
  proof cases
    case (turn pf m go pf' m' fs)
    then show ?thesis
      using progress_turn [OF assms(1) turn(3)] by (auto simp: progress_def same_total_def total_credits_def same_account_def)
  next
    case (deadline m u m' fs)
    then have "evolves S m m'"
      using evolves_fail [OF assms(1), of m] by (auto simp: deadline_expired_def split: if_splits) (metis snd_conv)
    then show ?thesis using same_total_evolves deadline by auto
  next
    case (driver_gone e m u m' fs)
    then show ?thesis using same_total_evolves evolves_fail [OF assms(1), of m e True] by (metis fst_conv snd_conv)
  next
    case (engine m fs io)
    then show ?thesis using same_total_evolves [of S m] by simp
  next
    case (send m fs data)
    then show ?thesis using same_total_evolves [of S m m] by (simp add: same_total_def total_credits_def)
  next
    case (poll_send i fs m r f m')
    then show ?thesis using same_total_moves [OF _ moves_send [OF assms(1)]] by auto
  next
    case (drop_send i fs m)
    then show ?thesis
      using same_total_moves [where f = SendDone, OF _ moves_drop_send [OF assms(1), of "fs ! i" m, folded holds_credit.simps]]
      by simp
  next
    case (recv m r m' fs)
    then have "evolves S m m'" by (auto simp: poll_recv_message_def split: list.splits option.splits)
    then show ?thesis using same_total_evolves recv by auto
  next
    case (drop_msg m fs x)
    then show ?thesis using same_total_evolves [OF evolves_queue [OF assms(1), where m = m and ev = "EvRepost (fst x)"], of fs]
      by (simp add: drop_message_def)
  next
    case (close1 m r m' fs)
    let ?m = "snd (begin_close S m)"
    have "m' = ?m \<or> (\<exists>io. m' = ?m\<lparr>ms_io := Some io\<rparr>)" by (rule close_start_state [OF close1(3)])
    moreover have "advances x (x\<lparr>ms_io := io\<rparr>)" for x :: "'a msg" and io
      using evolves_frames(4) [of S x io] by (simp add: evolves_def)
    ultimately have "advances m m'" "ms_state m' = ms_state ?m"
      using advances_trans [OF progress_begin_close(1) [OF assms(1), of m]] progress_begin_close(1) [OF assms(1), of m]
      by auto
    then show ?thesis using progress_begin_close(2) [OF assms(1), of m] assms(3) close1 by simp
  next
    case (close2 pre res m r m' fs)
    then have "evolves S m m'"
      using evolves_finish_close [OF assms(1), of m res]
      by (cases "finish_close S res m"; cases "fst (finish_close S res m)") (auto simp: close_finish_def)
    then show ?thesis using same_total_evolves close2 by auto
  next
    case (drop_transport m fs)
    then show ?thesis using progress_begin_close [OF assms(1), of m] assms(3) by (auto simp: transport_drop_def)
  qed
  then show "advances (fst s) (fst s')"
    "ms_state (fst s') < STATE_CLOSING \<Longrightarrow> same_total S s s'
       \<or> snd s' = snd s \<and> (announced S (fst s) (fst s') \<or> granted S (fst s) (fst s'))" by auto
qed

definition balanced :: "'s sem_ops \<Rightarrow> 's sys \<Rightarrow> bool" where
  "balanced S s \<longleftrightarrow> (ms_state (fst s) < STATE_CLOSING \<longrightarrow>
     (\<forall>tr \<in> set (hellos (fst s)). \<exists>n. tr = TrHelloReceiveRepost n \<and> 0 < n \<and> n \<le> MAX_PERMITS S)
     \<and> (if ms_hello_receive_complete (fst s)
        then total_credits S s = ms_peer_recv_capacity (fst s) \<and> 0 < ms_peer_recv_capacity (fst s)
             \<and> ms_peer_recv_capacity (fst s) \<le> MAX_PERMITS S
        else total_credits S s = 0))"

subsection \<open>Invariants of runs\<close>

lemma and_then_Ok:
  assumes "and_then r f = (Ok y, t)"
  obtains x u where "r = (Ok x, u)" "f x u = (Ok y, t)"
  using assms by (cases r; cases "fst r") auto

lemma start_state:
  assumes "sem_law S" "msg_start S m"
  shows "ms_state m = STATE_CREATED" "credit_sum S m = 0" "hellos m = []" "\<not> ms_hello_receive_complete m"
proof -
  obtain register :: "nat \<Rightarrow> mr list \<Rightarrow> mr res2 \<times> mr list" and post io c r n m0 r' where
    p: "prepare_message S register post io c (msg_new S c, r) = (Ok n, m0, r')" and a: "attach S m0 = (Ok (), m)"
    using assms(2) unfolding msg_start_def by blast
  have m0: "\<exists>ps. m0 = (msg_new S c)\<lparr>ms_pools := ps, ms_io := Some io\<rparr>"
    using p
    by (auto simp: prepare_message_def Let_def install_pools_def install_io_def split: prod.splits if_splits
        elim!: and_then_Ok)
  then obtain ps where m0: "m0 = (msg_new S c)\<lparr>ms_pools := ps, ms_io := Some io\<rparr>" by blast
  have z: "sem_permits S (sem_new S 0) = 0" using sem_law_new [OF assms(1), of 0] by simp
  have m: "m = publish (m0\<lparr>ms_attached := True, ms_events := [EvStart]\<rparr>)"
    using a m0 by (auto simp: attach_def enqueue_event_def queue_event_def msg_new_def state_defs Let_def split: outcome.splits if_splits)
  show "ms_state m = STATE_CREATED" "credit_sum S m = 0" "hellos m = []" "\<not> ms_hello_receive_complete m"
    by (simp_all add: m m0 publish_def msg_new_def credit_sum_def hellos_def z)
qed

lemma start_tidy: "sem_law S \<Longrightarrow> msg_start S m \<Longrightarrow> tidy m"
  using start_state(1) [of S m] by (simp add: tidy_def state_defs)

lemma run_tidy:
  assumes "sem_law S" "msg_run S s"
  shows "tidy (fst s)"
  using assms(2)
proof induction
  case (more s s')
  then show ?case using step_cases(1) [OF assms(1) more.hyps(2)] by (simp add: advances_def)
qed (simp add: start_tidy [OF assms(1)])

lemma steps_forward:
  assumes "sem_law S" "tidy (fst s)" "(msg_step S)\<^sup>*\<^sup>* s s'"
  shows "forward (fst s) (fst s') \<and> tidy (fst s')"
  using assms(3)
proof (induction rule: rtranclp_induct)
  case (step y z)
  then show ?case using step_cases(1) [OF assms(1)] forward_trans unfolding advances_def by blast
qed (simp add: assms(2) forward_def)

lemma honest_balanced:
  assumes "sem_law S" "honest_run S s"
  shows "tidy (fst s) \<and> balanced S s \<and> one_hello (fst s)"
  using assms(2)
proof induction
  case (start m)
  then show ?case
    using start_state [OF assms(1)] start_tidy [OF assms(1)]
    by (simp add: balanced_def total_credits_def one_hello_def)
next
  case (more s s')
  note st = step_cases [OF assms(1) more.hyps(2)]
  have ad: "advances (fst s) (fst s')" using st(1) more.IH by blast
  have "balanced S s'"
  proof (cases "ms_state (fst s') < STATE_CLOSING")
    case True
    then have lt: "ms_state (fst s) < STATE_CLOSING"
      using ad more.IH unfolding advances_def forward_def tidy_def by linarith
    have b: "balanced S s" and o: "one_hello (fst s)" using more.IH by blast+
    from st(2) [OF _ True] more.IH
    consider "same_total S s s'" | "snd s' = snd s" "announced S (fst s) (fst s')"
      | "snd s' = snd s" "granted S (fst s) (fst s')" by blast
    then show ?thesis
    proof cases
      case 1
      then have "total_credits S s \<le> MAX_PERMITS S" using b lt by (auto simp: balanced_def split: if_splits)
      then show ?thesis
        using 1 b lt set_mono_suffix [of "hellos (fst s')" "hellos (fst s)"]
        unfolding same_total_def balanced_def by (auto split: if_splits)
    next
      case 2
      then obtain n h where h: "suffix h (hellos (fst s))" "hellos (fst s') = h @ [TrHelloReceiveRepost n]"
          "0 < n" "n \<le> MAX_PERMITS S" "\<not> ms_hello_receive_complete (fst s)" "\<not> ms_hello_receive_complete (fst s')"
          "credit_sum S (fst s) \<le> MAX_PERMITS S \<longrightarrow> credit_sum S (fst s') = credit_sum S (fst s)"
        unfolding announced_def by blast
      then show ?thesis
        using 2(1) b lt set_mono_suffix [OF h(1)] by (auto simp: balanced_def total_credits_def)
    next
      case 3
      then obtain n where n: "suffix (TrHelloReceiveRepost n # hellos (fst s')) (hellos (fst s))"
          "ms_peer_recv_capacity (fst s') = n" "ms_hello_receive_complete (fst s')"
          "credit_sum S (fst s) + n \<le> MAX_PERMITS S \<longrightarrow> credit_sum S (fst s') = credit_sum S (fst s) + n"
        unfolding granted_def by blast
      then have "\<not> ms_hello_receive_complete (fst s)" using o by (auto simp: one_hello_def)
      moreover have "TrHelloReceiveRepost n \<in> set (hellos (fst s))" "set (hellos (fst s')) \<subseteq> set (hellos (fst s))"
        using set_mono_suffix [OF n(1)] by auto
      ultimately show ?thesis
        using 3(1) b lt n(2-4) by (auto simp: balanced_def total_credits_def)
    qed
  qed (simp add: balanced_def)
  with ad more show ?case by (simp add: advances_def)
qed

end
