(* ===== verification/MessageProps.thy ===== *)
theory MessageProps
  imports MessageRun
begin

section \<open>The message transport: properties\<close>

text \<open>
  The theorems about the message transport, and the concrete transport their witnesses run on:
  credits, lifecycle, closing, delivery, the credit check, the driver's turn and the handshake of
  two ends.
\<close>

subsection \<open>A concrete transport\<close>

text \<open>
  A semaphore that is a pair of its permits and the closed flag, of at most 100 permits;
  a small configuration; and scripts of driver turns and engine deliveries, which are runs.
\<close>

definition pair_sem :: "(nat \<times> bool) sem_ops" where
  "pair_sem =
     \<lparr>sem_new = (\<lambda>n. (n, False)), sem_permits = fst, sem_is_closed = snd,
      sem_try = (\<lambda>n (k, c). if c then (SemClosed, k, c) else if n \<le> k then (Acquired, k - n, c) else (NoPermits, k, c)),
      sem_add = (\<lambda>n (k, c). if k + n \<le> 100 then (Ok (), k + n, c) else (Panic, k, c)),
      sem_close = (\<lambda>(k, c). (k, True)), MAX_PERMITS = 100\<rparr>"

lemma pair_sem_law: "sem_law pair_sem"
  by (auto simp: sem_law_def pair_sem_def)

definition demo_cfg :: message_config where
  "demo_cfg = \<lparr>mc_max_send_wr = 4, mc_max_recv_wr = 4, mc_send_count = 1, mc_recv_count = 2,
     mc_buffer_size = 12, mc_mr_size = 24, mc_hello_deadline = 10 ^ 9\<rparr>"

definition demo_mr :: "nat \<Rightarrow> mr" where
  "demo_mr n = \<lparr>mr_addr = 0, mr_lkey = 0, mr_rkey = 0, mr_bytes = replicate n 0\<rparr>"

definition demo_io :: "(msg_context, nat \<times> bool) io_conn" where
  "demo_io = \<lparr>io_pending = [], io_open = True, io_port = event_port_new, io_permits = (16, False),
     io_commands = Some (ingress_new 16), io_manager = Some \<lparr>sm_admission_error = None, sm_engine_outcome = None\<rparr>,
     io_retired = False, io_outcome = None, io_close_queued = False\<rparr>"

definition no_pref :: preferences where
  "no_pref = \<lparr>pf_credit = False, pf_io = False, pf_admission = False\<rparr>"

definition hello_frame :: "u32 \<Rightarrow> mr" where
  "hello_frame n = (demo_mr 24)\<lparr>mr_bytes := header_bytes FRAME_HELLO 12 @ le32 n @ le32 12 @ le32 (ucast PROTO_VERSION)\<rparr>"

definition hello_event :: "u32 \<Rightarrow> msg_context io_event" where
  "hello_event n = dest_complete (Ctx ReceiveCtx) (0, 0) (Ok (wc_default\<lparr>byte_len := 24\<rparr>)) (Some (hello_frame n))"

definition hello_sent :: "msg_context io_event" where
  "hello_sent = dest_complete (Ctx HelloSendCtx) (0, 0) (Ok wc_default) (Some (demo_mr 24))"

text \<open>The state after preparation and attachment, and after the driver's first turn.\<close>

definition demo0 :: "(nat \<times> bool) msg" where
  "demo0 = (msg_new pair_sem demo_cfg)\<lparr>
     ms_pools := Some \<lparr>mp_data_sends = pool_new pair_sem (replicate 1 (demo_mr 24)),
       mp_control_sends = pool_new pair_sem (replicate 2 (demo_mr 24)), mp_hello_send = Some (demo_mr 24)\<rparr>,
     ms_io := Some demo_io, ms_attached := True, ms_events := [EvStart], ms_driver_wakes := 1\<rparr>"

lemmas size_consts = CTRL_BUF_SIZE_def CTRL_RECV_COUNT_def CTRL_SEND_COUNT_def HELLO_FRAME_SIZE_def HEADER_SIZE_def
  HELLO_PAYLOAD_SIZE_def

lemma register_const: "register_many (\<lambda>r. (Ok x, r)) n r = (Ok (replicate n x), r)"
  by (induction n) simp_all

lemma demo_start: "msg_start pair_sem demo0"
proof -
  let ?reg = "\<lambda>n (r :: mr list). (Ok (demo_mr n) :: mr res2, r)"
  let ?post = "\<lambda>(rs :: (mr \<times> msg_context op_context) list) (r :: mr list). (AllAccepted (length rs), r)"
  have "prepare_message pair_sem ?reg ?post demo_io demo_cfg (msg_new pair_sem demo_cfg, []) =
      (Ok 4, demo0\<lparr>ms_attached := False, ms_events := [], ms_driver_wakes := 0\<rparr>, [])"
    by (simp add: prepare_message_def demo_cfg_def msg_new_def size_consts register_const install_pools_def
        install_io_def demo0_def)
  moreover have "attach pair_sem (demo0\<lparr>ms_attached := False, ms_events := [], ms_driver_wakes := 0\<rparr>) = (Ok (), demo0)"
    by (simp add: attach_def msg_pools_def msg_io_def demo0_def enqueue_event_def queue_event_def msg_new_def
        state_defs publish_def)
  ultimately show ?thesis unfolding msg_start_def by blast
qed

text \<open>One turn on an event the engine has just delivered.\<close>

lemma feed_turn:
  assumes "ms_events m = []"
    "process_io_event pair_sem ev (m\<lparr>ms_io := Some demo_io\<rparr>) = (Ok u, m')"
  shows "\<exists>m1. msg_step pair_sem (m, fs) (m1, fs) \<and> msg_step pair_sem (m1, fs) (m', fs)
    \<and> hellos m1 = hellos m \<and> ms_hello_receive_complete m1 = ms_hello_receive_complete m"
proof -
  let ?io = "demo_io\<lparr>io_port := event_port_new\<lparr>ep_events := [ev]\<rparr>\<rparr>"
  let ?m = "m\<lparr>ms_io := Some ?io\<rparr>"
  have p: "?io\<lparr>io_port := (io_port ?io)\<lparr>ep_events := []\<rparr>\<rparr> = demo_io"
    by (simp add: demo_io_def event_port_new_def)
  have "pop_work (no_pref, ?m) = (Some (Io ev), no_pref, m\<lparr>ms_io := Some demo_io\<rparr>)"
    using assms(1) p by (simp add: pop_work_def no_pref_def pop_protocol_def pop_io_def port_pop_def)
  then have "process_turn pair_sem (no_pref, ?m) = (Ok True, no_pref\<lparr>pf_credit := True, pf_admission := True\<rparr>, m')"
    using assms(2) by (simp add: process_turn_def process_any_def no_pref_def)
  then have "msg_step pair_sem (?m, fs) (m', fs)" by (rule msg_step.turn)
  moreover have "msg_step pair_sem (m, fs) (?m, fs)" by (rule msg_step.engine)
  ultimately show ?thesis by (intro exI [of _ ?m]) (simp add: hellos_def)
qed

lemma hello_parse:
  assumes "ms_buffer_size m = 12" "0 < unat n" "unat n \<le> 100"
  shows "parse_hello_receive pair_sem (wc_default\<lparr>byte_len := 24\<rparr>) (hello_frame n) m = Ok (unat n)"
proof -
  let ?p = "le32 n @ le32 12 @ le32 (ucast PROTO_VERSION)"
  have h: "parse_header (header_bytes FRAME_HELLO 12 @ ?p) 24 = Ok \<lparr>frame_type = FRAME_HELLO, payload_len = 12\<rparr>"
    by (rule parse_header_bytes) (simp_all add: HEADER_SIZE_def)
  have "parse_hello ?p = Ok \<lparr>data_recv_capacity = n, max_message_size = 12\<rparr>"
    using parse_hello_le32 [of n 12] by (simp del: le_bytes.simps)
  with h assms show ?thesis
    by (simp add: parse_hello_receive_def hello_frame_def validate_peer_hello_def slice_def HEADER_SIZE_def pair_sem_def)
qed

lemma feed_hello:
  assumes "ms_state m = STATE_CREATED" "\<not> ms_hello_receive_complete m" "ms_buffer_size m = 12" "0 < unat n" "unat n \<le> 100"
  shows "\<exists>io. process_io_event pair_sem (hello_event n) (m\<lparr>ms_io := Some demo_io\<rparr>) =
    (Ok (), m\<lparr>ms_io := Some io, ms_transitions := ms_transitions m @ [TrHelloReceiveRepost (unat n)]\<rparr>)"
  using assms hello_parse [of "m\<lparr>ms_io := Some demo_io\<rparr>" n]
  by (intro exI [of _ "snd (io_post_recv (hello_frame n) (Ctx ReceiveCtx) demo_io)"]) (simp add: process_io_event_def hello_event_def dest_complete_def state_defs process_io_completion_def
      process_receive_def process_hello_receive_def msg_io_def post_recv_tracked_def io_post_recv_def
      io_post_recv_batch_def submit_protocol_def io_submit_def demo_io_def ingress_new_def
      validate_operation_batch_def reserve_protocol_payload_def track_protocol_disposition_def)

lemma feed_receipt:
  assumes "ms_transitions m = TrHelloSend # ts"
  shows "process_io_event pair_sem (Submitted (AllAccepted 1)) (m\<lparr>ms_io := Some demo_io\<rparr>) =
    (Ok (), m\<lparr>ms_io := Some demo_io, ms_transitions := ts\<rparr>)"
  using assms by (simp add: process_io_event_def apply_protocol_disposition_def)

lemma feed_grant:
  assumes "ms_transitions m = TrHelloReceiveRepost n # ts" "ms_remote_credits m = (k, False)" "k + n \<le> 100"
    "\<not> ms_hello_send_complete m"
  shows "process_io_event pair_sem (Submitted (AllAccepted 1)) (m\<lparr>ms_io := Some demo_io\<rparr>) =
    (Ok (), m\<lparr>ms_io := Some demo_io, ms_transitions := ts, ms_peer_recv_capacity := n,
       ms_remote_credits := (k + n, False), ms_hello_receive_complete := True\<rparr>)"
  using assms
  by (simp add: process_io_event_def apply_protocol_disposition_def add_credits_def pair_sem_def try_mark_ready_def)

lemma feed_sent:
  assumes "ms_state m = STATE_CREATED" "ms_hello_receive_complete m"
  shows "process_io_event pair_sem hello_sent (m\<lparr>ms_io := Some demo_io\<rparr>) =
    (Ok (), m\<lparr>ms_io := Some demo_io, ms_hello_send_complete := True, ms_state := STATE_READY,
       ms_state_notifies := ms_state_notifies m + 1\<rparr>)"
  using assms
  by (simp add: process_io_event_def hello_sent_def dest_complete_def state_defs process_io_completion_def try_mark_ready_def)

lemma demo_first_turn:
  "\<exists>m. msg_step pair_sem (demo0, []) (m, []) \<and> ms_events m = [] \<and> ms_transitions m = [TrHelloSend]
    \<and> ms_state m = STATE_CREATED \<and> \<not> ms_hello_receive_complete m \<and> \<not> ms_hello_send_complete m
    \<and> ms_buffer_size m = 12 \<and> ms_remote_credits m = (0, False)"
proof -
  let ?p = "\<lparr>mp_data_sends = pool_new pair_sem (replicate 1 (demo_mr 24)),
       mp_control_sends = pool_new pair_sem (replicate 2 (demo_mr 24)), mp_hello_send = None\<rparr>"
  obtain n bs where w: "write_hello_frame (mr_bytes (demo_mr 24)) 2 12 = Ok (n, bs)"
    using write_hello_frame_Ok [of "mr_bytes (demo_mr 24)" 2 12]
    by (simp add: demo_mr_def HELLO_FRAME_SIZE_def HEADER_SIZE_def HELLO_PAYLOAD_SIZE_def)
  let ?m = "demo0\<lparr>ms_events := [], ms_hello_send_posted := True, ms_pools := Some ?p,
     ms_io := Some (snd (io_post_send ((demo_mr 24)\<lparr>mr_bytes := bs\<rparr>) n (Ctx HelloSendCtx) None demo_io)),
     ms_transitions := [TrHelloSend]\<rparr>"
  have h: "start_hello_send pair_sem (demo0\<lparr>ms_events := []\<rparr>) = (Ok (), ?m)"
    using w
    by (simp add: start_hello_send_def demo0_def msg_new_def state_defs msg_io_def msg_pools_def demo_cfg_def
        post_send_tracked_def io_post_send_def submit_protocol_def io_submit_def demo_io_def ingress_new_def
        validate_operation_batch_def reserve_protocol_payload_def track_protocol_disposition_def)
  have "pop_work (no_pref, demo0) = (Some (Protocol EvStart), no_pref\<lparr>pf_io := True\<rparr>, demo0\<lparr>ms_events := []\<rparr>)"
    by (simp add: pop_work_def no_pref_def pop_protocol_def demo0_def)
  then have "process_turn pair_sem (no_pref, demo0) =
      (Ok True, no_pref\<lparr>pf_io := True, pf_credit := True, pf_admission := True\<rparr>, ?m)"
    using h by (simp add: process_turn_def process_any_def no_pref_def)
  then have "msg_step pair_sem (demo0, []) (?m, [])" by (rule msg_step.turn)
  then show ?thesis
    by (intro exI [of _ ?m]) (simp add: demo0_def msg_new_def demo_cfg_def pair_sem_def)
qed

lemma honest_feed:
  assumes "honest_run pair_sem (m, fs)" "ms_events m = []"
    "process_io_event pair_sem ev (m\<lparr>ms_io := Some demo_io\<rparr>) = (Ok u, m')" "one_hello m'"
  shows "honest_run pair_sem (m', fs)"
proof -
  obtain m1 where m1: "msg_step pair_sem (m, fs) (m1, fs)" "msg_step pair_sem (m1, fs) (m', fs)"
      "hellos m1 = hellos m" "ms_hello_receive_complete m1 = ms_hello_receive_complete m"
    using feed_turn [OF assms(2,3)] by blast
  have "one_hello m1" using honest_balanced [OF pair_sem_law assms(1)] m1(3,4) by (simp add: one_hello_def)
  with assms(1,4) m1(1,2) honest_run.more show ?thesis by (metis fst_conv)
qed

lemma run_feed:
  assumes "msg_run pair_sem (m, fs)" "ms_events m = []"
    "process_io_event pair_sem ev (m\<lparr>ms_io := Some demo_io\<rparr>) = (Ok u, m')"
  shows "msg_run pair_sem (m', fs)"
  using feed_turn [OF assms(2,3)] assms(1) msg_run.more by metis

lemma demo_ready:
  "\<exists>m. honest_run pair_sem (m, []) \<and> ms_state m = STATE_READY \<and> ms_remote_credits m = (2, False)
     \<and> ms_peer_recv_capacity m = 2"
proof -
  obtain m1 where m1: "msg_step pair_sem (demo0, []) (m1, [])" "ms_events m1 = []" "ms_transitions m1 = [TrHelloSend]"
      "ms_state m1 = STATE_CREATED" "\<not> ms_hello_receive_complete m1" "\<not> ms_hello_send_complete m1"
      "ms_buffer_size m1 = 12" "ms_remote_credits m1 = (0, False)"
    using demo_first_turn by blast
  have r1: "honest_run pair_sem (m1, [])"
    using honest_run.more [OF honest_run.start [OF demo_start] m1(1)] m1(5) by (simp add: one_hello_def)
  obtain io where h: "process_io_event pair_sem (hello_event 2) (m1\<lparr>ms_io := Some demo_io\<rparr>) =
      (Ok (), m1\<lparr>ms_io := Some io, ms_transitions := ms_transitions m1 @ [TrHelloReceiveRepost (unat (2 :: u32))]\<rparr>)"
    using feed_hello [OF m1(4,5,7), of 2] by auto
  let ?m2 = "m1\<lparr>ms_io := Some io, ms_transitions := [TrHelloSend, TrHelloReceiveRepost 2]\<rparr>"
  have r2: "honest_run pair_sem (?m2, [])"
    using honest_feed [OF r1 m1(2) h] m1 by (simp add: one_hello_def)
  let ?m3 = "?m2\<lparr>ms_io := Some demo_io, ms_transitions := [TrHelloReceiveRepost 2]\<rparr>"
  have r3: "honest_run pair_sem (?m3, [])"
    using honest_feed [OF r2 _ feed_receipt [of ?m2 "[TrHelloReceiveRepost 2]"]] m1 by (simp add: one_hello_def)
  let ?m4 = "?m3\<lparr>ms_io := Some demo_io, ms_transitions := [], ms_peer_recv_capacity := 2,
       ms_remote_credits := (2, False), ms_hello_receive_complete := True\<rparr>"
  have r4: "honest_run pair_sem (?m4, [])"
    using honest_feed [OF r3 _ feed_grant [of ?m3 2 "[]" 0]] m1
    by (simp add: one_hello_def hellos_def numeral_2_eq_2)
  let ?m5 = "?m4\<lparr>ms_io := Some demo_io, ms_hello_send_complete := True, ms_state := STATE_READY,
       ms_state_notifies := ms_state_notifies ?m4 + 1\<rparr>"
  have r5: "honest_run pair_sem (?m5, [])"
    using honest_feed [OF r4 _ feed_sent [of ?m4]] m1 by (simp add: one_hello_def hellos_def)
  then show ?thesis by (intro exI [of _ ?m5]) simp
qed

lemma demo_double:
  "\<exists>m. msg_run pair_sem (m, []) \<and> ms_state m = STATE_READY \<and> ms_remote_credits m = (4, False)
     \<and> ms_peer_recv_capacity m = 2"
proof -
  obtain m1 where m1: "msg_step pair_sem (demo0, []) (m1, [])" "ms_events m1 = []" "ms_transitions m1 = [TrHelloSend]"
      "ms_state m1 = STATE_CREATED" "\<not> ms_hello_receive_complete m1" "\<not> ms_hello_send_complete m1"
      "ms_buffer_size m1 = 12" "ms_remote_credits m1 = (0, False)"
    using demo_first_turn by blast
  have r1: "msg_run pair_sem (m1, [])" by (rule msg_run.more [OF msg_run.start [OF demo_start] m1(1)])
  have h: "\<exists>io. msg_run pair_sem (m\<lparr>ms_io := Some io, ms_transitions := ms_transitions m @ [TrHelloReceiveRepost 2]\<rparr>, [])"
    if r: "msg_run pair_sem (m, [])" "ms_events m = []" "ms_state m = STATE_CREATED" "\<not> ms_hello_receive_complete m"
      "ms_buffer_size m = 12" for m
    using feed_hello [OF r(3-5), of 2] run_feed [OF r(1,2)] by fastforce
  obtain io where r2: "msg_run pair_sem (m1\<lparr>ms_io := Some io, ms_transitions := [TrHelloSend, TrHelloReceiveRepost 2]\<rparr>, [])"
    using h [OF r1 m1(2,4,5,7)] m1(3) by auto
  obtain io where r3: "msg_run pair_sem (m1\<lparr>ms_io := Some io,
      ms_transitions := [TrHelloSend, TrHelloReceiveRepost 2, TrHelloReceiveRepost 2]\<rparr>, [])"
    using h [OF r2] m1 by auto
  let ?ts = "[TrHelloReceiveRepost 2, TrHelloReceiveRepost 2]"
  let ?m3 = "m1\<lparr>ms_io := Some demo_io, ms_transitions := ?ts\<rparr>"
  have r4: "msg_run pair_sem (?m3, [])"
    using run_feed [OF r3 _ feed_receipt] m1 by simp
  let ?m4 = "?m3\<lparr>ms_transitions := [TrHelloReceiveRepost 2], ms_peer_recv_capacity := 2,
       ms_remote_credits := (0 + 2, False), ms_hello_receive_complete := True\<rparr>"
  have r5: "msg_run pair_sem (?m4, [])"
    using run_feed [OF r4 _ feed_grant [of ?m3 2 "[TrHelloReceiveRepost 2]" 0]] m1 by simp
  let ?m5 = "?m3\<lparr>ms_transitions := [], ms_peer_recv_capacity := 2,
       ms_remote_credits := (0 + 2 + 2, False), ms_hello_receive_complete := True\<rparr>"
  have r6: "msg_run pair_sem (?m5, [])"
    using run_feed [OF r5 _ feed_grant [of ?m4 2 "[]" "0 + 2"]] m1 by simp
  let ?m6 = "?m5\<lparr>ms_io := Some demo_io, ms_hello_send_complete := True, ms_state := STATE_READY,
       ms_state_notifies := ms_state_notifies ?m5 + 1\<rparr>"
  have "msg_run pair_sem (?m6, [])" using run_feed [OF r6 _ feed_sent [of ?m5]] m1 by simp
  then show ?thesis by (intro exI [of _ ?m6]) simp
qed

subsection \<open>Properties\<close>

text \<open>C4: The credit balance. In every run of the message transport in which the peer announces
  itself once, however sends, drops, completions, receipts and engine steps interleave: while the
  transport is ready, the available credits, the credits held by sends that wait for a buffer,
  those held by requests not yet posted and those in flight add up to exactly the receive
  capacity the peer announced. So available and in-flight credits never exceed that capacity.\<close>

theorem msg_credit_balance:
  assumes "sem_law S" "honest_run S (m, fs)" "ms_state m = STATE_READY"
  shows "sem_permits S (ms_remote_credits m) + sum_list (map holds_credit fs)
      + length (filter rq_credit (ms_requests m)) + ms_credits_in_flight m = ms_peer_recv_capacity m
    \<and> 0 < ms_peer_recv_capacity m"
  using honest_balanced [OF assms(1,2)] assms(3)
  by (auto simp: balanced_def tidy_def total_credits_def credit_sum_def state_defs)

theorem msg_credit_balance_witness:
  "\<exists>m :: (nat \<times> bool) msg. ms_state m = STATE_READY
     \<and> sem_permits pair_sem (ms_remote_credits m) + sum_list (map holds_credit [])
       + length (filter rq_credit (ms_requests m)) + ms_credits_in_flight m = ms_peer_recv_capacity m
     \<and> ms_peer_recv_capacity m = 2"
proof -
  obtain m where m: "honest_run pair_sem (m, [])" "ms_state m = STATE_READY" "ms_peer_recv_capacity m = 2"
    using demo_ready by blast
  then show ?thesis using msg_credit_balance [OF pair_sem_law m(1,2)] by (intro exI [of _ m]) simp
qed

text \<open>C37: A second \<^verbatim>\<open>HELLO\<close> breaks the balance. A peer that sends two \<^verbatim>\<open>HELLO\<close> frames before
  the first is answered is not refused: both pass the test for a duplicate, which looks at a mark
  that is set only by the receipt of the repost, and both receipts add the capacity. There is a
  run after which the transport is ready and the sender holds twice the credits the peer has
  buffers, against the invariant the module documents.\<close>

theorem msg_two_hellos:
  "\<exists>m. msg_run pair_sem (m, []) \<and> ms_state m = STATE_READY \<and> ms_peer_recv_capacity m = 2
     \<and> sem_permits pair_sem (ms_remote_credits m) + ms_credits_in_flight m \<ge> 2 * ms_peer_recv_capacity m"
proof -
  obtain m where m: "msg_run pair_sem (m, [])" "ms_state m = STATE_READY" "ms_remote_credits m = (4, False)"
      "ms_peer_recv_capacity m = 2"
    using demo_double by blast
  then show ?thesis by (intro exI [of _ m]) (simp add: pair_sem_def)
qed

text \<open>C5: The lifecycle. In every run: the state never moves back, a stopped or failed transport
  stays as it is, and the first error stays; a ready transport has sent its \<^verbatim>\<open>HELLO\<close> and accepted the
  peer's, a failed one has an error; and from the start of closing on the event queue is empty
  and the buffer pools are closed.\<close>

theorem msg_lifecycle:
  assumes "sem_law S" "msg_run S s" "(msg_step S)\<^sup>*\<^sup>* s s'"
  shows "ms_state (fst s) \<le> ms_state (fst s')
    \<and> (is_terminal (ms_state (fst s)) \<longrightarrow> ms_state (fst s') = ms_state (fst s))
    \<and> (ms_error (fst s) \<noteq> None \<longrightarrow> ms_error (fst s') = ms_error (fst s))
    \<and> (ms_state (fst s) = STATE_READY \<longrightarrow>
         ms_hello_send_complete (fst s) \<and> ms_hello_receive_complete (fst s))
    \<and> (ms_state (fst s) = STATE_FAILED \<longrightarrow> ms_error (fst s) \<noteq> None)
    \<and> (ms_state (fst s) \<ge> STATE_CLOSING \<longrightarrow> ms_events (fst s) = []
         \<and> (\<forall>p. ms_pools (fst s) = Some p \<longrightarrow> pl_closed (mp_data_sends p) \<and> pl_closed (mp_control_sends p)))"
  using run_tidy [OF assms(1,2)] steps_forward [OF assms(1) run_tidy [OF assms(1,2)] assms(3)]
  by (auto simp: forward_def tidy_def quiesced_def)

theorem msg_lifecycle_witness:
  "\<exists>m. msg_run pair_sem (m, []) \<and> ms_hello_send_complete m \<and> ms_hello_receive_complete m
     \<and> ms_state demo0 \<le> ms_state m"
proof -
  obtain m where m: "msg_run pair_sem (m, [])" "ms_state m = STATE_READY" using demo_double by blast
  have "ms_state demo0 \<le> ms_state m" by (simp add: demo0_def msg_new_def state_defs m(2))
  with msg_lifecycle [OF pair_sem_law m(1) rtranclp.rtrancl_refl] m show ?thesis by auto
qed

text \<open>C34: Nobody waits for a closed transport. Once closing has begun, every poll of a pending \<open>send\<close>,
  in whatever phase it is, every poll of \<open>recv\<close> and every poll of \<open>ready\<close> returns: no future of
  the frontend stays pending, whatever the semaphores answer.\<close>

theorem msg_closed_no_wait:
  fixes m :: "'s msg"
  assumes "STATE_CLOSING \<le> ms_state m" "ms_state m \<le> STATE_FAILED" "f \<noteq> SendDone"
  shows "(\<exists>r m'. poll_send_message S f m = (Ready r, SendDone, m'))
    \<and> (\<exists>r. fst (poll_recv_message m) = Ready r) \<and> (\<exists>e. poll_ready m = Ready (Err e))"
proof -
  have st: "ms_state m = STATE_CLOSING \<or> ms_state m = STATE_STOPPED \<or> ms_state m = STATE_FAILED"
    using assms(1,2) by (auto simp: state_defs)
  have w: "\<exists>e. wait_terminal x = Some e" if "ms_state x = ms_state m" for x :: "'s msg"
    using st that by (auto simp: wait_terminal_def state_defs)
  have rd: "\<exists>e. poll_ready m = Ready (Err e)" using st by (auto simp: poll_ready_def state_defs)
  have pw: "\<exists>r m'. poll_waiter i x = (Ready r, SendDone, m')" if "ms_state x = ms_state m" for i and x :: "'s msg"
    using w [OF that] by (auto simp: poll_waiter_def split: option.splits)
  have en: "ms_state (enqueue_event S ev x) = ms_state m" if "ms_state x = ms_state m" for ev and x :: "'s msg"
    using that by (simp add: enqueue_event_def queue_event_def publish_def dispose_terminal_state Let_def)
  have pb: "\<exists>r m'. poll_buffer S data x = (Ready r, SendDone, m')" if x: "ms_state x = ms_state m" for data and x :: "'s msg"
  proof (cases "msg_pools x")
    case (Ok p)
    obtain t d where t: "pool_take S (mp_data_sends p) = (t, d)" by fastforce
    let ?x = "x\<lparr>ms_pools := Some (p\<lparr>mp_data_sends := d\<rparr>)\<rparr>"
    from w [of ?x] x obtain e where e: "wait_terminal ?x = Some e" by auto
    have q: "\<exists>r m'. poll_waiter i (enqueue_event S ev (?x\<lparr>ms_requests := rs\<rparr>)) = (Ready r, SendDone, m')" for i ev rs
      by (rule pw, rule en) (simp add: x)
    show ?thesis
      using Ok t e q by (cases t) (auto simp: poll_buffer_def Let_def split: outcome.split prod.split)
  qed (simp_all add: poll_buffer_def)
  have pc: "\<exists>r m'. poll_credit S data m = (Ready r, SendDone, m')" for data
  proof -
    obtain a s where t: "sem_try S 1 (ms_remote_credits m) = (a, s)" by fastforce
    from w obtain e where e: "wait_terminal m = Some e" by auto
    show ?thesis using t e pb [of "m\<lparr>ms_remote_credits := s\<rparr>"] by (cases a) (simp_all add: poll_credit_def)
  qed
  have "\<exists>r. fst (poll_recv_message m) = Ready r"
    using w [of m] by (cases "ms_received m") (auto simp: poll_recv_message_def)
  moreover have "\<exists>r m'. poll_send_message S f m = (Ready r, SendDone, m')"
    using assms(3) rd pw [of m] pb [of m] pc by (cases f) auto
  ultimately show ?thesis using rd by blast
qed

theorem msg_closed_no_wait_witness:
  "\<exists>r m'. poll_send_message pair_sem (WaitBuffer [1]) (demo0\<lparr>ms_state := STATE_CLOSING\<rparr>) = (Ready r, SendDone, m')"
  using msg_closed_no_wait [of "demo0\<lparr>ms_state := STATE_CLOSING\<rparr>" "WaitBuffer [1]" pair_sem] by (simp add: state_defs)

text \<open>C32: What is sent is received. A \<open>send\<close> that gets a buffer with room for the frame queues one
  request for it and waits; whenever the peer's device places the frame's bytes in a receive
  buffer of a ready peer whose messages may be that long, the peer queues a message behind
  those it has, and the bytes of that message are exactly the data that was sent.\<close>

theorem msg_data_delivered:
  assumes "ms_state m1 = STATE_READY" "ms_pools m1 = Some p" "pool_take S (mp_data_sends p) = (Ready (Ok mr1), d)"
    "HEADER_SIZE + length data \<le> length (mr_bytes mr1)" "length data < 2 ^ 32"
    and "ms_state m2 = STATE_READY" "length data \<le> ms_buffer_size m2"
  shows "\<exists>m1' bs n. poll_send_message S (WaitBuffer data) m1 = (Pending, WaitCompletion (length (ms_requests m1)), m1')
    \<and> ms_requests m1' = ms_requests m1 @ [request_new (mr1\<lparr>mr_bytes := bs\<rparr>) True n]
    \<and> ms_events m1' = ms_events m1 @ [EvSendRequest (length (ms_requests m1))]
    \<and> (\<forall>c mr2. unat (byte_len c) = n \<and> n \<le> length (mr_bytes mr2) \<and> take n (mr_bytes mr2) = take n bs \<longrightarrow>
         (\<exists>m2'. process_receive S' (Ok c) (Some mr2) m2 = (Ok (), m2')
            \<and> ms_received m2' = ms_received m2 @ [(mr2, length data)] \<and> message_bytes (mr2, length data) = Ok data))"
proof -
  let ?n = "HEADER_SIZE + length data"
  let ?h = "header_bytes FRAME_DATA (word_of_nat (length data))"
  let ?bs = "?h @ data @ drop ?n (mr_bytes mr1)"
  have n: "unat (word_of_nat (length data) :: u32) = length data" using assms(5) by (simp add: unat_of_nat)
  have w: "write_data_frame (mr_bytes mr1) data = Ok (?n, ?bs)" using write_data_frame_Ok [OF assms(4)] by simp
  have recv: "\<exists>m2'. process_receive S' (Ok c) (Some mr2) m2 = (Ok (), m2')
            \<and> ms_received m2' = ms_received m2 @ [(mr2, length data)] \<and> message_bytes (mr2, length data) = Ok data"
    if c: "unat (byte_len c) = ?n" "?n \<le> length (mr_bytes mr2)" "take ?n (mr_bytes mr2) = take ?n ?bs" for c mr2
  proof -
    have b: "mr_bytes mr2 = ?h @ data @ drop ?n (mr_bytes mr2)"
      using c(3) append_take_drop_id [of ?n "mr_bytes mr2"] by (simp add: HEADER_SIZE_def)
    have "parse_header (?h @ data @ drop ?n (mr_bytes mr2)) ?n =
        Ok \<lparr>frame_type = FRAME_DATA, payload_len = word_of_nat (length data)\<rparr>"
      by (rule parse_header_bytes) (simp_all add: n FRAME_DATA_def FRAME_HELLO_def)
    then have "parse_header (mr_bytes mr2) ?n = Ok \<lparr>frame_type = FRAME_DATA, payload_len = word_of_nat (length data)\<rparr>"
      using b by simp
    moreover have "slice (mr_bytes mr2) HEADER_SIZE ?n = data" by (subst b) (simp add: slice_def HEADER_SIZE_def)
    ultimately show ?thesis
      using c assms(6,7) n by (simp add: process_receive_def state_defs process_frame_def message_bytes_def)
  qed
  let ?m1 = "publish (m1\<lparr>ms_pools := Some (p\<lparr>mp_data_sends := d\<rparr>),
    ms_requests := ms_requests m1 @ [request_new (mr1\<lparr>mr_bytes := ?bs\<rparr>) True ?n],
    ms_events := ms_events m1 @ [EvSendRequest (length (ms_requests m1))]\<rparr>)"
  have "poll_send_message S (WaitBuffer data) m1 = (Pending, WaitCompletion (length (ms_requests m1)), ?m1)"
    using assms(1-3) w
    by (simp add: poll_buffer_def msg_pools_def enqueue_event_def queue_event_def state_defs poll_waiter_def
        publish_def wait_terminal_def request_new_def Let_def)
  then show ?thesis
    using recv by (intro exI [of _ ?m1] exI [of _ ?bs] exI [of _ ?n]) (simp add: publish_def del: take_append)
qed

definition demo_ready_end :: "(nat \<times> bool) msg" where
  "demo_ready_end = demo0\<lparr>ms_state := STATE_READY, ms_events := []\<rparr>"

theorem msg_data_delivered_witness:
  "\<exists>m1' bs n. poll_send_message pair_sem (WaitBuffer [1, 2]) demo_ready_end = (Pending, WaitCompletion 0, m1')
    \<and> ms_requests m1' = [request_new ((demo_mr 24)\<lparr>mr_bytes := bs\<rparr>) True n]"
proof -
  let ?p = "\<lparr>mp_data_sends = pool_new pair_sem (replicate 1 (demo_mr 24)),
       mp_control_sends = pool_new pair_sem (replicate 2 (demo_mr 24)), mp_hello_send = Some (demo_mr 24)\<rparr>"
  have t: "pool_take pair_sem (mp_data_sends ?p) =
      (Ready (Ok (demo_mr 24)), \<lparr>pl_closed = False, pl_entries = [], pl_available = (0, False)\<rparr>)"
    by (simp add: pool_take_def pool_new_def pair_sem_def)
  have r: "ms_state demo_ready_end = STATE_READY" "ms_pools demo_ready_end = Some ?p" "ms_requests demo_ready_end = []"
    "ms_buffer_size demo_ready_end = 12"
    by (simp_all add: demo_ready_end_def demo0_def msg_new_def demo_cfg_def)
  have "HEADER_SIZE + length [1, 2 :: u8] \<le> length (mr_bytes (demo_mr 24))" by (simp add: demo_mr_def HEADER_SIZE_def)
  from msg_data_delivered [OF r(1,2) t this _ r(1), where S' = pair_sem] r(3,4) show ?thesis by auto
qed

text \<open>C33: Which credits are accepted. While the transport is ready and the peer announced itself once,
  a returned number of credits is accepted if and only if it is positive and at most the number
  in flight; then exactly that many move from in flight to available. The third test of the code,
  against the negotiated capacity, never refuses, and adding the permits never panics.\<close>

theorem msg_credit_return_exact:
  assumes "sem_law S" "honest_run S (m, fs)" "ms_state m = STATE_READY"
  shows "(if unat n = 0 then \<exists>e. validate_and_add_credits S n m = (Err e, m)
     else if ms_credits_in_flight m < unat n then \<exists>e. validate_and_add_credits S n m = (Err e, m)
     else \<exists>s. validate_and_add_credits S n m =
         (Ok (), m\<lparr>ms_credits_in_flight := ms_credits_in_flight m - unat n, ms_remote_credits := s\<rparr>)
       \<and> sem_permits S s = sem_permits S (ms_remote_credits m) + unat n)"
proof -
  have b: "sem_permits S (ms_remote_credits m) + ms_credits_in_flight m \<le> ms_peer_recv_capacity m"
    "ms_peer_recv_capacity m \<le> MAX_PERMITS S"
    using honest_balanced [OF assms(1,2)] assms(3)
    by (auto simp: balanced_def tidy_def total_credits_def credit_sum_def state_defs)
  show ?thesis
  proof (cases "unat n = 0 \<or> ms_credits_in_flight m < unat n")
    case True
    then show ?thesis by (auto simp: validate_and_add_credits_def check_credit_return_def)
  next
    case False
    have le: "sem_permits S (ms_remote_credits m) + unat n \<le> MAX_PERMITS S"
      "sem_permits S (ms_remote_credits m) + unat n \<le> ms_peer_recv_capacity m" using False b by linarith+
    with False have "check_credit_return (unat n) (ms_credits_in_flight m) (sem_permits S (ms_remote_credits m))
        (ms_peer_recv_capacity m) = Ok ()"
      by (simp add: check_credit_return_def)
    moreover obtain s where "sem_add S (unat n) (ms_remote_credits m) = (Ok (), s)"
        "sem_permits S s = sem_permits S (ms_remote_credits m) + unat n"
      using sem_law_add(1,2) [OF assms(1) le(1)] by (metis prod.collapse)
    ultimately show ?thesis
      using False by (auto simp: validate_and_add_credits_def add_credits_def)
  qed
qed

theorem msg_credit_return_exact_witness:
  "\<exists>(m :: (nat \<times> bool) msg) e. ms_state m = STATE_READY \<and> validate_and_add_credits pair_sem 0 m = (Err e, m)"
proof -
  obtain m where m: "honest_run pair_sem (m, [])" "ms_state m = STATE_READY" "ms_peer_recv_capacity m = 2"
    using demo_ready by blast
  then show ?thesis using msg_credit_return_exact [OF pair_sem_law m(1,2), of 0] by auto
qed

lemma flush_idle:
  assumes "flush_one_credit S m = (Ok False, m')"
  shows "ms_events m' = ms_events m \<and> ms_io m' = ms_io m"
proof (cases "ms_pending_credit_returns m = 0 \<or> ms_state m \<noteq> STATE_READY")
  case False
  obtain p where p: "msg_pools m = Ok p"
    using assms False by (cases "msg_pools m") (auto simp: flush_one_credit_def elim!: and_then_Ok)
  obtain x c where t: "pool_try_take S (mp_control_sends p) = (x, c)" by fastforce
  have "x = None"
  proof (rule ccontr)
    assume "x \<noteq> None"
    then obtain mr where x: "x = Some mr" by blast
    obtain n m2 where c: "claim_pending_credit_returns (m\<lparr>ms_pools := Some (p\<lparr>mp_control_sends := c\<rparr>)\<rparr>) = (n, m2)"
      by fastforce
    then have "n \<noteq> 0" using False by (auto simp: claim_pending_credit_returns_def Let_def split: if_splits)
    then show False
      using assms False p t x c
      by (auto simp: flush_one_credit_def Let_def split: outcome.splits prod.splits elim!: and_then_Ok)
  qed
  then show ?thesis using assms False p t by (auto simp: flush_one_credit_def)
qed (use assms in \<open>auto simp: flush_one_credit_def\<close>)

definition idle :: "'s msg \<Rightarrow> bool" where
  "idle m \<longleftrightarrow> ms_events m = [] \<and> (\<forall>io. ms_io m = Some io \<longrightarrow>
     ep_events (io_port io) = [] \<and> \<not> has_unpolled_admission io)"

lemma admission_idle:
  fixes S :: "'s sem_ops"
  assumes "poll_protocol_admission S m = (False, m')"
  shows "ms_events m' = ms_events m" "\<forall>io'. ms_io m' = Some io' \<longrightarrow> \<not> has_unpolled_admission io'
    \<and> (\<exists>io. ms_io m = Some io \<and> io_port io' = io_port io)"
proof -
  have "\<not> has_unpolled_admission io' \<and> io_port io' = io_port io"
    if "poll_admission S fl 1 io = (0, io')" for fl and io io' :: "(msg_context, 's) io_conn"
    using that
    by (auto simp: has_unpolled_admission_def Let_def One_nat_def split: list.splits if_splits prod.splits sem_outcome.splits)
  then show "ms_events m' = ms_events m" "\<forall>io'. ms_io m' = Some io' \<longrightarrow> \<not> has_unpolled_admission io'
    \<and> (\<exists>io. ms_io m = Some io \<and> io_port io' = io_port io)"
    using assms by (auto simp: poll_protocol_admission_def simp del: poll_admission.simps split: option.splits prod.splits)
qed

lemma pop_work_None:
  assumes "pop_work (pf, m) = (None, pf', m')"
  shows "ms_events m' = [] \<and> (\<forall>io. ms_io m' = Some io \<longrightarrow> ep_events (io_port io) = [])"
  using assms
  by (auto simp: pop_work_def pop_protocol_def pop_io_def port_pop_def Let_def split: if_splits list.splits option.splits)

lemma turn_idle:
  assumes "process_turn S (pf, m) = (Ok False, pf', m')"
  shows "idle m'"
proof -
  obtain pf1 m1 where a: "process_any S (pf1, m1) = (Ok False, pf', m')"
    using assms by (auto simp: process_turn_def Let_def split: if_splits prod.splits elim!: and_then_Ok)
  obtain pf2 m2 where w: "pop_work (pf1, m1) = (None, pf2, m2)"
    using a by (auto simp: process_any_def split: prod.splits option.splits elim!: and_then_Ok)
  obtain m3 where ad: "poll_protocol_admission S m2 = (False, m3)"
    using a w by (auto simp: process_any_def split: prod.splits bool.splits)
  have "flush_one_credit S m3 = (Ok False, m')"
    using a w ad by (auto simp: process_any_def split: prod.splits)
  from flush_idle [OF this] admission_idle [OF ad] pop_work_None [OF w] show ?thesis
    by (auto simp: idle_def)
qed

text \<open>C35: What one poll of the driver leaves behind. The driver's loop does at most as many turns as
  its budget allows; if it stops before, nothing is left to do: no local event and no event of
  the engine is queued, and the head of the admission queue, if there is one, has been polled
  and waits for permits.\<close>

theorem msg_process_drains:
  assumes "process S n (pf, m) = (Ok k, pf', m')"
  shows "k \<le> n \<and> (k < n \<longrightarrow> ms_events m' = [] \<and> (\<forall>io. ms_io m' = Some io \<longrightarrow>
     ep_events (io_port io) = [] \<and> \<not> has_unpolled_admission io))"
proof -
  have "k \<le> n \<and> (k < n \<longrightarrow> idle m')" using assms
  proof (induction n arbitrary: pf m k)
    case (Suc n)
    then obtain go pf1 m1 where t: "process_turn S (pf, m) = (Ok go, pf1, m1)"
        "(if go then and_then (process S n (pf1, m1)) (\<lambda>k s. (Ok (k + 1), s)) else (Ok 0, pf1, m1)) = (Ok k, pf', m')"
      by (auto elim!: and_then_Ok)
    show ?case
    proof (cases go)
      case True
      then obtain j where "process S n (pf1, m1) = (Ok j, pf', m')" "k = j + 1"
        using t(2) by (auto elim!: and_then_Ok)
      then show ?thesis using Suc.IH by force
    next
      case False
      then show ?thesis using t turn_idle [of S pf m pf1 m1] by auto
    qed
  qed simp
  then show ?thesis by (simp add: idle_def)
qed

theorem msg_process_drains_witness:
  "\<exists>m'. process pair_sem 1 (no_pref, demo_ready_end\<lparr>ms_io := None\<rparr>) = (Ok 0, no_pref, m') \<and> ms_events m' = []"
proof -
  have p: "process pair_sem 1 (no_pref, demo_ready_end\<lparr>ms_io := None\<rparr>) = (Ok 0, no_pref, demo_ready_end\<lparr>ms_io := None\<rparr>)"
    by (simp add: One_nat_def process_turn_def process_any_def pop_work_def pop_protocol_def pop_io_def no_pref_def
        demo_ready_end_def poll_protocol_admission_def flush_one_credit_def demo0_def msg_new_def Let_def)
  from msg_process_drains [OF p] have "ms_events (demo_ready_end\<lparr>ms_io := None\<rparr>) = []" by simp
  with p show ?thesis by blast
qed

text \<open>C36: The handshake of two ends. Two configurations that the builder accepts: the \<^verbatim>\<open>HELLO\<close> frame one
  end writes is read by the other as exactly the configured capacity and message size, and the
  other accepts it, with that capacity as its credits, if and only if its own messages are not
  longer than the announced size. In both directions: two ends agree only if
  their buffer sizes are equal.\<close>

theorem msg_hello_agreement:
  assumes "derive_engine_config b = Ok c" "mc_recv_count c \<le> MAX_PERMITS S"
    "HELLO_FRAME_SIZE \<le> length buf"
  shows "\<exists>bs. write_hello_frame buf (word_of_nat (ms_local_recv_capacity (msg_new S c)))
         (word_of_nat (ms_buffer_size (msg_new S c))) = Ok (HELLO_FRAME_SIZE, bs)
     \<and> parse_hello_receive S (wc_default\<lparr>byte_len := word_of_nat HELLO_FRAME_SIZE\<rparr>) (mr\<lparr>mr_bytes := bs\<rparr>) peer =
         (if ms_buffer_size peer \<le> mc_buffer_size c then Ok (mc_recv_count c)
          else Err (ProtocolViolation (Literal ''peer max_message_size < local buffer_size'')))"
proof -
  let ?cap = "word_of_nat (mc_recv_count c) :: u32" and ?mms = "word_of_nat (mc_buffer_size c) :: u32"
  let ?p = "le32 ?cap @ le32 ?mms @ le32 (ucast PROTO_VERSION)"
  let ?bs = "header_bytes FRAME_HELLO 12 @ ?p @ drop HELLO_FRAME_SIZE buf"
  have c: "0 < mc_recv_count c" "mc_recv_count c < 2 ^ 32" "mc_buffer_size c < 2 ^ 32"
    using assms(1)
    by (auto simp: derive_engine_config_def mb_validate_def Let_def split: if_splits option.splits outcome.splits)
  then have u: "unat ?cap = mc_recv_count c" "unat ?mms = mc_buffer_size c" by (simp_all add: unat_of_nat)
  have w: "write_hello_frame buf ?cap ?mms = Ok (HELLO_FRAME_SIZE, ?bs)"
    using write_hello_frame_Ok [OF assms(3)] by (simp del: le_bytes.simps)
  have h: "parse_header ?bs 24 = Ok \<lparr>frame_type = FRAME_HELLO, payload_len = 12\<rparr>"
    by (rule parse_header_bytes) (simp_all add: HEADER_SIZE_def)
  have s: "slice ?bs 12 24 = ?p" by (simp add: slice_def del: le_bytes.simps)
  have l: "24 \<le> length ?bs" by simp
  have "parse_hello_receive S (wc_default\<lparr>byte_len := 24\<rparr>) (mr\<lparr>mr_bytes := ?bs\<rparr>) peer =
      validate_peer_hello S \<lparr>data_recv_capacity = ?cap, max_message_size = ?mms\<rparr> (ms_buffer_size peer)"
    using h s l parse_hello_le32 [of ?cap ?mms]
    by (simp add: parse_hello_receive_def HEADER_SIZE_def del: le_bytes.simps append_assoc length_append)
  moreover have "validate_peer_hello S \<lparr>data_recv_capacity = ?cap, max_message_size = ?mms\<rparr> (ms_buffer_size peer) =
      (if ms_buffer_size peer \<le> mc_buffer_size c then Ok (mc_recv_count c)
       else Err (ProtocolViolation (Literal ''peer max_message_size < local buffer_size'')))"
    using c u assms(2) by (auto simp: validate_peer_hello_def Let_def)
  ultimately show ?thesis
    using w by (intro exI [of _ ?bs]) (simp add: msg_new_def HELLO_FRAME_SIZE_def HEADER_SIZE_def HELLO_PAYLOAD_SIZE_def)
qed

definition demo_builder :: message_builder where
  "demo_builder = message_builder_new\<lparr>mb_recv_buffer_count := 2, mb_send_buffer_count := 1, mb_buffer_size := 12\<rparr>"

theorem msg_hello_agreement_witness:
  "\<exists>bs. parse_hello_receive pair_sem (wc_default\<lparr>byte_len := word_of_nat HELLO_FRAME_SIZE\<rparr>)
      ((demo_mr 24)\<lparr>mr_bytes := bs\<rparr>) demo0 = Ok 2"
proof -
  obtain c where c: "derive_engine_config demo_builder = Ok c" "mc_recv_count c = 2" "mc_buffer_size c = 12"
    by (simp add: demo_builder_def message_builder_new_def derive_engine_config_def mb_validate_def size_consts
        MIN_MESSAGE_HELLO_DEADLINE_def MAX_MESSAGE_HELLO_DEADLINE_def DEFAULT_MESSAGE_HELLO_DEADLINE_def)
  have "ms_buffer_size demo0 = 12" by (simp add: demo0_def msg_new_def demo_cfg_def)
  with msg_hello_agreement [OF c(1), of pair_sem "replicate 24 0" "demo_mr 24" demo0] c(2,3) show ?thesis
    by (auto simp: pair_sem_def size_consts)
qed

end
