(* ===== verification/Spec2Isabelle.thy ===== *)
theory Spec2Isabelle
  imports Prelude Verbs Wire ConnSlot Device Ring Tracker SendRecv SendQueue CoreDriver
    CreditRing CreditRingInv ReadRing ReadRingInv ByteStream StreamLog MsgIo Message MessageInv MessageRun MessageProps
begin

text \<open>
  A verification library for the crates of this repository.
\<close>

end
